(* ===== verification/Solon_Prelude.thy ===== *)
theory Solon_Prelude
  imports Main "HOL-Library.Sublist" "HOL-Library.Word" "HOL-Library.Code_Target_Nat"
begin

text \<open>
  Shared vocabulary of the development.  A Rust \<open>String\<close>, \<open>&str\<close> or \<open>&[u8]\<close> is a
  \<open>string\<close> whose characters are the bytes of the value (UTF-8 for the text types), so that
  byte indices, byte comparisons and the sizes the code computes are the ones of the model.
  The functions of this theory are the parts of the Rust standard library the sources use:
  byte classes, searching, splitting, trimming, number parsing and printing, UTF-8 checking.
\<close>

named_theorems solon_defs \<open>definitions unfolded by the component proofs\<close>
named_theorems solon_simps \<open>rewrite rules shared by the component proofs\<close>

type_synonym bytes = string
type_synonym u8 = "8 word"
type_synonym u16 = nat
type_synonym u32 = "32 word"
type_synonym u64 = "64 word"

section \<open>Byte classes\<close>

abbreviation code :: "char \<Rightarrow> nat" where
  "code c \<equiv> of_char c"

definition is_ascii_digit :: "char \<Rightarrow> bool" where
  [solon_defs]: "is_ascii_digit c \<longleftrightarrow> 48 \<le> code c \<and> code c \<le> 57"

definition is_ascii_alphabetic :: "char \<Rightarrow> bool" where
  [solon_defs]: "is_ascii_alphabetic c \<longleftrightarrow>
     (65 \<le> code c \<and> code c \<le> 90) \<or> (97 \<le> code c \<and> code c \<le> 122)"

definition is_ascii_alphanumeric :: "char \<Rightarrow> bool" where
  [solon_defs]: "is_ascii_alphanumeric c \<longleftrightarrow> is_ascii_alphabetic c \<or> is_ascii_digit c"

text \<open>\<open>u8::is_ascii_whitespace\<close>: space, tab, line feed, form feed, carriage return.\<close>

definition is_ascii_whitespace :: "char \<Rightarrow> bool" where
  [solon_defs]: "is_ascii_whitespace c \<longleftrightarrow> code c \<in> {9, 10, 12, 13, 32}"

definition ascii_lower :: "char \<Rightarrow> char" where
  [solon_defs]: "ascii_lower c =
     (if 65 \<le> code c \<and> code c \<le> 90 then char_of (code c + 32) else c)"

definition to_ascii_lowercase :: "string \<Rightarrow> string" where
  [solon_defs]: "to_ascii_lowercase s = map ascii_lower s"

definition to_ascii_uppercase :: "string \<Rightarrow> string" where
  "to_ascii_uppercase s = map (\<lambda>c. if 97 \<le> code c \<and> code c \<le> 122 then char_of (code c - 32) else c) s"

definition eq_ignore_ascii_case :: "string \<Rightarrow> string \<Rightarrow> bool" where
  [solon_defs]: "eq_ignore_ascii_case a b \<longleftrightarrow> to_ascii_lowercase a = to_ascii_lowercase b"

definition CR :: char where [solon_defs]: "CR = CHR 0x0D"
definition LF :: char where [solon_defs]: "LF = CHR 0x0A"
definition CRLF :: string where [solon_defs]: "CRLF = [CHR 0x0D, CHR 0x0A]"

lemma code_less_256 [simp]: "code c < 256"
proof -
  have "code c = code (char_of (code c) :: char)" by simp
  also have "\<dots> = code c mod 256" by (simp only: of_char_of)
  finally show ?thesis by (metis mod_less_divisor zero_less_numeral)
qed

lemma code_ascii_lower:
  "code (ascii_lower c) = (if 65 \<le> code c \<and> code c \<le> 90 then code c + 32 else code c)"
  by (simp add: ascii_lower_def)

lemma ascii_lower_idem [simp]: "ascii_lower (ascii_lower c) = ascii_lower c"
  by (simp add: ascii_lower_def)

lemma to_ascii_lowercase_idem [simp]:
  "to_ascii_lowercase (to_ascii_lowercase s) = to_ascii_lowercase s"
  by (simp add: to_ascii_lowercase_def)

lemma to_ascii_lowercase_append [simp]:
  "to_ascii_lowercase (a @ b) = to_ascii_lowercase a @ to_ascii_lowercase b"
  by (simp add: to_ascii_lowercase_def)

lemma length_to_ascii_lowercase [simp]: "length (to_ascii_lowercase s) = length s"
  by (simp add: to_ascii_lowercase_def)

lemma to_ascii_lowercase_Nil [simp]: "to_ascii_lowercase [] = []"
  by (simp add: to_ascii_lowercase_def)

section \<open>Searching\<close>

text \<open>\<open>str::find\<close> with a string pattern: index of the first occurrence.\<close>

fun find_sub :: "string \<Rightarrow> string \<Rightarrow> nat option" where
  "find_sub p [] = (if p = [] then Some 0 else None)"
| "find_sub p (x # xs) = (if prefix p (x # xs) then Some 0 else map_option Suc (find_sub p xs))"

definition contains_sub :: "string \<Rightarrow> string \<Rightarrow> bool" where
  "contains_sub p s \<longleftrightarrow> find_sub p s \<noteq> None"

text \<open>\<open>str::find\<close> with a predicate on bytes.\<close>

fun find_byte :: "(char \<Rightarrow> bool) \<Rightarrow> string \<Rightarrow> nat option" where
  "find_byte P [] = None"
| "find_byte P (x # xs) = (if P x then Some 0 else map_option Suc (find_byte P xs))"

lemma contains_sub_sublist: "contains_sub p s \<longleftrightarrow> sublist p s"
  by (induction s) (auto simp: contains_sub_def sublist_Cons_right)

lemma find_sub_Some:
  "find_sub p s = Some i \<Longrightarrow> i + length p \<le> length s \<and> take (length p) (drop i s) = p"
proof (induction s arbitrary: i)
  case Nil
  then show ?case by (auto split: if_splits)
next
  case (Cons x xs)
  show ?case
  proof (cases "prefix p (x # xs)")
    case True
    with Cons.prems have "i = 0" by simp
    with True show ?thesis by (auto simp: prefix_def dest: arg_cong [where f = length])
  next
    case False
    with Cons.prems obtain j where "find_sub p xs = Some j" "i = Suc j" by auto
    with Cons.IH show ?thesis by fastforce
  qed
qed

lemma find_byte_Some:
  "find_byte P s = Some i \<longleftrightarrow> i < length s \<and> P (s ! i) \<and> (\<forall>j < i. \<not> P (s ! j))"
proof (induction s arbitrary: i)
  case (Cons x xs)
  show ?case
    by (cases i) (use Cons.IH in \<open>auto simp: less_Suc_eq_0_disj\<close>)
qed simp

lemma find_byte_None: "find_byte P s = None \<longleftrightarrow> (\<forall>c \<in> set s. \<not> P c)"
  by (induction s) auto

lemma find_byte_takeWhile:
  "find_byte P s = Some i \<Longrightarrow> take i s = takeWhile (\<lambda>c. \<not> P c) s"
  by (induction s arbitrary: i) (auto split: if_splits)

section \<open>Splitting\<close>

text \<open>\<open>str::split\<close> with a one-byte separator (also \<open>slice::split\<close>).\<close>

fun split_on :: "char \<Rightarrow> string \<Rightarrow> string list" where
  "split_on c [] = [[]]"
| "split_on c (x # xs) =
     (if x = c then [] # split_on c xs
      else (case split_on c xs of [] \<Rightarrow> [[x]] | p # ps \<Rightarrow> (x # p) # ps))"

text \<open>The loops that push a separator before every piece but the first.\<close>

fun join_with :: "string \<Rightarrow> string list \<Rightarrow> string" where
  "join_with sep [] = []"
| "join_with sep [p] = p"
| "join_with sep (p # ps) = p @ sep @ join_with sep ps"

fun split_once :: "char \<Rightarrow> string \<Rightarrow> (string \<times> string) option" where
  "split_once c [] = None"
| "split_once c (x # xs) =
     (if x = c then Some ([], xs) else map_option (\<lambda>(a, b). (x # a, b)) (split_once c xs))"

definition rsplit_once :: "char \<Rightarrow> string \<Rightarrow> (string \<times> string) option" where
  "rsplit_once c s = map_option (\<lambda>(a, b). (rev b, rev a)) (split_once c (rev s))"

text \<open>\<open>str::split\<close> with the separator \<open>"\r\n"\<close>.\<close>

fun split_crlf :: "string \<Rightarrow> string list" where
  "split_crlf [] = [[]]"
| "split_crlf [x] = [[x]]"
| "split_crlf (x # y # xs) =
     (if x = CHR 0x0D \<and> y = CHR 0x0A then [] # split_crlf xs
      else (case split_crlf (y # xs) of [] \<Rightarrow> [[x]] | p # ps \<Rightarrow> (x # p) # ps))"

lemma split_on_not_Nil [simp]: "split_on c s \<noteq> []"
  by (induction s) (auto split: list.splits)

lemma split_on_no_sep: "p \<in> set (split_on c s) \<Longrightarrow> c \<notin> set p"
  by (induction s arbitrary: p) (auto split: list.splits if_splits)

lemma join_with_Cons: "ps \<noteq> [] \<Longrightarrow> join_with sep (p # ps) = p @ sep @ join_with sep ps"
  by (cases ps) auto

lemma join_with_Cons_Cons: "join_with sep ((x # p) # ps) = x # join_with sep (p # ps)"
  by (cases ps) auto

lemma join_split_on: "join_with [c] (split_on c s) = s"
proof (induction s)
  case (Cons x xs)
  show ?case
  proof (cases "split_on c xs")
    case (Cons p ps)
    with \<open>join_with [c] (split_on c xs) = xs\<close> show ?thesis
      by (auto simp: join_with_Cons_Cons join_with_Cons)
  qed simp
qed simp

lemma split_on_no_mem: "c \<notin> set s \<Longrightarrow> split_on c s = [s]"
  by (induction s) auto

lemma split_on_append: "c \<notin> set p \<Longrightarrow> split_on c (p @ c # s) = p # split_on c s"
  by (induction p) auto

lemma split_on_join:
  "ps \<noteq> [] \<Longrightarrow> \<forall>p \<in> set ps. c \<notin> set p \<Longrightarrow> split_on c (join_with [c] ps) = ps"
  by (induction "[c]" ps rule: join_with.induct) (auto simp: split_on_no_mem split_on_append)

lemma split_once_append: "c \<notin> set a \<Longrightarrow> split_once c (a @ c # b) = Some (a, b)"
  by (induction a) auto

lemma split_once_None: "split_once c s = None \<longleftrightarrow> c \<notin> set s"
  by (induction s) auto

lemma split_once_Some: "split_once c s = Some (a, b) \<longleftrightarrow> s = a @ c # b \<and> c \<notin> set a"
proof
  show "split_once c s = Some (a, b) \<Longrightarrow> s = a @ c # b \<and> c \<notin> set a"
    by (induction s arbitrary: a) (auto split: if_splits)
qed (auto simp: split_once_append)

lemma rsplit_once_Some:
  "rsplit_once c s = Some (a, b) \<longleftrightarrow> s = a @ c # b \<and> c \<notin> set b"
proof -
  have "rsplit_once c s = Some (a, b) \<longleftrightarrow> split_once c (rev s) = Some (rev b, rev a)"
    by (auto simp: rsplit_once_def)
  also have "\<dots> \<longleftrightarrow> rev s = rev b @ c # rev a \<and> c \<notin> set b"
    by (simp add: split_once_Some)
  also have "\<dots> \<longleftrightarrow> s = a @ c # b \<and> c \<notin> set b"
    by (metis rev.simps(2) rev_append rev_rev_ident append.assoc append_Cons append_Nil)
  finally show ?thesis .
qed

lemma split_crlf_not_Nil [simp]: "split_crlf s \<noteq> []"
  by (induction s rule: split_crlf.induct) (auto split: list.splits)

lemma join_split_crlf: "join_with CRLF (split_crlf s) = s"
proof (induction s rule: split_crlf.induct)
  case (3 x y xs)
  show ?case
  proof (cases "x = CHR 0x0D \<and> y = CHR 0x0A")
    case True
    with 3(1) show ?thesis by (simp add: join_with_Cons CRLF_def)
  next
    case False
    with 3(2) show ?thesis
      by (cases "split_crlf (y # xs)") (auto simp: join_with_Cons_Cons)
  qed
qed simp_all

section \<open>Trimming and words\<close>

text \<open>
  \<open>str::trim\<close> removes Unicode white space; these are the UTF-8 encodings of the code points
  with the \<open>White_Space\<close> property.  In well-formed UTF-8 an encoding is only found at a
  character boundary, so matching bytes is matching characters.
\<close>

definition ws_encodings :: "string list" where
  "ws_encodings =
     [[CHR 0x20], [CHR 0x09], [CHR 0x0A], [CHR 0x0B], [CHR 0x0C], [CHR 0x0D],
      [CHR 0xC2, CHR 0x85], [CHR 0xC2, CHR 0xA0], [CHR 0xE1, CHR 0x9A, CHR 0x80]]
     @ map (\<lambda>k. [CHR 0xE2, CHR 0x80, char_of k])
         [0x80, 0x81, 0x82, 0x83, 0x84, 0x85, 0x86, 0x87, 0x88, 0x89, 0x8A :: nat]
     @ [[CHR 0xE2, CHR 0x80, CHR 0xA8], [CHR 0xE2, CHR 0x80, CHR 0xA9],
        [CHR 0xE2, CHR 0x80, CHR 0xAF], [CHR 0xE2, CHR 0x81, CHR 0x9F],
        [CHR 0xE3, CHR 0x80, CHR 0x80]]"

definition strip_first :: "string list \<Rightarrow> string \<Rightarrow> string option" where
  "strip_first ws s = map_option (\<lambda>w. drop (length w) s) (find (\<lambda>w. w \<noteq> [] \<and> prefix w s) ws)"

lemma strip_first_length: "strip_first ws s = Some t \<Longrightarrow> length t < length s"
  by (auto simp: strip_first_def find_Some_iff prefix_def)

function trim_by :: "string list \<Rightarrow> string \<Rightarrow> string" where
  "trim_by ws s = (case strip_first ws s of None \<Rightarrow> s | Some t \<Rightarrow> trim_by ws t)"
  by pat_completeness auto
termination
  by (relation "measure (\<lambda>(ws, s). length s)") (auto dest: strip_first_length)

declare trim_by.simps [simp del]

definition trim_start :: "string \<Rightarrow> string" where
  "trim_start s = trim_by ws_encodings s"

definition trim_end :: "string \<Rightarrow> string" where
  "trim_end s = rev (trim_by (map rev ws_encodings) (rev s))"

definition trim :: "string \<Rightarrow> string" where
  "trim s = trim_end (trim_start s)"

text \<open>\<open>str::split_whitespace\<close>: the maximal runs without white space.\<close>

function split_ws :: "string \<Rightarrow> string \<Rightarrow> string list" where
  "split_ws cur s =
     (case strip_first ws_encodings s of
        Some t \<Rightarrow> (if cur = [] then [] else [rev cur]) @ split_ws [] t
      | None \<Rightarrow> (case s of
          [] \<Rightarrow> (if cur = [] then [] else [rev cur])
        | x # xs \<Rightarrow> split_ws (x # cur) xs))"
  by pat_completeness auto
termination
  by (relation "measure (\<lambda>(cur, s). length s)") (auto dest: strip_first_length)

declare split_ws.simps [simp del]

definition split_whitespace :: "string \<Rightarrow> string list" where
  "split_whitespace s = split_ws [] s"

text \<open>\<open>slice::trim_ascii\<close> and \<open>trim_ascii_end\<close>, and \<open>trim_start_matches\<close>,
  \<open>trim_end_matches\<close> with a one-byte pattern.\<close>

definition trim_ascii_end :: "bytes \<Rightarrow> bytes" where
  "trim_ascii_end s = rev (dropWhile is_ascii_whitespace (rev s))"

definition trim_ascii :: "bytes \<Rightarrow> bytes" where
  "trim_ascii s = trim_ascii_end (dropWhile is_ascii_whitespace s)"

definition trim_start_matches :: "char \<Rightarrow> string \<Rightarrow> string" where
  "trim_start_matches c s = dropWhile (\<lambda>x. x = c) s"

definition trim_end_matches :: "char \<Rightarrow> string \<Rightarrow> string" where
  "trim_end_matches c s = rev (dropWhile (\<lambda>x. x = c) (rev s))"

definition trim_matches :: "char \<Rightarrow> string \<Rightarrow> string" where
  "trim_matches c s = trim_end_matches c (trim_start_matches c s)"

lemma trim_by_suffix: "suffix (trim_by ws s) s"
proof (induction ws s rule: trim_by.induct)
  case (1 ws s)
  show ?case
  proof (cases "strip_first ws s")
    case (Some t)
    then have "suffix t s" by (auto simp: strip_first_def suffix_drop)
    with 1 [OF Some] Some show ?thesis
      by (simp add: trim_by.simps [of ws s] suffix_order.trans)
  qed (simp add: trim_by.simps [of ws s])
qed

lemma set_trim: "set (trim s) \<subseteq> set s"
proof -
  have "set (trim_by ws t) \<subseteq> set t" for ws t
    using trim_by_suffix [of ws t] by (rule set_mono_suffix)
  then show ?thesis
    unfolding trim_def trim_end_def trim_start_def
    by (metis set_rev subset_trans)
qed

lemma length_trim: "length (trim s) \<le> length s"
  unfolding trim_def trim_end_def trim_start_def
  by (metis length_rev le_trans suffix_length_le trim_by_suffix)

lemma strip_first_None:
  "\<forall>w \<in> set ws. w \<noteq> [] \<longrightarrow> hd w \<noteq> x \<Longrightarrow> strip_first ws (x # s) = None"
  by (auto simp: strip_first_def find_None_iff prefix_def Cons_eq_append_conv)

text \<open>A text whose first and last bytes are printable ASCII is not changed by trimming.\<close>

definition graphic :: "char \<Rightarrow> bool" where
  "graphic c \<longleftrightarrow> 33 \<le> code c \<and> code c \<le> 126"

lemma graphic_no_ws_head: "graphic x \<Longrightarrow> strip_first ws_encodings (x # s) = None"
  by (rule strip_first_None) (auto simp: ws_encodings_def graphic_def)

lemma graphic_no_ws_last: "graphic x \<Longrightarrow> strip_first (map rev ws_encodings) (x # s) = None"
  by (rule strip_first_None) (auto simp: ws_encodings_def graphic_def)

lemma trim_graphic:
  assumes "s \<noteq> []" "graphic (hd s)" "graphic (last s)"
  shows "trim s = s"
proof -
  from assms obtain x xs where x: "s = x # xs" "graphic x" by (cases s) auto
  from assms obtain y ys where y: "s = ys @ [y]" "graphic y" by (cases s rule: rev_cases) auto
  have "trim_start s = s"
    using x by (simp add: trim_start_def trim_by.simps graphic_no_ws_head)
  moreover have "trim_end s = s"
    using y by (simp add: trim_end_def trim_by.simps graphic_no_ws_last)
  ultimately show ?thesis by (simp add: trim_def)
qed

lemma trim_Nil [simp]: "trim [] = []"
  using length_trim [of "[]"] by simp

section \<open>Numbers\<close>

definition digit_value :: "nat \<Rightarrow> char \<Rightarrow> nat option" where
  "digit_value radix c =
     (let n = code c;
          v = (if 48 \<le> n \<and> n \<le> 57 then Some (n - 48)
               else if 97 \<le> n \<and> n \<le> 122 then Some (n - 87)
               else if 65 \<le> n \<and> n \<le> 90 then Some (n - 55) else None)
      in (case v of None \<Rightarrow> None | Some d \<Rightarrow> if d < radix then Some d else None))"

fun digits_value :: "nat \<Rightarrow> nat \<Rightarrow> string \<Rightarrow> nat option" where
  "digits_value radix acc [] = Some acc"
| "digits_value radix acc (c # s) =
     (case digit_value radix c of
        None \<Rightarrow> None
      | Some d \<Rightarrow> digits_value radix (acc * radix + d) s)"

text \<open>
  \<open>from_str_radix\<close> and \<open>parse\<close> of the unsigned types whose values are below \<open>bound\<close>: one
  optional leading plus sign, at least one digit, no overflow.
\<close>

definition parse_uint :: "nat \<Rightarrow> nat \<Rightarrow> string \<Rightarrow> nat option" where
  "parse_uint radix bound s =
     (let t = (if length s > 1 \<and> hd s = CHR ''+'' then tl s else s)
      in if t = [] then None
         else (case digits_value radix 0 t of
                 None \<Rightarrow> None
               | Some n \<Rightarrow> if n < bound then Some n else None))"

definition parse_u16 :: "string \<Rightarrow> nat option" where "parse_u16 = parse_uint 10 (2 ^ 16)"
definition parse_u64 :: "string \<Rightarrow> nat option" where "parse_u64 = parse_uint 10 (2 ^ 64)"
definition parse_hex_u64 :: "string \<Rightarrow> nat option" where "parse_hex_u64 = parse_uint 16 (2 ^ 64)"

text \<open>\<open>format!("{n}")\<close> of an unsigned number.\<close>

fun dec_of_nat :: "nat \<Rightarrow> string" where
  "dec_of_nat n =
     (if n < 10 then [char_of (48 + n)] else dec_of_nat (n div 10) @ [char_of (48 + n mod 10)])"

declare dec_of_nat.simps [simp del]

lemma digit_value_dec: "d < 10 \<Longrightarrow> digit_value 10 (char_of (48 + d)) = Some d"
  by (simp add: digit_value_def)

lemma digits_value_append:
  "digits_value r acc (s @ t) =
     (case digits_value r acc s of None \<Rightarrow> None | Some n \<Rightarrow> digits_value r n t)"
  by (induction r acc s rule: digits_value.induct) (auto split: option.splits)

lemma digits_value_dec_of_nat: "digits_value 10 0 (dec_of_nat n) = Some n"
proof (induction n rule: dec_of_nat.induct)
  case (1 n)
  show ?case
  proof (cases "n < 10")
    case True
    then show ?thesis by (simp add: dec_of_nat.simps [of n] digit_value_dec)
  next
    case False
    with 1 have "digits_value 10 0 (dec_of_nat (n div 10)) = Some (n div 10)" by simp
    with False show ?thesis
      by (simp add: dec_of_nat.simps [of n] digits_value_append digit_value_dec)
  qed
qed

lemma dec_of_nat_digits: "c \<in> set (dec_of_nat n) \<Longrightarrow> is_ascii_digit c"
proof (induction n rule: dec_of_nat.induct)
  case (1 n)
  show ?case
  proof (cases "n < 10")
    case True
    with 1(2) show ?thesis by (simp add: dec_of_nat.simps [of n] is_ascii_digit_def)
  next
    case False
    with 1 show ?thesis
      by (auto simp: dec_of_nat.simps [of n] is_ascii_digit_def)
  qed
qed

lemma dec_of_nat_not_Nil [simp]: "dec_of_nat n \<noteq> []"
  by (subst dec_of_nat.simps) simp

lemma parse_uint_dec_of_nat: "n < bound \<Longrightarrow> parse_uint 10 bound (dec_of_nat n) = Some n"
proof -
  assume "n < bound"
  have "is_ascii_digit (hd (dec_of_nat n))"
    by (rule dec_of_nat_digits [of _ n]) simp
  then have "hd (dec_of_nat n) \<noteq> CHR ''+''" by (auto simp: is_ascii_digit_def)
  with \<open>n < bound\<close> show ?thesis by (simp add: parse_uint_def digits_value_dec_of_nat)
qed

lemma parse_uint_bound: "parse_uint r b s = Some n \<Longrightarrow> n < b"
  by (auto simp: parse_uint_def Let_def split: if_splits option.splits)

lemma trim_dec_of_nat [simp]: "trim (dec_of_nat n) = dec_of_nat n"
proof (rule trim_graphic)
  show "graphic (hd (dec_of_nat n))"
    using dec_of_nat_digits [of "hd (dec_of_nat n)" n] by (simp add: is_ascii_digit_def graphic_def)
  show "graphic (last (dec_of_nat n))"
    using dec_of_nat_digits [of "last (dec_of_nat n)" n] by (simp add: is_ascii_digit_def graphic_def)
qed simp

section \<open>UTF-8\<close>

text \<open>
  One step of \<open>core::str::Utf8Chunks\<close>: the length of the sequence at the head of a non-empty
  byte string and whether it is a valid character; an invalid sequence is the longest prefix
  that could have started a character.
\<close>

definition cont_byte :: "nat \<Rightarrow> nat \<Rightarrow> bytes \<Rightarrow> nat \<Rightarrow> bool" where
  "cont_byte lo hi s i \<longleftrightarrow> i < length s \<and> lo \<le> code (s ! i) \<and> code (s ! i) \<le> hi"

definition utf8_head :: "bytes \<Rightarrow> nat \<times> bool" where
  "utf8_head s =
     (let b = code (hd s);
          second = (if b = 0xE0 then cont_byte 0xA0 0xBF s 1
                    else if b = 0xED then cont_byte 0x80 0x9F s 1
                    else if b = 0xF0 then cont_byte 0x90 0xBF s 1
                    else if b = 0xF4 then cont_byte 0x80 0x8F s 1
                    else cont_byte 0x80 0xBF s 1)
      in if b < 0x80 then (1, True)
         else if 0xC2 \<le> b \<and> b \<le> 0xDF then (if second then (2, True) else (1, False))
         else if 0xE0 \<le> b \<and> b \<le> 0xEF then
           (if \<not> second then (1, False)
            else if \<not> cont_byte 0x80 0xBF s 2 then (2, False) else (3, True))
         else if 0xF0 \<le> b \<and> b \<le> 0xF4 then
           (if \<not> second then (1, False)
            else if \<not> cont_byte 0x80 0xBF s 2 then (2, False)
            else if \<not> cont_byte 0x80 0xBF s 3 then (3, False) else (4, True))
         else (1, False))"

lemma utf8_head_pos: "0 < fst (utf8_head s)"
  by (simp add: utf8_head_def Let_def)

function utf8_valid :: "bytes \<Rightarrow> bool" where
  "utf8_valid s =
     (if s = [] then True
      else if snd (utf8_head s) then utf8_valid (drop (fst (utf8_head s)) s) else False)"
  by pat_completeness auto
termination
  by (relation "measure length") (auto simp: utf8_head_pos)

text \<open>\<open>String::from_utf8_lossy\<close>: every invalid sequence becomes U+FFFD.\<close>

function from_utf8_lossy :: "bytes \<Rightarrow> string" where
  "from_utf8_lossy s =
     (if s = [] then []
      else (if snd (utf8_head s) then take (fst (utf8_head s)) s
            else [CHR 0xEF, CHR 0xBF, CHR 0xBD])
           @ from_utf8_lossy (drop (fst (utf8_head s)) s))"
  by pat_completeness auto
termination
  by (relation "measure length") (auto simp: utf8_head_pos)

declare utf8_valid.simps [simp del] from_utf8_lossy.simps [simp del]

lemma from_utf8_lossy_valid: "utf8_valid s \<Longrightarrow> from_utf8_lossy s = s"
proof (induction s rule: from_utf8_lossy.induct)
  case (1 s)
  show ?case
  proof (cases "s = []")
    case False
    with "1.prems" have "snd (utf8_head s)" "utf8_valid (drop (fst (utf8_head s)) s)"
      by (auto simp: utf8_valid.simps [of s] split: if_splits)
    with "1.IH" [OF False] False show ?thesis
      by (simp add: from_utf8_lossy.simps [of s])
  qed (simp add: from_utf8_lossy.simps [of "[]"])
qed

lemma utf8_valid_ascii: "\<forall>c \<in> set s. code c < 128 \<Longrightarrow> utf8_valid s"
proof (induction s)
  case (Cons x xs)
  then have "utf8_head (x # xs) = (1, True)" by (simp add: utf8_head_def)
  with Cons show ?case by (simp add: utf8_valid.simps [of "x # xs"])
qed (simp add: utf8_valid.simps [of "[]"])

lemma from_utf8_lossy_ascii: "\<forall>c \<in> set s. code c < 128 \<Longrightarrow> from_utf8_lossy s = s"
  by (simp add: from_utf8_lossy_valid utf8_valid_ascii)

section \<open>Index scans and slices\<close>

text \<open>The loops \<open>while i < b.len() && P(b[i]) { i += 1 }\<close>, and the slice \<open>&s[i..j]\<close>.\<close>

function scan_while :: "(char \<Rightarrow> bool) \<Rightarrow> bytes \<Rightarrow> nat \<Rightarrow> nat" where
  "scan_while P b i = (if i < length b \<and> P (b ! i) then scan_while P b (Suc i) else i)"
  by pat_completeness auto
termination
  by (relation "measure (\<lambda>(P, b, i). length b - i)") auto

declare scan_while.simps [simp del]

definition slice :: "bytes \<Rightarrow> nat \<Rightarrow> nat \<Rightarrow> bytes" where
  "slice b i j = take (j - i) (drop i b)"

lemma scan_while_takeWhile: "scan_while P b i = i + length (takeWhile P (drop i b))"
proof (induction P b i rule: scan_while.induct)
  case (1 P b i)
  show ?case
  proof (cases "i < length b")
    case True
    then have "drop i b = b ! i # drop (Suc i) b" by (simp add: Cons_nth_drop_Suc)
    with 1 True show ?thesis by (simp add: scan_while.simps [of P b i])
  qed (simp add: scan_while.simps [of P b i])
qed

lemma scan_while_ge: "i \<le> scan_while P b i"
  by (simp add: scan_while_takeWhile)

lemma scan_while_le: "i \<le> length b \<Longrightarrow> scan_while P b i \<le> length b"
  using length_takeWhile_le [of P "drop i b"] by (simp add: scan_while_takeWhile)

lemma scan_while_step: "i < length b \<Longrightarrow> P (b ! i) \<Longrightarrow> i < scan_while P b i"
  using scan_while_ge [of "Suc i" P b] by (subst scan_while.simps) simp

lemma scan_while_drop: "scan_while P b (k + i) = k + scan_while P (drop k b) i"
  by (simp add: scan_while_takeWhile add.commute)

lemma slice_scan_while: "slice b i (scan_while P b i) = takeWhile P (drop i b)"
  by (simp add: slice_def scan_while_takeWhile) (metis takeWhile_eq_take)

lemma drop_scan_while: "drop (scan_while P b i) b = dropWhile P (drop i b)"
  by (metis add.commute drop_drop dropWhile_eq_drop scan_while_takeWhile)

lemma slice_drop: "slice b (k + i) (k + j) = slice (drop k b) i j"
  by (simp add: slice_def add.commute)

lemma slice_append_drop: "i \<le> j \<Longrightarrow> slice b i j @ drop j b = drop i b"
  by (metis append_take_drop_id drop_drop le_add_diff_inverse2 slice_def)

lemma slice_split: "i \<le> j \<Longrightarrow> j \<le> k \<Longrightarrow> slice b i j @ slice b j k = slice b i k"
proof -
  assume ij: "i \<le> j" and jk: "j \<le> k"
  have "take (k - i) (drop i b) = take (j - i) (drop i b) @ take (k - j) (drop (j - i) (drop i b))"
    using ij jk by (metis add_diff_cancel_right' diff_add diff_le_mono le_add_diff_inverse2
        take_add diff_add_assoc2 add.commute)
  with ij show ?thesis by (simp add: slice_def add.commute)
qed

lemma find_byte_append:
  "\<forall>c \<in> set a. \<not> P c \<Longrightarrow> t = [] \<or> P (hd t) \<Longrightarrow>
     (case find_byte P (a @ t) of Some i \<Rightarrow> i | None \<Rightarrow> length (a @ t)) = length a"
proof (induction a)
  case Nil
  then show ?case by (cases t) auto
next
  case (Cons x xs)
  then show ?case by (auto split: option.splits)
qed

lemma add_suc: "Suc (k + i) = k + Suc i" by simp

lemma scan_while_shift: "scan_while P (p @ s) (length p + i) = length p + scan_while P s i"
  using scan_while_drop [of P "p @ s" "length p" i] by simp

lemma slice_shift: "slice (p @ s) (length p + i) (length p + j) = slice s i j"
  using slice_drop [of "p @ s" "length p" i j] by simp

lemma scan_while_run:
  "\<forall>c \<in> set w. P c \<Longrightarrow> \<not> P d \<Longrightarrow> scan_while P (p @ w @ d # t) (length p) = length p + length w"
  using scan_while_shift [of P p "w @ d # t" 0]
  by (simp add: scan_while_takeWhile takeWhile_append2)

lemma slice_mid: "slice (p @ v @ t) (length p) (length p + length v) = v"
  by (simp add: slice_def)

lemma takeWhile_stop: "\<not> P (hd t) \<Longrightarrow> t \<noteq> [] \<Longrightarrow> takeWhile P (s @ t) = takeWhile P s"
  by (cases t) (auto simp: takeWhile_append takeWhile_eq_all_conv [THEN iffD2])

section \<open>More on searching\<close>

lemma find_sub_append: "find_sub p a = Some i \<Longrightarrow> find_sub p (a @ b) = Some i"
proof (induction a arbitrary: i)
  case Nil
  then show ?case by (cases b) (auto split: if_splits)
next
  case (Cons x xs)
  show ?case
  proof (cases "prefix p (x # xs)")
    case True
    then have "prefix p ((x # xs) @ b)" by (rule prefix_prefix)
    with Cons.prems True show ?thesis by simp
  next
    case False
    with Cons.prems obtain j where j: "find_sub p xs = Some j" "i = Suc j" by auto
    then have "length p \<le> length (x # xs)" using find_sub_Some by fastforce
    with False have "\<not> prefix p ((x # xs) @ b)"
      by (metis prefix_length_prefix prefixI)
    with False j Cons.IH show ?thesis by simp
  qed
qed

lemma append_eq_split:
  "length b \<le> length a \<Longrightarrow> a @ t = b @ u \<Longrightarrow> take (length b) a = b \<and> drop (length b) a @ t = u"
  by (metis append_eq_append_conv_if append_take_drop_id append_assoc same_append_eq le_antisym take_all_iff)


lemma hd_split_on_prefix: "prefix (hd (split_on c s)) s"
  by (induction s) (auto split: list.splits)

lemma hd_split_crlf_prefix: "prefix (hd (split_crlf s)) s"
proof (induction s rule: split_crlf.induct)
  case (3 x y xs)
  then show ?case by (cases "split_crlf (y # xs)") auto
qed auto

lemma split_ws_sublist: "p \<in> set (split_ws cur s) \<Longrightarrow> sublist p (rev cur @ s)"
proof (induction cur s rule: split_ws.induct)
  case (1 cur s)
  show ?case
  proof (cases "strip_first ws_encodings s")
    case (Some t)
    then obtain w where w: "s = w @ t" by (auto simp: strip_first_def find_Some_iff prefix_def)
    from "1.prems" Some consider "p = rev cur" | "p \<in> set (split_ws [] t)"
      by (auto simp: split_ws.simps [of cur s] split: if_splits)
    then show ?thesis
    proof cases
      case 2
      with "1.IH"(2) [OF Some] have "sublist p t" by simp
      then show ?thesis unfolding w by (metis append.assoc sublist_appendI sublist_order.order_trans append_Nil2)
    qed auto
  next
    case None
    show ?thesis
    proof (cases s)
      case Nil
      with "1.prems" None show ?thesis by (auto simp: split_ws.simps [of cur "[]"] split: if_splits)
    next
      case (Cons x xs)
      with "1.prems" "1.IH"(1) [OF None Cons] None show ?thesis
        by (simp add: split_ws.simps [of cur "x # xs"])
    qed
  qed
qed

lemma split_crlf_append:
  "\<not> sublist CRLF l \<Longrightarrow> split_crlf (l @ CRLF @ t) = l # split_crlf t"
proof (induction l rule: split_crlf.induct)
  case (2 x)
  then show ?case by (simp add: CRLF_def)
next
  case (3 x y xs)
  then show ?case by (auto simp: CRLF_def sublist_Cons_right)
qed (simp add: CRLF_def)

lemma find_sub_blank_line:
  "\<not> sublist CRLF l \<Longrightarrow> find_sub (CRLF @ CRLF) (l @ CRLF @ t)
     = (if prefix CRLF t then Some (length l)
        else map_option (\<lambda>i. length l + 2 + i) (find_sub (CRLF @ CRLF) t))"
proof (induction l)
  case Nil
  have "(\<lambda>x. Suc (Suc x)) = (+) (Suc (Suc 0))" by (rule ext) simp
  then show ?case by (auto simp: CRLF_def option.map_comp comp_def)
next
  case (Cons x l)
  have "\<not> prefix (CRLF @ CRLF) (x # l @ CRLF @ t)"
    using Cons.prems by (cases l) (auto simp: CRLF_def sublist_Cons_right)
  with Cons show ?case by (auto simp: sublist_Cons_right option.map_comp comp_def)
qed

lemma split_crlf_no_crlf: "l \<in> set (split_crlf s) \<Longrightarrow> \<not> sublist CRLF l"
proof (induction s arbitrary: l rule: split_crlf.induct)
  case (3 x y xs)
  show ?case
  proof (cases "x = CHR 0x0D \<and> y = CHR 0x0A")
    case True
    with 3 show ?thesis by (auto simp: CRLF_def)
  next
    case False
    obtain p ps where ps: "split_crlf (y # xs) = p # ps" by (cases "split_crlf (y # xs)") auto
    have pre: "prefix p (y # xs)" using hd_split_crlf_prefix [of "y # xs"] ps by simp
    have no: "\<not> sublist CRLF q" if "q \<in> set (p # ps)" for q
      using "3.IH"(2) [OF False] ps that by simp
    have "\<not> sublist CRLF (x # p)"
      using False no [of p] pre by (cases p) (auto simp: CRLF_def sublist_Cons_right)
    with "3.prems" False ps no show ?thesis by auto
  qed
qed (auto simp: CRLF_def sublist_Cons_right)

lemma split_crlf_set: "l \<in> set (split_crlf s) \<Longrightarrow> set l \<subseteq> set s"
proof (induction s arbitrary: l rule: split_crlf.induct)
  case (3 x y xs)
  then show ?case by (fastforce split: if_splits list.splits)
qed auto

lemma trim_by_space: "trim_by ws_encodings (CHR '' '' # s) = trim_by ws_encodings s"
  by (subst trim_by.simps) (simp add: strip_first_def ws_encodings_def)

lemma ascii_lower_colon: "ascii_lower c = CHR '':'' \<longleftrightarrow> c = CHR '':''"
proof
  assume "ascii_lower c = CHR '':''"
  then have "code (ascii_lower c) = code (CHR '':'')" by simp
  then have "code c = code (CHR '':'')" by (simp add: code_ascii_lower split: if_splits)
  then show "c = CHR '':''" by (simp only: of_char_eq_iff)
qed (simp add: ascii_lower_def)

lemma graphic_ascii_lower: "graphic (ascii_lower c) \<longleftrightarrow> graphic c"
  by (auto simp: graphic_def code_ascii_lower)

lemma dec_of_nat_no_cr: "CHR 0x0D \<notin> set (dec_of_nat n)"
  using dec_of_nat_digits [of "CHR 0x0D" n] by (auto simp: is_ascii_digit_def)

lemma trim_matches_id: "s = [] \<or> hd s \<noteq> c \<and> last s \<noteq> c \<Longrightarrow> trim_matches c s = s"
proof -
  assume s: "s = [] \<or> hd s \<noteq> c \<and> last s \<noteq> c"
  have "trim_start_matches c s = s" using s by (cases s) (auto simp: trim_start_matches_def)
  moreover have "trim_end_matches c s = s" using s by (cases s rule: rev_cases) (auto simp: trim_end_matches_def)
  ultimately show ?thesis by (simp add: trim_matches_def)
qed

lemma sublist_trim_matches: "sublist (trim_matches c s) s"
proof -
  have "suffix (trim_start_matches c s) s" by (simp add: trim_start_matches_def suffix_dropWhile)
  moreover have "prefix (trim_end_matches c t) t" for t
    by (simp add: trim_end_matches_def prefix_def) (metis rev_append rev_rev_ident takeWhile_dropWhile_id)
  ultimately show ?thesis
    unfolding trim_matches_def by (meson prefix_imp_sublist suffix_imp_sublist sublist_order.order_trans)
qed

text \<open>Lines, each with its terminator.\<close>

definition strip_cr :: "bytes \<Rightarrow> bytes" where
  "strip_cr l = (if l \<noteq> [] \<and> last l = CR then butlast l else l)"

definition str_lines :: "string \<Rightarrow> string list" where
  "str_lines s = (let ls = split_on LF s in map strip_cr (if last ls = [] then butlast ls else ls))"

definition with_crlf :: "string list \<Rightarrow> string" where
  "with_crlf ls = concat (map (\<lambda>l. l @ CRLF) ls)"

lemma split_with_crlf:
  "\<forall>l \<in> set ls. \<not> sublist CRLF l \<Longrightarrow> split_crlf (with_crlf ls @ CRLF) = ls @ [[], []]"
  by (induction ls) (auto simp: with_crlf_def split_crlf_append, simp add: CRLF_def)

section \<open>Words of a line\<close>

text \<open>A blank or a line feed parts the words on its two sides.\<close>

lemma strip_first_Nil [simp]: "strip_first ws [] = None"
  by (auto simp: strip_first_def find_None_iff)

lemma ws_encodings_shape: "\<forall>w \<in> set ws_encodings. length w = 1 \<or> (\<forall>c \<in> set w. 128 \<le> code c)"
  by (simp add: ws_encodings_def)

lemma ws_encoding_ascii: "w \<in> set ws_encodings \<Longrightarrow> c \<in> set w \<Longrightarrow> c = CHR '' '' \<or> c = CHR 0x0A \<Longrightarrow> w = [c]"
  using ws_encodings_shape by (fastforce simp: length_Suc_conv)

lemma ws_prefix_parted:
  assumes "w \<in> set ws_encodings" "c = CHR '' '' \<or> c = CHR 0x0A" "s \<noteq> []"
  shows "prefix w (s @ c # t) \<longleftrightarrow> prefix w s"
proof
  assume "prefix w (s @ c # t)"
  then consider "prefix w s" | u where "w = s @ u" "prefix u (c # t)" by (auto simp: prefix_append)
  then show "prefix w s"
  proof cases
    case 2
    show ?thesis
    proof (cases u)
      case (Cons d v)
      with 2 have "w = s @ c # v" by (simp add: prefix_Cons)
      with ws_encoding_ascii [OF assms(1) _ assms(2)] assms(3) show ?thesis by (cases s) auto
    qed (use 2 in simp)
  qed
qed (rule prefix_prefix)

lemma strip_first_parted:
  assumes "c = CHR '' '' \<or> c = CHR 0x0A" "s \<noteq> []"
  shows "strip_first ws_encodings (s @ c # t) = map_option (\<lambda>u. u @ c # t) (strip_first ws_encodings s)"
proof -
  have f: "find (\<lambda>w. w \<noteq> [] \<and> prefix w (s @ c # t)) ws_encodings = find (\<lambda>w. w \<noteq> [] \<and> prefix w s) ws_encodings"
    by (rule find_cong [OF refl]) (simp add: ws_prefix_parted [OF _ assms])
  show ?thesis
  proof (cases "find (\<lambda>w. w \<noteq> [] \<and> prefix w s) ws_encodings")
    case (Some w)
    then have "prefix w s" by (auto simp: find_Some_iff)
    with Some show ?thesis unfolding strip_first_def f by (auto simp: prefix_def)
  qed (simp add: strip_first_def f)
qed

lemma strip_first_blank: "c = CHR '' '' \<or> c = CHR 0x0A \<Longrightarrow> strip_first ws_encodings (c # t) = Some t"
  by (elim disjE) (simp_all add: strip_first_def ws_encodings_def)

lemma split_ws_parted:
  "c = CHR '' '' \<or> c = CHR 0x0A \<Longrightarrow> split_ws cur (s @ c # t) = split_ws cur s @ split_ws [] t"
proof (induction cur s rule: split_ws.induct)
  case (1 cur s)
  note c = \<open>c = CHR '' '' \<or> c = CHR 0x0A\<close>
  show ?case
  proof (cases s)
    case Nil
    then show ?thesis
      using strip_first_blank [OF c, of t]
      by (simp add: split_ws.simps [of cur "c # t"] split_ws.simps [of cur "[]"])
  next
    case (Cons x xs)
    show ?thesis
    proof (cases "strip_first ws_encodings s")
      case None
      then show ?thesis using 1(1) [OF None Cons c] strip_first_parted [OF c, of s t] Cons
        by (simp add: split_ws.simps [of cur "x # xs @ c # t"] split_ws.simps [of cur "x # xs"])
    next
      case (Some u)
      then show ?thesis using 1(2) [OF Some c] strip_first_parted [OF c, of s t] Cons
        by (simp add: split_ws.simps [of cur "x # xs @ c # t"] split_ws.simps [of cur "x # xs"])
    qed
  qed
qed

lemma split_ws_word: "\<forall>c \<in> set w. graphic c \<Longrightarrow> split_ws cur w = (if cur = [] \<and> w = [] then [] else [rev cur @ w])"
proof (induction w arbitrary: cur)
  case Nil
  then show ?case by (simp add: split_ws.simps [of cur "[]"])
next
  case (Cons x w)
  then show ?case by (simp add: split_ws.simps [of cur "x # w"] graphic_no_ws_head)
qed

lemma find_crlf_line: "\<not> sublist CRLF l \<Longrightarrow> find_sub CRLF (l @ CRLF @ t) = Some (length l)"
proof (induction l)
  case (Cons x l)
  have "\<not> prefix CRLF (x # l @ CRLF @ t)"
    using Cons.prems by (cases l) (auto simp: CRLF_def sublist_Cons_right)
  with Cons show ?case by (auto simp: sublist_Cons_right)
qed (simp add: CRLF_def)

end
