(* ===== verification/Mask.thy ===== *)
theory Mask
  imports Solon_Prelude
begin

text \<open>
  The masking of sensitive values before they enter the trace history
  (\<open>crates/solon-core/src/mask.rs\<close>): header values, URLs, paths and query strings, forms, JSON
  documents, and free text (e-mail addresses and telephone numbers).  The scanners work on byte
  indices as the source does.
\<close>

section \<open>Constants\<close>

definition REDACTED :: string where
  "REDACTED = [CHR 0xE2, CHR 0x80, CHR 0xA2, CHR 0xE2, CHR 0x80, CHR 0xA2,
               CHR 0xE2, CHR 0x80, CHR 0xA2]"

definition SECRET_HEADERS :: "string list" where
  "SECRET_HEADERS =
     [''authorization'', ''proxy-authorization'', ''cookie'', ''set-cookie'', ''authentication'',
      ''www-authenticate'', ''proxy-authenticate'', ''x-api-key'', ''api-key'', ''x-auth-token'',
      ''x-access-token'', ''x-csrf-token'', ''x-xsrf-token'', ''x-session-token'']"

definition SECRET_PARAMS :: "string list" where
  "SECRET_PARAMS =
     [''pass'', ''pwd'', ''mdp'', ''token'', ''secret'', ''key'', ''auth'', ''session'', ''sig'',
      ''credential'', ''otp'', ''code'']"

definition SECRET_HEADER_FRAGMENTS :: "string list" where
  "SECRET_HEADER_FRAGMENTS =
     [''token'', ''secret'', ''key'', ''auth'', ''session'', ''cookie'', ''credential'', ''pass'',
      ''signature'']"

section \<open>Free text: telephone numbers and e-mail addresses\<close>

definition is_local_byte :: "char \<Rightarrow> bool" where
  "is_local_byte c \<longleftrightarrow> is_ascii_alphanumeric c \<or> c \<in> set ''._%+-''"

definition is_domain_byte :: "char \<Rightarrow> bool" where
  "is_domain_byte c \<longleftrightarrow> is_ascii_alphanumeric c \<or> c \<in> set ''.-''"

definition looks_like_domain :: "string \<Rightarrow> bool" where
  "looks_like_domain s =
     (case rsplit_once (CHR ''.'') s of
        Some (stem, tld) \<Rightarrow>
          stem \<noteq> [] \<and> length tld \<ge> 2 \<and> list_all is_ascii_alphabetic tld
      | None \<Rightarrow> False)"

text \<open>\<open>while start > copied && is_local_byte(b[start - 1]) { start -= 1 }\<close>\<close>

fun back_local :: "bytes \<Rightarrow> nat \<Rightarrow> nat \<Rightarrow> nat" where
  "back_local b copied 0 = 0"
| "back_local b copied (Suc k) =
     (if copied < Suc k \<and> is_local_byte (b ! k) then back_local b copied k else Suc k)"

fun emails_loop :: "bytes \<Rightarrow> nat list \<Rightarrow> nat \<Rightarrow> string \<Rightarrow> string \<times> nat" where
  "emails_loop b [] copied out = (out, copied)"
| "emails_loop b (at # ats) copied out =
     (if b ! at \<noteq> CHR ''@'' \<or> at < copied then emails_loop b ats copied out
      else let start = back_local b copied at;
               stop = scan_while is_domain_byte b (Suc at)
           in if start = at \<or> \<not> looks_like_domain (slice b (Suc at) stop)
              then emails_loop b ats copied out
              else emails_loop b ats stop (out @ slice b copied start @ REDACTED))"

definition mask_emails :: "string \<Rightarrow> string" where
  "mask_emails s =
     (let (out, copied) = emails_loop s [0..<length s] 0 [] in out @ drop copied s)"

function phone_scan :: "bytes \<Rightarrow> nat \<Rightarrow> nat \<Rightarrow> nat \<times> nat" where
  "phone_scan b stop digits =
     (if stop < length b then
        (if is_ascii_digit (b ! stop) then phone_scan b (Suc stop) (Suc digits)
         else if b ! stop \<in> set '' .-'' \<and> Suc stop < length b \<and> is_ascii_digit (b ! Suc stop)
         then phone_scan b (Suc stop) digits
         else (stop, digits))
      else (stop, digits))"
  by pat_completeness auto
termination
  by (relation "measure (\<lambda>(b, stop, d). length b - stop)") auto

declare phone_scan.simps [simp del]

definition phone_end :: "bytes \<Rightarrow> nat \<Rightarrow> nat option" where
  "phone_end b i =
     (if i > 0 \<and> is_ascii_digit (b ! (i - 1)) then None
      else let international = (b ! i = CHR ''+'') in
        if \<not> international \<and> b ! i \<noteq> CHR ''0'' then None
        else let (stop, digits) = phone_scan b (Suc i) (if international then 0 else 1) in
          if stop < length b \<and> is_ascii_digit (b ! stop) then None
          else if (if international then 8 \<le> digits \<and> digits \<le> 15 else digits = 10)
          then Some stop else None)"

lemma phone_scan_ge: "fst (phone_scan b stop d) \<ge> stop"
proof (induction b stop d rule: phone_scan.induct)
  case (1 b stop digits)
  then show ?case
    by (subst phone_scan.simps) (auto dest: Suc_leD)
qed

lemma phone_end_gt: "phone_end b i = Some j \<Longrightarrow> i < j"
  using phone_scan_ge [of "Suc i" b "if b ! i = CHR ''+'' then 0 else 1"]
  by (auto simp: phone_end_def Let_def split: if_splits prod.splits)

text \<open>A byte \<open>10xxxxxx\<close> continues a multi-byte character: \<open>(b[i] & 0xC0) == 0x80\<close>.\<close>

definition is_continuation :: "char \<Rightarrow> bool" where
  "is_continuation c \<longleftrightarrow> 0x80 \<le> code c \<and> code c < 0xC0"

function phones_loop :: "bytes \<Rightarrow> nat \<Rightarrow> string \<Rightarrow> string" where
  "phones_loop b i out =
     (if i < length b then
        (case phone_end b i of
           Some stop \<Rightarrow> phones_loop b stop (out @ REDACTED)
         | None \<Rightarrow>
             let nxt = scan_while is_continuation b (Suc i)
             in phones_loop b nxt (out @ slice b i nxt))
      else out)"
  by pat_completeness auto
termination
proof (relation "measure (\<lambda>(b, i, out). length b - i)", goal_cases)
  case (2 b i out nxt)
  then show ?case using scan_while_ge [of "Suc i" is_continuation b] by auto
qed (auto dest: phone_end_gt)

declare phones_loop.simps [simp del]

definition mask_phones :: "string \<Rightarrow> string" where
  "mask_phones s = phones_loop s 0 []"

definition mask_text :: "string \<Rightarrow> string" where
  "mask_text s = (let phones = mask_phones s in mask_emails phones)"

section \<open>Headers, URLs and parameters\<close>

definition is_secret_header :: "string \<Rightarrow> bool" where
  "is_secret_header name =
     (let lower = to_ascii_lowercase (trim name)
      in lower \<in> set SECRET_HEADERS \<or> list_ex (\<lambda>f. contains_sub f lower) SECRET_HEADER_FRAGMENTS)"

definition is_secret_param :: "string \<Rightarrow> bool" where
  "is_secret_param name =
     (let lower = to_ascii_lowercase name in list_ex (\<lambda>f. contains_sub f lower) SECRET_PARAMS)"

text \<open>One segment of a path with matrix parameters (\<open>/app;jsessionid=ABC/list\<close>).\<close>

definition matrix_part :: "string \<Rightarrow> string" where
  "matrix_part part =
     (case split_once (CHR ''='') part of
        Some (name, value) \<Rightarrow>
          if is_secret_param name
          then name @ ''='' @ REDACTED
               @ (case find_byte (\<lambda>c. c = CHR ''/'') value of
                    Some slash \<Rightarrow> mask_text (drop slash value)
                  | None \<Rightarrow> [])
          else mask_text part
      | None \<Rightarrow> mask_text part)"

definition matrix :: "string \<Rightarrow> string" where
  "matrix base =
     (if CHR '';'' \<notin> set base then mask_text base
      else join_with '';'' (map matrix_part (split_on (CHR '';'') base)))"

text \<open>One \<open>name=value\<close> pair of a query string or of a form.\<close>

definition mask_pair :: "string \<Rightarrow> string" where
  "mask_pair pair =
     (case split_once (CHR ''='') pair of
        Some (name, value) \<Rightarrow>
          name @ ''='' @ (if is_secret_param name then REDACTED else mask_text value)
      | None \<Rightarrow> pair)"

definition mask_form :: "string \<Rightarrow> string" where
  "mask_form s = join_with ''&'' (map mask_pair (split_on (CHR ''&'') s))"

definition mask_path :: "string \<Rightarrow> string" where
  "mask_path p =
     (case split_once (CHR ''?'') p of
        None \<Rightarrow> matrix p
      | Some (base, query) \<Rightarrow>
          matrix base @ ''?'' @ join_with ''&'' (map mask_pair (split_on (CHR ''&'') query)))"

definition mask_url :: "string \<Rightarrow> string" where
  "mask_url value =
     (case find_sub ''://'' value of
        None \<Rightarrow> mask_path value
      | Some scheme_end \<Rightarrow>
          let scheme = take (scheme_end + 3) value;
              rest = drop (scheme_end + 3) value;
              authority_end =
                (case find_byte (\<lambda>c. c \<in> set ''/?#'') rest of Some i \<Rightarrow> i | None \<Rightarrow> length rest);
              authority = take authority_end rest;
              tail = drop authority_end rest;
              shown = (case rsplit_once (CHR ''@'') authority of
                         Some (_, host) \<Rightarrow> REDACTED @ ''@'' @ host
                       | None \<Rightarrow> authority)
          in scheme @ shown @ mask_path tail)"

definition header_value :: "string \<Rightarrow> string \<Rightarrow> string" where
  "header_value name value =
     (if is_secret_header name then REDACTED
      else if contains_sub ''://'' value \<or> CHR ''?'' \<in> set value then mask_url value
      else mask_text value)"

section \<open>Bodies\<close>

definition mime_of :: "string \<Rightarrow> string" where
  "mime_of content_type =
     to_ascii_lowercase (trim (hd (split_on (CHR '';'') content_type)))"

definition is_text_content :: "string \<Rightarrow> bool" where
  "is_text_content content_type =
     (let mime = mime_of content_type
      in prefix ''text/'' mime \<or> suffix ''+json'' mime \<or> suffix ''+xml'' mime
         \<or> mime \<in> set [''application/json'', ''application/xml'',
              ''application/x-www-form-urlencoded'', ''application/javascript'',
              ''application/x-ndjson'', ''application/graphql''])"

text \<open>\<open>json_string_end(b, open)\<close> is \<open>json_string_close b (open + 1)\<close>.\<close>

function json_string_close :: "bytes \<Rightarrow> nat \<Rightarrow> nat option" where
  "json_string_close b i =
     (if i < length b then
        (if b ! i = CHR 0x5C then json_string_close b (i + 2)
         else if b ! i = CHR 0x22 then Some i
         else json_string_close b (Suc i))
      else None)"
  by pat_completeness auto
termination
  by (relation "measure (\<lambda>(b, i). length b - i)") auto

declare json_string_close.simps [simp del]

definition json_string_end :: "bytes \<Rightarrow> nat \<Rightarrow> nat option" where
  "json_string_end b opening = json_string_close b (Suc opening)"

lemma json_string_close_bounds:
  "json_string_close b i = Some j \<Longrightarrow> i \<le> j \<and> j < length b"
proof (induction b i rule: json_string_close.induct)
  case (1 b i)
  from "1.prems" show ?case
    by (subst (asm) json_string_close.simps) (auto split: if_splits dest: "1.IH")
qed

lemma json_string_end_bounds: "json_string_end b i = Some j \<Longrightarrow> i < j \<and> j < length b"
  by (auto simp: json_string_end_def dest: json_string_close_bounds)

definition json_bare :: "char \<Rightarrow> bool" where
  "json_bare c \<longleftrightarrow> c \<notin> set '',}]'' \<and> \<not> is_ascii_whitespace c"

text \<open>\<open>json_string_end(b, i).unwrap_or(b.len() - 1)\<close>\<close>

definition json_value_end :: "bytes \<Rightarrow> nat \<Rightarrow> nat" where
  "json_value_end b k = (case json_string_end b k of Some e \<Rightarrow> e | None \<Rightarrow> length b - 1)"

text \<open>
  The body of the loop of \<open>json_values\<close> at index \<open>i\<close>: what it appends to the output, and the
  next index (\<open>None\<close> for \<open>break\<close>).
\<close>

definition json_step :: "bytes \<Rightarrow> nat \<Rightarrow> string \<times> nat option" where
  "json_step b i =
     (if b ! i \<noteq> CHR 0x22 then
        let j = scan_while (\<lambda>c. c \<noteq> CHR 0x22) b i in (slice b i j, Some j)
      else
        (case json_string_end b i of
           None \<Rightarrow> (drop i b, None)
         | Some close \<Rightarrow>
             let key = slice b (Suc i) close;
                 out1 = slice b i (Suc close);
                 j = scan_while is_ascii_whitespace b (Suc close)
             in if j \<ge> length b \<or> b ! j \<noteq> CHR '':'' \<or> \<not> is_secret_param key
                then (out1, Some (Suc close))
                else
                  let k = scan_while is_ascii_whitespace b (Suc j);
                      out2 = out1 @ slice b (Suc close) (Suc j)
                             @ replicate (k - Suc j) (CHR '' '')
                  in if k \<ge> length b then (out2, None)
                     else if b ! k = CHR 0x22
                     then (out2 @ [CHR 0x22] @ REDACTED @ [CHR 0x22], Some (Suc (json_value_end b k)))
                     else if b ! k = CHR ''{'' \<or> b ! k = CHR ''['' then (out2, Some k)
                     else (out2 @ REDACTED, Some (scan_while json_bare b k))))"

lemma json_value_end_ge: "k < length b \<Longrightarrow> k \<le> json_value_end b k"
  by (auto simp: json_value_end_def split: option.splits dest!: json_string_end_bounds)

lemma json_step_progress:
  assumes "i < length b" and "json_step b i = (out, Some n)"
  shows "i < n"
proof (cases "b ! i = CHR 0x22")
  case False
  with assms scan_while_step [of i b "\<lambda>c. c \<noteq> CHR 0x22"] show ?thesis
    by (auto simp: json_step_def Let_def)
next
  case True
  show ?thesis
  proof (cases "json_string_end b i")
    case None
    with True assms show ?thesis by (simp add: json_step_def)
  next
    case (Some close)
    define j where "j = scan_while is_ascii_whitespace b (Suc close)"
    define k where "k = scan_while is_ascii_whitespace b (Suc j)"
    have "i < close" using Some json_string_end_bounds by blast
    moreover have "Suc close \<le> j" "Suc j \<le> k" by (simp_all add: j_def k_def scan_while_ge)
    ultimately have "i < Suc close" "i < k" by auto
    moreover have "i < Suc (json_value_end b k)" if "k < length b"
      using json_value_end_ge [OF that] \<open>i < k\<close> by simp
    moreover have "i < scan_while json_bare b k"
      using scan_while_ge [of k json_bare b] \<open>i < k\<close> by simp
    ultimately show ?thesis
      using assms(2) True Some
      by (auto simp: json_step_def Let_def j_def [symmetric] k_def [symmetric] split: if_splits)
  qed
qed

function json_loop :: "bytes \<Rightarrow> nat \<Rightarrow> string \<Rightarrow> string" where
  "json_loop b i out =
     (if i < length b then
        (case json_step b i of
           (o', Some n) \<Rightarrow> json_loop b n (out @ o')
         | (o', None) \<Rightarrow> out @ o')
      else out)"
  by pat_completeness auto
termination
  by (relation "measure (\<lambda>(b, i, out). length b - i)")
     (auto dest: json_step_progress [OF _ sym] intro!: diff_less_mono2)

declare json_loop.simps [simp del]

definition json_values :: "string \<Rightarrow> string" where
  "json_values s = json_loop s 0 []"

definition mask_body :: "string \<Rightarrow> bytes \<Rightarrow> string" where
  "mask_body content_type raw_bytes =
     (let raw = from_utf8_lossy raw_bytes; mime = mime_of content_type
      in if mime = ''application/x-www-form-urlencoded'' then mask_form raw
         else if mime = ''application/json'' \<or> suffix ''+json'' mime
                 \<or> mime = ''application/x-ndjson''
         then mask_text (json_values raw)
         else mask_text raw)"

section \<open>E-mail addresses: the index scan against a one-pass reference\<close>

text \<open>The reference keeps the bytes not yet written, last first, and the bytes to come.\<close>

function emails_ref :: "string \<Rightarrow> string \<Rightarrow> string" where
  "emails_ref pend [] = rev pend"
| "emails_ref pend (c # r) =
     (if c \<noteq> CHR ''@'' \<or> takeWhile is_local_byte pend = []
         \<or> \<not> looks_like_domain (takeWhile is_domain_byte r)
      then emails_ref (c # pend) r
      else rev (dropWhile is_local_byte pend) @ REDACTED
           @ emails_ref [] (dropWhile is_domain_byte r))"
  by pat_completeness auto
termination
  by (relation "measure (\<lambda>(pend, r). length r)") (auto simp: less_Suc_eq_le length_dropWhile_le)

lemma back_local_takeWhile:
  "copied \<le> at \<Longrightarrow> at \<le> length b \<Longrightarrow>
     back_local b copied at = at - length (takeWhile is_local_byte (rev (slice b copied at)))"
proof (induction at)
  case (Suc k)
  show ?case
  proof (cases "copied < Suc k")
    case True
    with Suc.prems have "slice b copied (Suc k) = slice b copied k @ [b ! k]"
      by (simp add: slice_def Suc_diff_le take_Suc_conv_app_nth)
    with Suc True show ?thesis by (auto simp: Suc_diff_le)
  qed (use Suc.prems in \<open>auto simp: slice_def\<close>)
qed simp

lemma emails_loop_skip:
  "i \<le> copied \<Longrightarrow> copied \<le> n \<Longrightarrow>
     emails_loop b [i..<n] copied out = emails_loop b [copied..<n] copied out"
proof (induction "copied - i" arbitrary: i)
  case (Suc m)
  then have "i < copied" "[i..<n] = i # [Suc i..<n]" by (auto simp: upt_conv_Cons)
  with Suc show ?case by simp
qed simp

definition emails_result :: "bytes \<Rightarrow> string \<times> nat \<Rightarrow> string" where
  "emails_result b r = (case r of (out, copied) \<Rightarrow> out @ drop copied b)"

lemma emails_loop_ref:
  "copied \<le> i \<Longrightarrow> i \<le> length b \<Longrightarrow>
     emails_result b (emails_loop b [i..<length b] copied out)
     = out @ emails_ref (rev (slice b copied i)) (drop i b)"
proof (induction "length b - i" arbitrary: i copied out rule: less_induct)
  case less
  show ?case
  proof (cases "i < length b")
    case False
    with less.prems show ?thesis by (simp add: emails_result_def slice_def)
  next
    case True
    let ?pend = "rev (slice b copied i)"
    let ?stop = "scan_while is_domain_byte b (Suc i)"
    have cons: "drop i b = b ! i # drop (Suc i) b" "[i..<length b] = i # [Suc i..<length b]"
      using True by (simp_all add: Cons_nth_drop_Suc upt_conv_Cons)
    have next_pend: "rev (slice b copied (Suc i)) = b ! i # ?pend"
      using less.prems True by (simp add: slice_def Suc_diff_le take_Suc_conv_app_nth)
    have step: "emails_result b (emails_loop b [Suc i..<length b] copied out)
                = out @ emails_ref (b ! i # ?pend) (drop (Suc i) b)"
      using less.hyps [of "Suc i" copied out] less.prems True next_pend by simp
    have start: "back_local b copied i = i - length (takeWhile is_local_byte ?pend)"
      using less.prems by (intro back_local_takeWhile) auto
    have len: "length (takeWhile is_local_byte ?pend) \<le> i - copied"
      using length_takeWhile_le [of is_local_byte ?pend] by (simp add: slice_def)
    have stop: "Suc i \<le> ?stop" "?stop \<le> length b"
      using True by (auto simp: scan_while_ge scan_while_le)
    show ?thesis
    proof (cases "b ! i \<noteq> CHR ''@'' \<or> takeWhile is_local_byte ?pend = []
                  \<or> \<not> looks_like_domain (takeWhile is_domain_byte (drop (Suc i) b))")
      case keep: True
      then have "emails_loop b [i..<length b] copied out = emails_loop b [Suc i..<length b] copied out"
        using start by (auto simp: cons slice_scan_while Let_def)
      with keep step show ?thesis by (simp add: cons)
    next
      case mask: False
      have ne: "back_local b copied i \<noteq> i"
        using start len mask less.prems True by (cases "takeWhile is_local_byte ?pend") auto
      have sl: "slice b copied (back_local b copied i) = rev (dropWhile is_local_byte ?pend)"
      proof -
        have "slice b copied (i - n) = take (length (slice b copied i) - n) (slice b copied i)" for n
          using less.prems
          by (cases "i = length b") (auto simp: slice_def min_def add.commute)
        then have "slice b copied (back_local b copied i)
              = take (length (slice b copied i) - length (takeWhile is_local_byte ?pend)) (slice b copied i)"
          by (simp only: start)
        also have "\<dots> = rev (drop (length (takeWhile is_local_byte ?pend)) ?pend)"
          by (simp add: rev_drop)
        finally show ?thesis by (simp add: dropWhile_eq_drop)
      qed
      have "emails_loop b [i..<length b] copied out
            = emails_loop b [Suc i..<length b] ?stop (out @ slice b copied (back_local b copied i) @ REDACTED)"
        using mask ne less.prems by (auto simp: cons slice_scan_while Let_def)
      also have "\<dots> = emails_loop b [?stop..<length b] ?stop (out @ rev (dropWhile is_local_byte ?pend) @ REDACTED)"
        unfolding sl using stop by (intro emails_loop_skip) auto
      finally have loop: "emails_loop b [i..<length b] copied out
            = emails_loop b [?stop..<length b] ?stop (out @ rev (dropWhile is_local_byte ?pend) @ REDACTED)" .
      have "emails_result b (emails_loop b [i..<length b] copied out)
            = (out @ rev (dropWhile is_local_byte ?pend) @ REDACTED)
              @ emails_ref (rev (slice b ?stop ?stop)) (drop ?stop b)"
        unfolding loop using stop True by (intro less.hyps) auto
      with mask show ?thesis by (simp add: cons drop_scan_while slice_def)
    qed
  qed
qed

lemma mask_emails_ref: "mask_emails s = emails_ref [] s"
  using emails_loop_ref [of 0 0 s "[]"]
  by (simp add: mask_emails_def emails_result_def slice_def split: prod.splits)

text \<open>No address is left: read in the context of what follows, no \<open>@\<close> has an address around it.\<close>

definition address_free :: "string \<Rightarrow> string \<Rightarrow> bool" where
  "address_free a rest \<longleftrightarrow>
     (\<forall>x c d. a = x @ c # CHR ''@'' # d \<longrightarrow> is_local_byte c
        \<longrightarrow> \<not> looks_like_domain (takeWhile is_domain_byte (d @ rest)))"

lemma domain_byte_local: "is_domain_byte c \<Longrightarrow> is_local_byte c"
  by (auto simp: is_domain_byte_def is_local_byte_def)

lemma redacted_bytes: "c \<in> set REDACTED \<Longrightarrow> \<not> is_local_byte c \<and> \<not> is_domain_byte c \<and> c \<noteq> CHR ''@''"
  by (auto simp: REDACTED_def is_local_byte_def is_domain_byte_def is_ascii_alphanumeric_def
      is_ascii_alphabetic_def is_ascii_digit_def)

lemma looks_like_domain_Nil [simp]: "\<not> looks_like_domain []"
  by (simp add: looks_like_domain_def rsplit_once_def)

lemma address_free_snoc:
  assumes "address_free a (c # rest)"
    and "c = CHR ''@'' \<Longrightarrow> a = [] \<or> \<not> is_local_byte (last a)
           \<or> \<not> looks_like_domain (takeWhile is_domain_byte rest)"
  shows "address_free (a @ [c]) rest"
  unfolding address_free_def
proof (intro allI impI)
  fix x e d assume eq: "a @ [c] = x @ e # CHR ''@'' # d" and e: "is_local_byte e"
  show "\<not> looks_like_domain (takeWhile is_domain_byte (d @ rest))"
  proof (cases d rule: rev_cases)
    case Nil
    with eq have "a = x @ [e]" "c = CHR ''@''" by auto
    with assms(2) e Nil show ?thesis by auto
  next
    case (snoc d' y)
    with eq have "a = x @ e # CHR ''@'' # d'" "y = c" by auto
    with assms(1) e snoc show ?thesis by (auto simp: address_free_def)
  qed
qed

lemma REDACTED_hd: "REDACTED \<noteq> [] \<and> \<not> is_domain_byte (hd REDACTED)"
  using redacted_bytes [of "hd REDACTED"] by (simp add: REDACTED_def)

lemma address_free_redacted:
  assumes "address_free (a @ l) t" and "a = [] \<or> \<not> is_local_byte (last a)"
  shows "address_free a (REDACTED @ r)"
  unfolding address_free_def
proof (intro allI impI)
  fix x e d assume eq: "a = x @ e # CHR ''@'' # d" and e: "is_local_byte e"
  have cut: "takeWhile is_domain_byte (d @ REDACTED @ r) = takeWhile is_domain_byte d"
    using REDACTED_hd by (intro takeWhile_stop) auto
  have "\<not> looks_like_domain (takeWhile is_domain_byte (d @ l @ t))"
    using assms(1) [unfolded address_free_def, rule_format, of x e "d @ l"] eq e by simp
  moreover have "takeWhile is_domain_byte (d @ l @ t) = takeWhile is_domain_byte d" if "d \<noteq> []"
  proof -
    from that eq have "last d = last a" "last d \<in> set d" by auto
    with assms(2) eq have "\<not> is_domain_byte (last d)" by (auto dest: domain_byte_local)
    with \<open>last d \<in> set d\<close> show ?thesis by (auto intro: takeWhile_append1)
  qed
  ultimately show "\<not> looks_like_domain (takeWhile is_domain_byte (d @ REDACTED @ r))"
    unfolding cut by (cases "d = []") auto
qed

lemma address_free_join:
  assumes "address_free a (REDACTED @ r)" "address_free r []"
  shows "address_free (a @ REDACTED @ r) []"
  unfolding address_free_def
proof (intro allI impI)
  fix x e d assume eq: "a @ REDACTED @ r = x @ e # CHR ''@'' # d" and e: "is_local_byte e"
  have no: "CHR ''@'' \<notin> set REDACTED" using redacted_bytes by blast
  from eq consider
      u where "a = x @ e # CHR ''@'' # u" "d = u @ REDACTED @ r"
    | v where "r = v @ e # CHR ''@'' # d"
    | "e \<in> set REDACTED"
    by (auto simp: append_eq_append_conv2 append_eq_Cons_conv Cons_eq_append_conv
        dest: arg_cong [where f = set]) (auto simp: REDACTED_def)
  then show "\<not> looks_like_domain (takeWhile is_domain_byte (d @ []))"
  proof cases
    case 1
    with assms(1) e show ?thesis by (auto simp: address_free_def)
  next
    case 2
    with assms(2) e show ?thesis by (auto simp: address_free_def)
  next
    case 3
    with e redacted_bytes show ?thesis by blast
  qed
qed

lemma emails_ref_address_free:
  "address_free (rev pend) rest \<Longrightarrow> address_free (emails_ref pend rest) []"
proof (induction pend rest rule: emails_ref.induct)
  case (1 pend)
  then show ?case by simp
next
  case (2 pend c r)
  let ?keep = "c \<noteq> CHR ''@'' \<or> takeWhile is_local_byte pend = []
         \<or> \<not> looks_like_domain (takeWhile is_domain_byte r)"
  show ?case
  proof (cases ?keep)
    case True
    have "address_free (rev pend @ [c]) r"
      using "2.prems" True by (intro address_free_snoc; cases pend) (auto split: if_splits)
    with True "2.IH"(1) show ?thesis by simp
  next
    case False
    let ?a = "rev (dropWhile is_local_byte pend)"
    have "rev pend = ?a @ rev (takeWhile is_local_byte pend)"
      by (metis rev_append takeWhile_dropWhile_id)
    with "2.prems" have "address_free (?a @ rev (takeWhile is_local_byte pend)) (c # r)" by simp
    moreover have "?a = [] \<or> \<not> is_local_byte (last ?a)"
      by (metis hd_dropWhile last_rev rev_is_Nil_conv)
    ultimately have "address_free ?a (REDACTED @ emails_ref [] (dropWhile is_domain_byte r))"
      by (rule address_free_redacted)
    moreover have "address_free (emails_ref [] (dropWhile is_domain_byte r)) []"
      using "2.IH"(2) [OF False] by (simp add: address_free_def)
    ultimately show ?thesis using False by (simp add: address_free_join)
  qed
qed



section \<open>Query strings and forms\<close>

text \<open>A parameter as it is written in a query string: a bare word, or a name and a value.\<close>

type_synonym param = "string \<times> string option"

fun show_param :: "param \<Rightarrow> string" where
  "show_param (n, None) = n"
| "show_param (n, Some v) = n @ ''='' @ v"

fun wf_param :: "param \<Rightarrow> bool" where
  "wf_param (n, v) \<longleftrightarrow> CHR ''&'' \<notin> set n \<and> CHR ''='' \<notin> set n
     \<and> (case v of None \<Rightarrow> True | Some w \<Rightarrow> CHR ''&'' \<notin> set w)"

definition show_query :: "param list \<Rightarrow> string" where
  "show_query ps = join_with ''&'' (map show_param ps)"

text \<open>Two parameter lists that differ at most in the values given under secret names.\<close>

fun same_public :: "param \<Rightarrow> param \<Rightarrow> bool" where
  "same_public (n, v) (m, w) \<longleftrightarrow>
     n = m \<and> (v = w \<or> (v \<noteq> None \<and> w \<noteq> None \<and> is_secret_param n))"

lemma show_param_no_amp: "wf_param p \<Longrightarrow> CHR ''&'' \<notin> set (show_param p)"
  by (cases p rule: show_param.cases) auto

lemma mask_pair_show_param:
  "wf_param p \<Longrightarrow> mask_pair (show_param p) =
     (case p of (n, None) \<Rightarrow> n
      | (n, Some v) \<Rightarrow> n @ ''='' @ (if is_secret_param n then REDACTED else mask_text v))"
  by (cases p rule: show_param.cases)
     (auto simp: mask_pair_def split_once_append split_once_None [THEN iffD2])

lemma mask_pair_same_public:
  "same_public p q \<Longrightarrow> wf_param p \<Longrightarrow> wf_param q \<Longrightarrow>
     mask_pair (show_param p) = mask_pair (show_param q)"
  by (cases p; cases q) (auto simp: mask_pair_show_param split: option.splits)

lemma split_show_query:
  "ps \<noteq> [] \<Longrightarrow> list_all wf_param ps \<Longrightarrow>
     split_on (CHR ''&'') (show_query ps) = map show_param ps"
  unfolding show_query_def
  by (rule split_on_join) (auto simp: list_all_iff show_param_no_amp)

lemma mask_pairs_same_public:
  "list_all2 same_public ps qs \<Longrightarrow> list_all wf_param ps \<Longrightarrow> list_all wf_param qs \<Longrightarrow>
     map (mask_pair \<circ> show_param) ps = map (mask_pair \<circ> show_param) qs"
  by (induction ps qs rule: list_all2_induct) (auto simp: mask_pair_same_public)

lemma mask_form_show_query:
  "ps \<noteq> [] \<Longrightarrow> list_all wf_param ps \<Longrightarrow>
     mask_form (show_query ps) = join_with ''&'' (map (mask_pair \<circ> show_param) ps)"
  by (simp add: mask_form_def split_show_query)

lemma mask_path_show_query:
  "ps \<noteq> [] \<Longrightarrow> list_all wf_param ps \<Longrightarrow> CHR ''?'' \<notin> set base \<Longrightarrow>
     mask_path (base @ CHR ''?'' # show_query ps) = matrix base @ ''?'' @ mask_form (show_query ps)"
  by (simp add: mask_path_def mask_form_def split_once_append)

text \<open>
  C2. The masked path of a request and the masked form do not depend on the values given under
  secret parameter names: two parameter lists that agree on everything else are shown alike.
\<close>

theorem query_secrets_do_not_show:
  assumes "list_all wf_param ps" "list_all wf_param qs" "ps \<noteq> []"
    and "list_all2 same_public ps qs" and "CHR ''?'' \<notin> set base"
  shows "mask_path (base @ ''?'' @ show_query ps) = mask_path (base @ ''?'' @ show_query qs)
       \<and> mask_form (show_query ps) = mask_form (show_query qs)"
proof -
  have "qs \<noteq> []" using assms(3,4) by auto
  with assms show ?thesis
    using mask_pairs_same_public [of ps qs]
    by (simp add: mask_path_show_query mask_form_show_query)
qed

theorem query_secrets_do_not_show_witness:
  "mask_path (''/login'' @ ''?'' @ show_query [(''user'', Some ''marc''), (''pwd'', Some ''hunter2'')])
   = mask_path (''/login'' @ ''?'' @ show_query [(''user'', Some ''marc''), (''pwd'', Some ''x=y'')])"
proof -
  have "is_secret_param ''pwd''" by code_simp
  then show ?thesis
    using query_secrets_do_not_show
      [of "[(''user'', Some ''marc''), (''pwd'', Some ''hunter2'')]"
          "[(''user'', Some ''marc''), (''pwd'', Some ''x=y'')]" "''/login''"]
    by simp
qed

section \<open>URLs\<close>

lemma find_sub_scheme:
  "CHR '':'' \<notin> set scheme \<Longrightarrow> find_sub ''://'' (scheme @ ''://'' @ rest) = Some (length scheme)"
  by (induction scheme) auto

text \<open>
  In a masked URL the credentials before the host are replaced whatever they are; scheme and
  host stay, and the rest follows the rule for paths.
\<close>

theorem url_credentials_do_not_show:
  assumes "CHR '':'' \<notin> set scheme"
    and "\<forall>c \<in> set cred. c \<notin> set ''/?#''"
    and "\<forall>c \<in> set host. c \<notin> set ''/?#@''"
    and "tail = [] \<or> hd tail \<in> set ''/?#''"
  shows "mask_url (scheme @ ''://'' @ cred @ ''@'' @ host @ tail)
         = scheme @ ''://'' @ REDACTED @ ''@'' @ host @ mask_path tail"
proof -
  define auth where "auth = cred @ ''@'' @ host"
  have cut: "(case find_byte (\<lambda>c. c \<in> set ''/?#'') (auth @ tail) of
               Some i \<Rightarrow> i | None \<Rightarrow> length (auth @ tail)) = length auth"
    using assms(2-4) by (intro find_byte_append) (auto simp: auth_def)
  have host: "rsplit_once (CHR ''@'') auth = Some (cred, host)"
    using assms(3) by (auto simp: rsplit_once_Some auth_def)
  have "find_sub ''://'' (scheme @ ''://'' @ auth @ tail) = Some (length scheme)"
    using assms(1) by (rule find_sub_scheme)
  then have "mask_url (scheme @ ''://'' @ auth @ tail)
             = scheme @ ''://'' @ (REDACTED @ ''@'' @ host) @ mask_path tail"
    unfolding mask_url_def using cut host by (simp del: length_append)
  then show ?thesis by (simp add: auth_def)
qed

theorem url_credentials_do_not_show_witness:
  "mask_url (''https'' @ ''://'' @ ''marc:hunter2'' @ ''@'' @ ''intra.example'' @ ''/page'')
   = ''https'' @ ''://'' @ REDACTED @ ''@'' @ ''intra.example'' @ mask_path ''/page''"
  by (rule url_credentials_do_not_show) simp_all

section \<open>JSON\<close>

lemma json_string_close_shift:
  "json_string_close (p @ s) (length p + i) = map_option ((+) (length p)) (json_string_close s i)"
proof (induction s i rule: json_string_close.induct)
  case (1 s i)
  show ?case
    using "1.IH" by (subst (1 2) json_string_close.simps) (auto simp: add.assoc)
qed

lemma json_string_end_shift:
  "json_string_end (p @ s) (length p + i) = map_option ((+) (length p)) (json_string_end s i)"
  using json_string_close_shift [of p s "Suc i"] by (simp add: json_string_end_def)

lemmas json_shift = scan_while_shift slice_shift json_string_end_shift

lemma json_value_end_shift:
  "s \<noteq> [] \<Longrightarrow> json_value_end (p @ s) (length p + k) = length p + json_value_end s k"
  by (cases s) (auto simp: json_value_end_def json_string_end_shift split: option.splits)

lemma json_step_shift:
  assumes "i < length s"
  shows "json_step (p @ s) (length p + i) = map_prod id (map_option ((+) (length p))) (json_step s i)"
proof -
  have "s \<noteq> []" using assms by auto
  then show ?thesis
    unfolding json_step_def Let_def
    by (simp add: add_suc json_shift json_value_end_shift nth_append_length_plus
        del: add_Suc_right split: option.split)
qed

lemma json_loop_out: "json_loop s i out = out @ json_loop s i []"
proof (induction "length s - i" arbitrary: i out rule: less_induct)
  case less
  have step: "json_loop s n (out' @ o') = out' @ o' @ json_loop s n []" if "i < n" "i < length s" for n out' o'
    using that less.hyps [of n "out' @ o'"] by simp
  show ?case
  proof (cases "i < length s")
    case True
    obtain o' nxt where st: "json_step s i = (o', nxt)" by (cases "json_step s i")
    show ?thesis
    proof (cases nxt)
      case (Some n)
      with True st have "json_loop s i out' = json_loop s n (out' @ o')" for out'
        by (simp add: json_loop.simps [of s i])
      moreover have "json_loop s n (out' @ o') = out' @ o' @ json_loop s n []" for out'
        using True st Some json_step_progress [OF True, of o' n] by (intro step) auto
      ultimately show ?thesis by simp
    qed (use st True in \<open>simp add: json_loop.simps [of s i]\<close>)
  qed (simp add: json_loop.simps [of s i])
qed

lemma json_loop_shift: "json_loop (p @ s) (length p + i) out = json_loop s i out"
proof (induction s i out rule: json_loop.induct)
  case (1 s i out)
  show ?case
  proof (cases "i < length s")
    case True
    with 1 [OF True] json_step_shift [OF True, of p] show ?thesis
      by (auto simp: json_loop.simps [of _ _ out] split: prod.splits option.splits)
  qed (simp add: json_loop.simps [of _ _ out])
qed
text \<open>What may stand between the quotes of a JSON string: every backslash escapes a byte.\<close>

fun json_body :: "string \<Rightarrow> bool" where
  "json_body [] = True"
| "json_body [c] = (c \<noteq> CHR 0x5C \<and> c \<noteq> CHR 0x22)"
| "json_body (c # d # r) =
     (if c = CHR 0x5C then json_body r else c \<noteq> CHR 0x22 \<and> json_body (d # r))"

lemma json_string_close_body:
  "json_body v \<Longrightarrow> json_string_close (v @ CHR 0x22 # r) 0 = Some (length v)"
proof (induction v rule: json_body.induct)
  case 1
  show ?case by (subst json_string_close.simps) simp
next
  case (2 c)
  then show ?case by (simp add: json_string_close.simps [of _ 0] json_string_close.simps [of _ "Suc 0"])
next
  case (3 c d v)
  have one: "json_string_close (c # t) (Suc 0) = map_option Suc (json_string_close t 0)" for t
    using json_string_close_shift [of "[c]" t 0] by (cases "json_string_close t 0") auto
  have two: "json_string_close (c # d # t) 2 = map_option (\<lambda>n. n + 2) (json_string_close t 0)" for t
    using json_string_close_shift [of "[c, d]" t 0] by (cases "json_string_close t 0") (auto simp: numeral_2_eq_2)
  show ?case
    using 3 one [of "d # v @ CHR 0x22 # r"] two [of "v @ CHR 0x22 # r"]
    by (subst json_string_close.simps) (auto split: if_splits simp: numeral_2_eq_2)
qed

lemma json_string_end_body:
  assumes "json_body v"
  shows "json_string_end (p @ CHR 0x22 # v @ CHR 0x22 # r) (length p) = Some (length p + Suc (length v))"
  using json_string_close_shift [of "p @ [CHR 0x22]" "v @ CHR 0x22 # r" 0] json_string_close_body [OF assms, of r]
  by (simp add: json_string_end_def)

lemma json_values_Nil [simp]: "json_values [] = []"
  by (simp add: json_values_def json_loop.simps)

lemma json_values_advance:
  assumes "p \<noteq> []" and "json_step (p @ s) 0 = (o', Some (length p))"
  shows "json_values (p @ s) = o' @ json_values s"
proof -
  have "json_values (p @ s) = json_loop (p @ s) (length p + 0) o'"
    using assms by (simp add: json_values_def json_loop.simps [of "p @ s" 0])
  also have "\<dots> = o' @ json_values s"
    unfolding json_loop_shift json_values_def by (rule json_loop_out)
  finally show ?thesis .
qed

lemma json_values_text:
  assumes "CHR 0x22 \<notin> set p"
  shows "json_values (p @ CHR 0x22 # s) = p @ json_values (CHR 0x22 # s)"
proof (cases "p = []")
  case False
  have scan: "scan_while (\<lambda>c. c \<noteq> CHR 0x22) ([] @ p @ CHR 0x22 # s) (length ([] :: string)) = length p"
    using assms by (subst scan_while_run) auto
  have "(p @ CHR 0x22 # s) ! 0 \<noteq> CHR 0x22" using False assms by (cases p) auto
  then have "json_step (p @ CHR 0x22 # s) 0 = (p, Some (length p))"
    using scan by (simp add: json_step_def Let_def slice_def)
  then show ?thesis using False by (rule json_values_advance [rotated])
qed simp

lemma json_values_secret:
  assumes "json_body key" "is_secret_param key" "json_body v"
    and ws: "\<forall>c \<in> set w1 \<union> set w2. is_ascii_whitespace c"
  shows "json_values (CHR 0x22 # key @ CHR 0x22 # w1 @ CHR '':'' # w2 @ CHR 0x22 # v @ CHR 0x22 # rest)
         = CHR 0x22 # key @ CHR 0x22 # w1 @ CHR '':'' # replicate (length w2) (CHR '' '')
           @ CHR 0x22 # REDACTED @ CHR 0x22 # json_values rest"
proof -
  let ?p1 = "CHR 0x22 # key @ [CHR 0x22]"
  let ?p2 = "?p1 @ w1 @ [CHR '':'']"
  let ?p3 = "?p2 @ w2"
  let ?s = "?p3 @ CHR 0x22 # v @ CHR 0x22 # rest"
  have nws: "\<not> is_ascii_whitespace (CHR '':'')" "\<not> is_ascii_whitespace (CHR 0x22)"
    by (simp_all add: is_ascii_whitespace_def)
  have close: "json_string_end ?s 0 = Some (Suc (length key))"
    using json_string_end_body [OF assms(1), of "[]" "w1 @ CHR '':'' # w2 @ CHR 0x22 # v @ CHR 0x22 # rest"]
    by simp
  have j: "scan_while is_ascii_whitespace ?s (Suc (Suc (length key))) = Suc (Suc (length key + length w1))"
    using scan_while_run [of w1 is_ascii_whitespace "CHR '':''" ?p1 "w2 @ CHR 0x22 # v @ CHR 0x22 # rest"] ws nws
    by simp
  have k: "scan_while is_ascii_whitespace ?s (Suc (Suc (Suc (length key + length w1)))) = length ?p3"
    using scan_while_run [of w2 is_ascii_whitespace "CHR 0x22" ?p2 "v @ CHR 0x22 # rest"] ws nws
    by simp
  have stop: "json_value_end ?s (length ?p3) = length ?p3 + Suc (length v)"
    using json_string_end_body [OF assms(3), of ?p3 rest] by (simp add: json_value_end_def)
  have key: "slice ?s (Suc 0) (Suc (length key)) = key"
    by (simp add: slice_def)
  have colon: "?s ! Suc (Suc (length key + length w1)) = CHR '':''"
    by (simp add: nth_append)
  have quote: "?s ! length ?p3 = CHR 0x22" by (simp add: nth_append)
  have "json_step ?s 0 =
      (?p1 @ w1 @ CHR '':'' # replicate (length w2) (CHR '' '') @ CHR 0x22 # REDACTED @ [CHR 0x22],
       Some (length (?p3 @ CHR 0x22 # v @ [CHR 0x22])))"
    unfolding json_step_def Let_def close option.case j k key colon quote stop
    using assms(2) by (simp add: slice_def nth_append)
  then have "json_step ((?p3 @ CHR 0x22 # v @ [CHR 0x22]) @ rest) 0 =
      (?p1 @ w1 @ CHR '':'' # replicate (length w2) (CHR '' '') @ CHR 0x22 # REDACTED @ [CHR 0x22],
       Some (length (?p3 @ CHR 0x22 # v @ [CHR 0x22])))" by simp
  from json_values_advance [OF _ this] show ?thesis by simp
qed



section \<open>Telephone numbers\<close>

lemma phone_end_None:
  "s ! i \<noteq> CHR ''+'' \<Longrightarrow> s ! i \<noteq> CHR ''0'' \<Longrightarrow> phone_end s i = None"
  "0 < i \<Longrightarrow> is_ascii_digit (s ! (i - 1)) \<Longrightarrow> phone_end s i = None"
  by (auto simp: phone_end_def)

text \<open>A stretch in which no number starts is copied as it is.\<close>

lemma phones_loop_copy:
  "i \<le> k \<Longrightarrow> k \<le> length s \<Longrightarrow> \<forall>j \<in> {i..<k}. phone_end s j = None \<Longrightarrow>
     k = length s \<or> \<not> is_continuation (s ! k) \<Longrightarrow>
     phones_loop s i out = phones_loop s k (out @ slice s i k)"
proof (induction "k - i" arbitrary: i out rule: less_induct)
  case less
  show ?case
  proof (cases "i < k")
    case False
    with less.prems show ?thesis by (simp add: slice_def)
  next
    case True
    define n where "n = scan_while is_continuation s (Suc i)"
    have n: "Suc i \<le> n" by (simp add: n_def scan_while_ge)
    have "n \<le> k"
    proof (rule ccontr)
      assume "\<not> n \<le> k"
      moreover have "n \<le> length s" using True less.prems by (simp add: n_def scan_while_le)
      ultimately have "k < n" "k < length s" by auto
      then have "k - Suc i < length (takeWhile is_continuation (drop (Suc i) s))"
        using True by (simp add: n_def scan_while_takeWhile)
      then have "is_continuation (drop (Suc i) s ! (k - Suc i))"
        by (metis nth_mem set_takeWhileD takeWhile_nth)
      with True \<open>k < length s\<close> less.prems(4) show False by simp
    qed
    have "phones_loop s i out = phones_loop s n (out @ slice s i n)"
      using less.prems True by (simp add: phones_loop.simps [of s i] n_def Let_def)
    also have "\<dots> = phones_loop s k ((out @ slice s i n) @ slice s n k)"
      using less.prems n \<open>n \<le> k\<close> True by (intro less.hyps) auto
    also have "\<dots> = phones_loop s k (out @ slice s i k)"
      using n \<open>n \<le> k\<close> slice_split [of i n k s] by simp
    finally show ?thesis .
  qed
qed

lemma phones_loop_end: "phones_loop s (length s) out = out"
  by (simp add: phones_loop.simps)

text \<open>The scan of a run of digits.\<close>

lemma phone_scan_digits:
  "\<forall>c \<in> set ds. is_ascii_digit c \<Longrightarrow>
     phone_scan (p @ ds @ t) (length p) d = phone_scan (p @ ds @ t) (length p + length ds) (d + length ds)"
proof (induction ds arbitrary: p d)
  case (Cons x ds)
  from Cons.prems Cons.IH [of "p @ [x]" "Suc d"] show ?case
    by (simp add: phone_scan.simps [of _ "length p"])
qed simp

definition french_number :: "string \<Rightarrow> bool" where
  "french_number n \<longleftrightarrow> length n = 10 \<and> hd n = CHR ''0'' \<and> list_all is_ascii_digit n"

lemma french_numberE:
  assumes "french_number n"
  obtains ds where "n = CHR ''0'' # ds" "length ds = 9" "\<forall>c \<in> set ds. is_ascii_digit c"
  using assms by (cases n) (auto simp: french_number_def list_all_iff)

definition phone_stop :: "string \<Rightarrow> bool" where
  "phone_stop z \<longleftrightarrow> z = [] \<or> (\<not> is_ascii_digit (hd z) \<and> hd z \<notin> set '' .-'')"

lemma phone_end_french:
  assumes "french_number n" "phone_stop z" "a = [] \<or> \<not> is_ascii_digit (last a)"
  shows "phone_end (a @ n @ z) (length a) = Some (length a + 10)"
proof -
  from assms(1) obtain ds where n: "n = CHR ''0'' # ds" "length ds = 9" "\<forall>c \<in> set ds. is_ascii_digit c"
    by (rule french_numberE)
  let ?s = "a @ n @ z"
  have "phone_scan ?s (Suc (length a)) 1 = phone_scan ?s (length a + 10) 10"
    using phone_scan_digits [OF n(3), of "a @ [CHR ''0'']" z 1] n by (simp add: add.commute)
  also have "\<dots> = (length a + 10, 10)"
    using assms(2) n by (cases z) (auto simp: phone_scan.simps phone_stop_def nth_append)
  finally have scan: "phone_scan ?s (Suc (length a)) 1 = (length a + 10, 10)" .
  have prev: "\<not> (0 < length a \<and> is_ascii_digit (?s ! (length a - 1)))"
    using assms(3) by (cases a rule: rev_cases) (auto simp: nth_append)
  have "?s ! length a = CHR ''0''" using n by (simp add: nth_append)
  moreover have "\<not> (length a + 10 < length ?s \<and> is_ascii_digit (?s ! (length a + 10)))"
    using assms(2) n by (cases z) (auto simp: phone_stop_def nth_append)
  ultimately show ?thesis using scan prev by (simp add: phone_end_def)
qed

lemma no_phone_start:
  assumes "\<forall>c \<in> set a. c \<noteq> CHR ''+'' \<and> c \<noteq> CHR ''0''" "i < length a"
  shows "phone_end (a @ z) i = None"
  using assms by (intro phone_end_None(1)) (auto simp: nth_append dest: nth_mem)

text \<open>
  A ten-digit number that starts with 0, with no digit before it and neither a digit nor a
  separator behind it, is replaced; the text around it is kept.
\<close>

theorem french_number_masked:
  assumes "french_number n" "phone_stop z" "a = [] \<or> \<not> is_ascii_digit (last a)"
    and "\<forall>c \<in> set (a @ z). c \<noteq> CHR ''+'' \<and> c \<noteq> CHR ''0''"
    and "z = [] \<or> \<not> is_continuation (hd z)"
  shows "mask_phones (a @ n @ z) = a @ REDACTED @ z"
proof -
  let ?s = "a @ n @ z"
  have n: "length n = 10" "n ! 0 = CHR ''0''" using assms(1) by (cases n; simp add: french_number_def)+
  have at: "\<not> is_continuation (?s ! length a)"
    using n by (simp add: nth_append is_continuation_def)
  have "mask_phones ?s = phones_loop ?s (length a) a"
    unfolding mask_phones_def using at assms(4) n
    by (subst phones_loop_copy [of 0 "length a"]) (auto simp: slice_def no_phone_start)
  also have "\<dots> = phones_loop ?s (length a + 10) (a @ REDACTED)"
    by (subst phones_loop.simps) (use n phone_end_french [OF assms(1-3)] in simp)
  also have "\<dots> = phones_loop ?s (length ?s) ((a @ REDACTED) @ slice ?s (length a + 10) (length ?s))"
  proof (rule phones_loop_copy)
    show "\<forall>j \<in> {length a + 10..<length ?s}. phone_end ?s j = None"
    proof
      fix j assume j: "j \<in> {length a + 10..<length ?s}"
      with n have "?s ! j \<in> set z" by (auto simp: nth_append)
      with assms(4) show "phone_end ?s j = None" by (intro phone_end_None(1)) auto
    qed
  qed (use n in auto)
  also have "\<dots> = a @ REDACTED @ z"
    unfolding phones_loop_end using n by (simp add: slice_def)
  finally show ?thesis .
qed

theorem french_number_masked_witness:
  "mask_phones (''call '' @ ''0612345678'' @ ''!'') = ''call '' @ REDACTED @ ''!''"
  by (rule french_number_masked)
     (simp_all add: french_number_def phone_stop_def is_ascii_digit_def is_continuation_def)

text \<open>
  Two such numbers with one space, dot or dash between them: the scan takes the pair for one
  number of twenty digits, and the first number stays readable.
\<close>

theorem phone_before_phone_shows:
  assumes "french_number n" "french_number m" and "sep \<in> set '' .-''"
  shows "mask_phones (n @ sep # m) = n @ sep # REDACTED"
proof -
  let ?s = "n @ sep # m"
  obtain ds where n: "n = CHR ''0'' # ds" "length ds = 9" "\<forall>c \<in> set ds. is_ascii_digit c"
    using assms(1) by (rule french_numberE)
  obtain es where m: "m = CHR ''0'' # es" "length es = 9" "\<forall>c \<in> set es. is_ascii_digit c"
    using assms(2) by (rule french_numberE)
  have zero: "is_ascii_digit (CHR ''0'')" by (simp add: is_ascii_digit_def)
  have sep: "\<not> is_ascii_digit sep" "sep \<noteq> CHR ''+''" "sep \<noteq> CHR ''0''"
    using assms(3) by (auto simp: is_ascii_digit_def)
  have "phone_scan ?s (Suc 0) 1 = phone_scan ?s 10 10"
    using phone_scan_digits [OF n(3), of "[CHR ''0'']" "sep # m" 1] n by simp
  also have "\<dots> = phone_scan ?s 11 10"
    using n m sep assms(3) zero by (simp add: phone_scan.simps [of _ 10] nth_append)
  also have "\<dots> = phone_scan ?s 21 20"
    using phone_scan_digits [of m "n @ [sep]" "[]" 10] n m zero by simp
  also have "\<dots> = (21, 20)" using n m by (simp add: phone_scan.simps)
  finally have "phone_end ?s 0 = None" using n m by (simp add: phone_end_def)
  moreover have "phone_end ?s j = None" if "0 < j" "j < 11" for j
  proof (cases "j = 10")
    case True
    then show ?thesis using n sep by (intro phone_end_None(1)) (auto simp: nth_append)
  next
    case False
    with that n zero show ?thesis
      by (intro phone_end_None(2)) (auto simp: nth_append nth_Cons split: nat.splits)
  qed
  ultimately have none: "\<forall>j \<in> {0..<11}. phone_end ?s j = None" by (metis atLeastLessThan_iff gr0I)
  have last: "phone_end ((n @ [sep]) @ m @ []) (length (n @ [sep])) = Some (length (n @ [sep]) + 10)"
    using assms(2) sep by (intro phone_end_french) (auto simp: phone_stop_def)
  have "mask_phones ?s = phones_loop ?s 11 (n @ [sep])"
    unfolding mask_phones_def using none n m
    by (subst phones_loop_copy [of 0 11]) (auto simp: slice_def nth_append is_continuation_def)
  also have "\<dots> = phones_loop ?s 21 ((n @ [sep]) @ REDACTED)"
    by (subst phones_loop.simps) (use last n m in simp)
  also have "\<dots> = n @ sep # REDACTED"
    using n m by (simp add: phones_loop.simps)
  finally show ?thesis .
qed

theorem phone_before_phone_shows_witness:
  "mask_phones (''0612345678'' @ CHR '' '' # ''0787654321'') = ''0612345678'' @ CHR '' '' # REDACTED"
  by (rule phone_before_phone_shows) (simp_all add: french_number_def is_ascii_digit_def)

section \<open>What forms and headers show\<close>

text \<open>
  A form field written without an equals sign is kept as it is, an e-mail address or a
  telephone number included.
\<close>

theorem form_word_shows:
  assumes "utf8_valid w" "CHR ''&'' \<notin> set w" "CHR ''='' \<notin> set w"
  shows "mask_body ''application/x-www-form-urlencoded'' w = w"
proof -
  have "mime_of ''application/x-www-form-urlencoded'' = ''application/x-www-form-urlencoded''"
    by code_simp
  with assms show ?thesis
    by (simp add: mask_body_def from_utf8_lossy_valid mask_form_def split_on_no_mem mask_pair_def
        split_once_None [THEN iffD2])
qed

theorem form_word_shows_witness:
  "mask_body ''application/x-www-form-urlencoded'' ''marc@example.com'' = ''marc@example.com''"
  by (rule form_word_shows) (code_simp, simp_all)

end
