(* ===== verification/Byte_Streams.thy ===== *)
theory Byte_Streams
  imports Solon_Prelude
begin

text \<open>
  The two ends of a relayed connection, as the proxies of the service see them.  What a peer
  sends is a finite sequence of arrivals; \<open>read\<close> hands out a non-empty piece of the next arrival,
  at most as long as the buffer offered, or nothing at the end of the stream, or an error.  What
  is written to a peer is accumulated; the peer may accept only a number of bytes before the
  connection breaks.  The theorems quantify over all arrivals, so they hold for every way the
  bytes are cut into reads.
\<close>

datatype io_error = UnexpectedEof | InvalidData | ReadFailed | BrokenPipe | OtherError string

datatype arrival = Chunk bytes | ReadError io_error

type_synonym reader = "arrival list"

fun read_some :: "nat \<Rightarrow> reader \<Rightarrow> (io_error + bytes) \<times> reader" where
  "read_some n [] = (Inr [], [])"
| "read_some n (ReadError e # r) = (Inl e, r)"
| "read_some n (Chunk c # r) =
     (if c = [] then read_some n r
      else (Inr (take n c), if length c \<le> n then r else Chunk (drop n c) # r))"

text \<open>The bytes still to be read when no read fails.\<close>

fun pending :: "reader \<Rightarrow> bytes" where
  "pending [] = []"
| "pending (ReadError e # r) = []"
| "pending (Chunk c # r) = c @ pending r"

fun no_read_errors :: "reader \<Rightarrow> bool" where
  "no_read_errors [] = True"
| "no_read_errors (ReadError e # r) = False"
| "no_read_errors (Chunk c # r) = no_read_errors r"

fun rd_size :: "reader \<Rightarrow> nat" where
  "rd_size [] = 0"
| "rd_size (ReadError e # r) = Suc (rd_size r)"
| "rd_size (Chunk c # r) = Suc (length c + rd_size r)"

lemma read_some_pending:
  "read_some n r = (Inr c, r') \<Longrightarrow> pending r = c @ pending r'"
  by (induction n r rule: read_some.induct) (auto split: if_splits)

lemma read_some_no_errors:
  "read_some n r = (x, r') \<Longrightarrow> no_read_errors r \<Longrightarrow> no_read_errors r' \<and> (\<exists>c. x = Inr c)"
  by (induction n r rule: read_some.induct) (auto split: if_splits)

lemma read_some_eof:
  "read_some n r = (Inr [], r') \<Longrightarrow> 0 < n \<Longrightarrow> no_read_errors r \<Longrightarrow> pending r = []"
  by (induction n r rule: read_some.induct) (auto split: if_splits)

lemma read_some_length: "read_some n r = (Inr c, r') \<Longrightarrow> length c \<le> n"
  by (induction n r rule: read_some.induct) (auto split: if_splits)

lemma read_some_le: "read_some n r = (x, r') \<Longrightarrow> rd_size r' \<le> rd_size r"
  by (induction n r rule: read_some.induct) (auto split: if_splits)

lemma read_some_decreases:
  "read_some n r = (Inr c, r') \<Longrightarrow> c \<noteq> [] \<Longrightarrow> rd_size r' < rd_size r"
proof (induction n r rule: read_some.induct)
  case (3 n c' r)
  show ?case
  proof (cases "c' = []")
    case True
    with 3 show ?thesis by force
  next
    case False
    with 3 show ?thesis by (auto split: if_splits)
  qed
qed auto

text \<open>
  The read loops of the proxies: until the buffer satisfies \<open>probe\<close>, read up to \<open>n\<close> more bytes
  and append them.  A loop leaves with the probe's answer, at the end of the stream, or with the
  error of a read.
\<close>

datatype fill_end = Eof | Failed io_error

function fill ::
  "(bytes \<Rightarrow> 'a option) \<Rightarrow> nat \<Rightarrow> bytes \<Rightarrow> reader \<Rightarrow> (fill_end + 'a) \<times> bytes \<times> reader" where
  "fill probe n buf r =
     (case probe buf of
        Some a \<Rightarrow> (Inr a, buf, r)
      | None \<Rightarrow>
          (case read_some n r of
             (Inl e, r') \<Rightarrow> (Inl (Failed e), buf, r')
           | (Inr c, r') \<Rightarrow> if c = [] then (Inl Eof, buf, r') else fill probe n (buf @ c) r'))"
  by pat_completeness auto
termination
  by (relation "measure (\<lambda>(probe, n, buf, r). rd_size r)")
     (auto dest: read_some_decreases [OF sym])

declare fill.simps [simp del]

lemma fill_conserves:
  "fill probe n buf r = (x, buf', r') \<Longrightarrow> (\<And>e. x \<noteq> Inl (Failed e)) \<Longrightarrow>
     buf' @ pending r' = buf @ pending r"
proof (induction probe n buf r rule: fill.induct)
  case (1 probe n buf r)
  show ?case
  proof (cases "probe buf")
    case (Some a)
    with "1.prems" show ?thesis by (simp add: fill.simps [of probe])
  next
    case None
    obtain y r1 where rd: "read_some n r = (y, r1)" by (cases "read_some n r")
    show ?thesis
    proof (cases y)
      case (Inl e)
      with None rd "1.prems" show ?thesis by (auto simp: fill.simps [of probe])
    next
      case (Inr c)
      with rd have p: "pending r = c @ pending r1" by (simp add: read_some_pending)
      show ?thesis
      proof (cases "c = []")
        case True
        with None rd Inr "1.prems" p show ?thesis by (auto simp: fill.simps [of probe])
      next
        case False
        with None rd Inr "1.prems" have "fill probe n (buf @ c) r1 = (x, buf', r')"
          by (simp add: fill.simps [of probe n buf])
        from "1.IH" [OF None rd [symmetric] Inr False this "1.prems"(2)] p show ?thesis by simp
      qed
    qed
  qed
qed

lemma fill_answer: "fill probe n buf r = (Inr a, buf', r') \<Longrightarrow> probe buf' = Some a"
proof (induction probe n buf r rule: fill.induct)
  case (1 probe n buf r)
  show ?case
    using "1.prems" "1.IH"
    by (subst (asm) fill.simps) (auto split: option.splits prod.splits sum.splits if_splits)
qed

lemma fill_extends: "fill probe n buf r = (x, buf', r') \<Longrightarrow> prefix buf buf'"
proof (induction probe n buf r rule: fill.induct)
  case (1 probe n buf r)
  show ?case
    using "1.prems" "1.IH"
    by (subst (asm) fill.simps)
       (auto split: option.splits prod.splits sum.splits if_splits dest: append_prefixD)
qed

lemma fill_no_errors:
  "fill probe n buf r = (x, buf', r') \<Longrightarrow> no_read_errors r \<Longrightarrow>
     no_read_errors r' \<and> (\<forall>e. x \<noteq> Inl (Failed e))"
proof (induction probe n buf r rule: fill.induct)
  case (1 probe n buf r)
  show ?case
    using "1.prems" "1.IH" read_some_no_errors [of n r]
    by (subst (asm) fill.simps) (fastforce split: option.splits prod.splits sum.splits if_splits)
qed

lemma fill_le: "fill probe n buf r = (x, buf', r') \<Longrightarrow> rd_size r' \<le> rd_size r"
proof (induction probe n buf r rule: fill.induct)
  case (1 probe n buf r)
  obtain y r1 where rd: "read_some n r = (y, r1)" by (cases "read_some n r")
  with read_some_le have "rd_size r1 \<le> rd_size r" by blast
  with 1 rd show ?case
    by (simp add: fill.simps [of probe n buf r])
       (fastforce split: option.splits sum.splits if_splits)
qed

lemma fill_eof:
  "fill probe n buf r = (Inl Eof, buf', r') \<Longrightarrow> 0 < n \<Longrightarrow> no_read_errors r \<Longrightarrow>
     pending r' = [] \<and> probe buf' = None"
proof (induction probe n buf r rule: fill.induct)
  case (1 probe n buf r)
  show ?case
    using "1.prems" "1.IH" read_some_no_errors [of n r] read_some_eof [of n r]
      read_some_pending [of n r]
    by (subst (asm) fill.simps) (fastforce split: option.splits prod.splits sum.splits if_splits)
qed

section \<open>The writing end\<close>

record writer =
  sent :: bytes
  accepts :: "nat option"

definition write_all :: "bytes \<Rightarrow> writer \<Rightarrow> (io_error + unit) \<times> writer" where
  "write_all bs w =
     (case accepts w of
        None \<Rightarrow> (Inr (), w\<lparr>sent := sent w @ bs\<rparr>)
      | Some k \<Rightarrow>
          if length bs \<le> k then (Inr (), w\<lparr>sent := sent w @ bs, accepts := Some (k - length bs)\<rparr>)
          else (Inl BrokenPipe, w\<lparr>sent := sent w @ take k bs, accepts := Some 0\<rparr>))"

definition open_writer :: "writer \<Rightarrow> bool" where
  "open_writer w \<longleftrightarrow> accepts w = None"

lemma write_all_open [simp]:
  "open_writer w \<Longrightarrow> write_all bs w = (Inr (), w\<lparr>sent := sent w @ bs\<rparr>)"
  by (simp add: write_all_def open_writer_def)

lemma open_writer_sent [simp]: "open_writer (w\<lparr>sent := x\<rparr>) = open_writer w"
  by (simp add: open_writer_def)

lemma write_all_ok: "write_all bs w = (Inr (), w') \<Longrightarrow> sent w' = sent w @ bs"
  by (auto simp: write_all_def split: option.splits if_splits)

lemma write_all_prefix: "write_all bs w = (x, w') \<Longrightarrow> prefix (sent w') (sent w @ bs)"
  by (auto simp: write_all_def take_is_prefix split: option.splits if_splits)

section \<open>Connection programs\<close>

text \<open>
  One direction of a relayed connection: the bytes read and not yet handled, the source, the
  destination.  A program on it either fails with an error, as the \<open>?\<close> operator propagates it, or
  returns a value.
\<close>

record conn =
  buf :: bytes
  src :: reader
  dst :: writer

type_synonym 'a io = "conn \<Rightarrow> (io_error + 'a) \<times> conn"

definition return_io :: "'a \<Rightarrow> 'a io" where
  "return_io a s = (Inr a, s)"

definition fail_io :: "io_error \<Rightarrow> 'a io" where
  "fail_io e s = (Inl e, s)"

definition bind_io :: "'a io \<Rightarrow> ('a \<Rightarrow> 'b io) \<Rightarrow> 'b io" where
  "bind_io m f s = (case m s of (Inl e, s') \<Rightarrow> (Inl e, s') | (Inr a, s') \<Rightarrow> f a s')"

definition write_io :: "bytes \<Rightarrow> unit io" where
  "write_io bs s = (case write_all bs (dst s) of (x, w) \<Rightarrow> (x, s\<lparr>dst := w\<rparr>))"

definition drop_buf :: "nat \<Rightarrow> conn \<Rightarrow> conn" where
  "drop_buf n s = s\<lparr>buf := drop n (buf s)\<rparr>"

text \<open>Write the first \<open>n\<close> bytes of the buffer and drain them.\<close>

definition flush_buf :: "nat \<Rightarrow> unit io" where
  "flush_buf n s =
     (case write_io (take n (buf s)) s of (Inl e, s') \<Rightarrow> (Inl e, s') | (Inr _, s') \<Rightarrow> (Inr (), drop_buf n s'))"

text \<open>\<open>tokio::io::copy\<close>: everything the source still sends, until it ends.\<close>

function copy_all :: "reader \<Rightarrow> writer \<Rightarrow> (io_error + nat) \<times> reader \<times> writer" where
  "copy_all r w =
     (case read_some 8192 r of
        (Inl e, r') \<Rightarrow> (Inl e, r', w)
      | (Inr c, r') \<Rightarrow>
          if c = [] then (Inr 0, r', w)
          else (case write_all c w of
                  (Inl e, w') \<Rightarrow> (Inl e, r', w')
                | (Inr _, w') \<Rightarrow>
                    (case copy_all r' w' of
                       (Inl e, r'', w'') \<Rightarrow> (Inl e, r'', w'')
                     | (Inr m, r'', w'') \<Rightarrow> (Inr (length c + m), r'', w''))))"
  by pat_completeness auto
termination
  by (relation "measure (\<lambda>(r, w). rd_size r)") (auto dest: read_some_decreases [OF sym])

declare copy_all.simps [simp del]

lemma copy_all_open:
  "open_writer w \<Longrightarrow> no_read_errors r \<Longrightarrow>
     \<exists>r'. copy_all r w = (Inr (length (pending r)), r', w\<lparr>sent := sent w @ pending r\<rparr>)
        \<and> pending r' = [] \<and> no_read_errors r'"
proof (induction r w rule: copy_all.induct)
  case (1 r w)
  obtain y r1 where rd: "read_some 8192 r = (y, r1)" by (cases "read_some 8192 r")
  with "1.prems" obtain c where c: "y = Inr c" "no_read_errors r1"
    using read_some_no_errors by blast
  with rd have p: "pending r = c @ pending r1" by (simp add: read_some_pending)
  show ?case
  proof (cases "c = []")
    case True
    with rd c "1.prems" have "pending r = []" by (auto dest: read_some_eof)
    with True rd c p show ?thesis by (auto simp: copy_all.simps [of r])
  next
    case False
    let ?w = "w\<lparr>sent := sent w @ c\<rparr>"
    obtain r2 where "copy_all r1 ?w = (Inr (length (pending r1)), r2, ?w\<lparr>sent := sent ?w @ pending r1\<rparr>)"
      "pending r2 = []" "no_read_errors r2"
      using "1.IH" [OF rd [symmetric] c(1) False, of "Inr ()" ?w "()"] "1.prems" c(2) by auto
    with False rd c p "1.prems"(1) show ?thesis
      by (simp add: copy_all.simps [of r])
  qed
qed

section \<open>Sizes, conservation and progress\<close>

lemma read_some_size:
  "read_some n r = (Inr c, r') \<Longrightarrow> rd_size r' + length c \<le> rd_size r"
proof (induction n r rule: read_some.induct)
  case (3 n c' r)
  then show ?case by (cases "c' = []") (auto split: if_splits)
qed auto

lemma fill_size:
  "fill probe n b0 r = (x, b1, r') \<Longrightarrow> length b1 + rd_size r' \<le> length b0 + rd_size r"
proof (induction probe n b0 r rule: fill.induct)
  case (1 probe n b0 r)
  obtain y r1 where rd: "read_some n r = (y, r1)" by (cases "read_some n r")
  with read_some_le have "rd_size r1 \<le> rd_size r" by blast
  with 1 rd read_some_size [of n r] show ?case
    by (simp add: fill.simps [of probe n b0 r])
       (fastforce split: option.splits sum.splits if_splits)
qed

text \<open>
  A probe that is silent until it gives the one answer \<open>a\<close>, and gives it on the whole stream,
  is answered however the stream is cut.
\<close>

lemma fill_finds:
  assumes "\<And>b. prefix b (b0 @ pending r) \<Longrightarrow> probe b = None \<or> probe b = Some a"
    and "probe (b0 @ pending r) = Some a" and "no_read_errors r" and "0 < n"
  shows "\<exists>b1 r'. fill probe n b0 r = (Inr a, b1, r')"
proof -
  obtain x b1 r' where f: "fill probe n b0 r = (x, b1, r')"
    by (metis prod_cases3)
  have ok: "no_read_errors r'" "\<forall>e. x \<noteq> Inl (Failed e)"
    using fill_no_errors [OF f assms(3)] by auto
  then have eq: "b1 @ pending r' = b0 @ pending r" using fill_conserves [OF f] by blast
  show ?thesis
  proof (cases x)
    case (Inl e)
    with ok have "x = Inl Eof" by (cases e) auto
    with f assms(3,4) have "pending r' = []" "probe b1 = None" using fill_eof by blast+
    with eq assms(2) show ?thesis by simp
  next
    case (Inr c)
    with f have "probe b1 = Some c" by (simp add: fill_answer)
    moreover have "prefix b1 (b0 @ pending r)" using eq by (metis prefixI)
    ultimately have "c = a" using assms(1) by force
    with f Inr show ?thesis by blast
  qed
qed

text \<open>All bytes of a direction: written, buffered, to come.\<close>

definition flow :: "conn \<Rightarrow> bytes" where
  "flow s = sent (dst s) @ buf s @ pending (src s)"

definition healthy :: "conn \<Rightarrow> bool" where
  "healthy s \<longleftrightarrow> open_writer (dst s) \<and> no_read_errors (src s)"

definition stream_size :: "conn \<Rightarrow> nat" where
  "stream_size s = length (buf s) + rd_size (src s)"

text \<open>A program that loses, repeats or reorders nothing, on a connection without faults.\<close>

definition conserving :: "'a io \<Rightarrow> bool" where
  "conserving m \<longleftrightarrow>
     (\<forall>s x s'. m s = (x, s') \<longrightarrow> healthy s \<longrightarrow> healthy s' \<and> flow s' = flow s
        \<and> prefix (sent (dst s)) (sent (dst s')))"

definition shrinking :: "'a io \<Rightarrow> bool" where
  "shrinking m \<longleftrightarrow> (\<forall>s x s'. m s = (x, s') \<longrightarrow> stream_size s' \<le> stream_size s)"

lemma conservingI:
  "(\<And>s x s'. m s = (x, s') \<Longrightarrow> healthy s \<Longrightarrow>
      healthy s' \<and> flow s' = flow s \<and> prefix (sent (dst s)) (sent (dst s'))) \<Longrightarrow> conserving m"
  by (simp add: conserving_def)

lemma conservingD:
  "conserving m \<Longrightarrow> m s = (x, s') \<Longrightarrow> healthy s \<Longrightarrow>
     healthy s' \<and> flow s' = flow s \<and> prefix (sent (dst s)) (sent (dst s'))"
  by (simp add: conserving_def)

lemma conserving_return [intro, simp]: "conserving (return_io a)"
  by (auto simp: conserving_def return_io_def)

lemma conserving_fail [intro, simp]: "conserving (fail_io e)"
  by (auto simp: conserving_def fail_io_def)

lemma conserving_bind [intro]:
  "conserving m \<Longrightarrow> (\<And>a. conserving (f a)) \<Longrightarrow> conserving (bind_io m f)"
  unfolding conserving_def bind_io_def
  by (fastforce split: prod.splits sum.splits intro: prefix_order.trans)

lemma conserving_flush [intro, simp]: "conserving (flush_buf n)"
  by (rule conservingI)
     (auto simp: flush_buf_def write_io_def healthy_def flow_def drop_buf_def)

lemma shrinking_return [intro, simp]: "shrinking (return_io a)"
  by (auto simp: shrinking_def return_io_def)

lemma shrinking_fail [intro, simp]: "shrinking (fail_io e)"
  by (auto simp: shrinking_def fail_io_def)

lemma shrinking_bind [intro]:
  "shrinking m \<Longrightarrow> (\<And>a. shrinking (f a)) \<Longrightarrow> shrinking (bind_io m f)"
  unfolding shrinking_def bind_io_def
  by (fastforce split: prod.splits sum.splits intro: le_trans)

lemma shrinking_write [intro, simp]: "shrinking (write_io bs)"
  by (auto simp: shrinking_def write_io_def stream_size_def split: prod.splits)

lemma shrinking_flush [intro, simp]: "shrinking (flush_buf n)"
  by (auto simp: shrinking_def flush_buf_def write_io_def stream_size_def drop_buf_def
      split: prod.splits sum.splits)

text \<open>A read loop as a step of a program.\<close>

definition fill_io :: "(bytes \<Rightarrow> 'a option) \<Rightarrow> nat \<Rightarrow> (fill_end + 'a) io" where
  "fill_io probe n s =
     (case fill probe n (buf s) (src s) of
        (Inl (Failed e), b, r) \<Rightarrow> (Inl e, s\<lparr>buf := b, src := r\<rparr>)
      | (x, b, r) \<Rightarrow> (Inr x, s\<lparr>buf := b, src := r\<rparr>))"

lemma conserving_fill [intro, simp]: "conserving (fill_io probe n)"
proof (rule conservingI)
  fix s x s' assume st: "fill_io probe n s = (x, s')" and h: "healthy s"
  obtain y b r where f: "fill probe n (buf s) (src s) = (y, b, r)" by (metis prod_cases3)
  have ok: "no_read_errors r" "\<forall>e. y \<noteq> Inl (Failed e)"
    using fill_no_errors [OF f] h by (auto simp: healthy_def)
  have "b @ pending r = buf s @ pending (src s)" using fill_conserves [OF f] ok by blast
  moreover have "s' = s\<lparr>buf := b, src := r\<rparr>"
    using st f by (auto simp: fill_io_def split: sum.splits fill_end.splits)
  ultimately show "healthy s' \<and> flow s' = flow s \<and> prefix (sent (dst s)) (sent (dst s'))"
    using h ok by (simp add: healthy_def flow_def)
qed

lemma shrinking_fill [intro, simp]: "shrinking (fill_io probe n)"
  unfolding shrinking_def
proof (intro allI impI)
  fix s x s' assume st: "fill_io probe n s = (x, s')"
  obtain y b r where f: "fill probe n (buf s) (src s) = (y, b, r)" by (metis prod_cases3)
  from fill_size [OF f] st f show "stream_size s' \<le> stream_size s"
    by (auto simp: fill_io_def stream_size_def split: sum.splits fill_end.splits)
qed

lemma fill_io_answer:
  "fill_io probe n s = (Inr (Inr a), s') \<Longrightarrow> probe (buf s') = Some a"
  by (auto simp: fill_io_def split: prod.splits sum.splits fill_end.splits dest: fill_answer)

text \<open>\<open>tokio::io::copy\<close> as a step of a program.\<close>

definition copy_io :: "nat io" where
  "copy_io s = (case copy_all (src s) (dst s) of (x, r, w) \<Rightarrow> (x, s\<lparr>src := r, dst := w\<rparr>))"

lemma copy_io_healthy:
  assumes "healthy s"
  shows "\<exists>r. copy_io s = (Inr (length (pending (src s))),
            s\<lparr>src := r, dst := (dst s)\<lparr>sent := sent (dst s) @ pending (src s)\<rparr>\<rparr>)
          \<and> pending r = [] \<and> no_read_errors r"
  using copy_all_open [of "dst s" "src s"] assms by (auto simp: copy_io_def healthy_def)

end
