(* ===== verification/Json_Values.thy ===== *)
theory Json_Values
  imports Solon_Prelude
begin

text \<open>
  The values of \<open>serde_json\<close> as the sources use them: \<open>get\<close>, \<open>get_mut\<close> with an assignment, and the
  variants.  An object keeps its entries in order; numbers are kept as their text.
\<close>

datatype json =
    JNull
  | JBool bool
  | JNumber string
  | JString string
  | JArray "json list"
  | JObject "(string \<times> json) list"

fun obj_get :: "string \<Rightarrow> json \<Rightarrow> json option" where
  "obj_get k (JObject kvs) = map_of kvs k"
| "obj_get k _ = None"

fun obj_set :: "string \<Rightarrow> json \<Rightarrow> json \<Rightarrow> json" where
  "obj_set k v (JObject kvs) = JObject (map (\<lambda>(k', v'). (k', if k' = k then v else v')) kvs)"
| "obj_set k v j = j"

section \<open>Objects\<close>

lemma map_of_update:
  "map_of (map (\<lambda>(k', v'). (k', if k' = k then v else v')) kvs) j
     = (if j = k then (case map_of kvs k of None \<Rightarrow> None | Some _ \<Rightarrow> Some v) else map_of kvs j)"
  by (induction kvs) auto

lemma obj_get_set_same: "obj_get k j = Some w \<Longrightarrow> obj_get k (obj_set k v j) = Some v"
  by (cases j) (auto simp: map_of_update)

lemma obj_get_set_other: "k \<noteq> k' \<Longrightarrow> obj_get k' (obj_set k v j) = obj_get k' j"
  by (cases j) (auto simp: map_of_update)

lemma obj_set_set: "obj_set k v (obj_set k w j) = obj_set k v j"
  by (cases j) auto

end
