(* ===== verification/Docker_Proxy.thy ===== *)
theory Docker_Proxy
  imports Byte_Streams Json_Values
begin

text \<open>
  The proxy of the Docker API (\<open>crates/solon-service/src/docker_proxy.rs\<close>): it reads the HTTP
  requests of a client, rewrites the Windows paths in \<open>POST /containers/create\<close> and passes
  everything else on.  The JSON reader and printer (\<open>serde_json\<close>) are parameters.
\<close>

section \<open>Heads of requests\<close>

definition MAX_REWRITE_BODY :: nat where "MAX_REWRITE_BODY = 8 * 1024 * 1024"
definition MAX_HEAD :: nat where "MAX_HEAD = 1024 * 1024"

record head =
  is_create_container :: bool
  content_length :: "nat option"
  chunked :: bool
  upgrade :: bool

definition find_head_end_from :: "bytes \<Rightarrow> nat \<Rightarrow> nat option" where
  "find_head_end_from b from =
     (if from \<le> length b then map_option (\<lambda>p. from + p + 4) (find_sub (CRLF @ CRLF) (drop from b))
      else None)"

definition find_head_end :: "bytes \<Rightarrow> nat option" where
  "find_head_end b = find_head_end_from b 0"

definition is_create_path :: "string \<Rightarrow> bool" where
  "is_create_path path =
     (let p = hd (split_on (CHR ''?'') path);
          p' = (if prefix ''/v'' p then
                  (case find_byte (\<lambda>c. c = CHR ''/'') (drop 1 p) of
                     Some i \<Rightarrow> drop (1 + i) p
                   | None \<Rightarrow> p)
                else p)
      in p' = ''/containers/create'')"

definition header_line :: "string \<Rightarrow> head \<Rightarrow> head" where
  "header_line line h =
     (case split_once (CHR '':'') line of
        None \<Rightarrow> h
      | Some (n, v) \<Rightarrow>
          let name = to_ascii_lowercase (trim n); value = trim v
          in if name = ''content-length'' then h\<lparr>content_length := parse_u64 value\<rparr>
             else if name = ''transfer-encoding''
             then h\<lparr>chunked := contains_sub ''chunked'' (to_ascii_lowercase value)\<rparr>
             else if name = ''connection''
             then h\<lparr>upgrade := (upgrade h \<or> contains_sub ''upgrade'' (to_ascii_lowercase value))\<rparr>
             else if name = ''upgrade'' then h\<lparr>upgrade := True\<rparr>
             else h)"

definition parse_head :: "bytes \<Rightarrow> head option" where
  "parse_head b =
     (if \<not> utf8_valid b then None
      else let lines = split_crlf b
           in (case split_whitespace (hd lines) of
                 method # path # version # _ \<Rightarrow>
                   if \<not> prefix ''HTTP/'' version then None
                   else Some (fold header_line (tl lines)
                          \<lparr>is_create_container = (method = ''POST'' \<and> is_create_path path),
                           content_length = None, chunked = False, upgrade = False\<rparr>)
               | _ \<Rightarrow> None))"

text \<open>
  \<open>set_content_length\<close>: the first line is kept, a \<open>Content-Length\<close> line replaced, an empty line
  dropped; if none was replaced, one is added at the end.
\<close>

definition is_length_line :: "string \<Rightarrow> bool" where
  "is_length_line line \<longleftrightarrow> prefix ''content-length:'' (to_ascii_lowercase line)"

definition length_line :: "nat \<Rightarrow> string" where
  "length_line len = ''Content-Length: '' @ dec_of_nat len @ CRLF"

fun scl_loop :: "nat \<Rightarrow> nat \<Rightarrow> string list \<Rightarrow> string \<Rightarrow> bool \<Rightarrow> string" where
  "scl_loop len i [] out replaced =
     out @ (if replaced then [] else length_line len) @ CRLF"
| "scl_loop len i (line # lines) out replaced =
     (if i > 0 \<and> is_length_line line
      then scl_loop len (Suc i) lines (out @ length_line len) True
      else if line = [] then scl_loop len (Suc i) lines out replaced
      else scl_loop len (Suc i) lines (out @ line @ CRLF) replaced)"

definition set_content_length :: "bytes \<Rightarrow> nat \<Rightarrow> bytes" where
  "set_content_length b len = scl_loop len 0 (split_crlf (from_utf8_lossy b)) [] False"

section \<open>Windows paths\<close>

definition is_drive_colon :: "string \<Rightarrow> bool" where
  "is_drive_colon s \<longleftrightarrow>
     length s \<ge> 2 \<and> is_ascii_alphabetic (s ! 0) \<and> s ! 1 = CHR '':''"

text \<open>The drive and the rest of the path, for \<open>C:\x\<close>, \<open>/c/x\<close> and \<open>//c/x\<close>.\<close>

definition drive_and_rest :: "string \<Rightarrow> (char \<times> string) option" where
  "drive_and_rest s =
     (if is_drive_colon s then Some (ascii_lower (s ! 0), drop 2 s)
      else let trimmed = trim_start_matches (CHR ''/'') s;
               slashes = length s - length trimmed
           in if 1 \<le> slashes \<and> slashes \<le> 2 \<and> trimmed \<noteq> []
                 \<and> is_ascii_alphabetic (trimmed ! 0)
                 \<and> (length trimmed = 1 \<or> trimmed ! 1 = CHR ''/'')
              then Some (ascii_lower (trimmed ! 0), drop 1 trimmed)
              else None)"

definition replace_byte :: "char \<Rightarrow> char \<Rightarrow> string \<Rightarrow> string" where
  "replace_byte a b s = map (\<lambda>c. if c = a then b else c) s"

definition translate_host_path :: "string \<Rightarrow> (string \<times> string) option" where
  "translate_host_path s =
     (case drive_and_rest s of
        None \<Rightarrow> None
      | Some (drive, rest) \<Rightarrow>
          let r1 = replace_byte (CHR 0x5C) (CHR ''/'') rest;
              r2 = (if r1 = [] then ''/'' else r1);
              r3 = (if prefix ''/'' r2 then r2 else CHR ''/'' # r2);
              r4 = trim_end_matches (CHR ''/'') r3
          in Some ([drive], ''/mnt/host/'' @ [drive] @ r4))"

definition rewrite_bind :: "string \<Rightarrow> (string \<times> string) option" where
  "rewrite_bind bind =
     (let cut =
        (if length bind \<ge> 3 \<and> is_ascii_alphabetic (bind ! 0) \<and> bind ! 1 = CHR '':''
         then map_option (\<lambda>i. i + 2) (find_byte (\<lambda>c. c = CHR '':'') (drop 2 bind))
         else if prefix ''/'' bind then find_byte (\<lambda>c. c = CHR '':'') bind
         else None)
      in (case cut of
            None \<Rightarrow> None
          | Some k \<Rightarrow>
              (case translate_host_path (take k bind) of
                 None \<Rightarrow> None
               | Some (drive, guest) \<Rightarrow> Some (drive, guest @ drop k bind))))"

section \<open>The JSON of a container to create\<close>

definition add_drive :: "string \<Rightarrow> string list \<Rightarrow> string list" where
  "add_drive d ds = (if d \<in> set ds then ds else ds @ [d])"

text \<open>The loop over \<open>Binds\<close>; the flag is \<open>changed\<close>.\<close>

fun rewrite_binds :: "json list \<Rightarrow> string list \<Rightarrow> bool \<Rightarrow> json list \<times> string list \<times> bool" where
  "rewrite_binds [] ds ch = ([], ds, ch)"
| "rewrite_binds (b # bs) ds ch =
     (case (case b of JString s \<Rightarrow> rewrite_bind s | _ \<Rightarrow> None) of
        Some (drive, rewritten) \<Rightarrow>
          (case rewrite_binds bs (add_drive drive ds) True of
             (bs', ds', ch') \<Rightarrow> (JString rewritten # bs', ds', ch'))
      | None \<Rightarrow>
          (case rewrite_binds bs ds ch of (bs', ds', ch') \<Rightarrow> (b # bs', ds', ch')))"

definition bind_source :: "json \<Rightarrow> (string \<times> string) option" where
  "bind_source m =
     (if obj_get ''Type'' m = Some (JString ''bind'') then
        (case obj_get ''Source'' m of
           Some (JString s) \<Rightarrow> translate_host_path s
         | _ \<Rightarrow> None)
      else None)"

fun rewrite_mounts :: "json list \<Rightarrow> string list \<Rightarrow> bool \<Rightarrow> json list \<times> string list \<times> bool" where
  "rewrite_mounts [] ds ch = ([], ds, ch)"
| "rewrite_mounts (m # ms) ds ch =
     (case bind_source m of
        Some (drive, guest) \<Rightarrow>
          (case rewrite_mounts ms (add_drive drive ds) True of
             (ms', ds', ch') \<Rightarrow> (obj_set ''Source'' (JString guest) m # ms', ds', ch'))
      | None \<Rightarrow>
          (case rewrite_mounts ms ds ch of (ms', ds', ch') \<Rightarrow> (m # ms', ds', ch')))"

definition rewrite_host_config :: "json \<Rightarrow> json \<times> string list \<times> bool" where
  "rewrite_host_config hc =
     (let (hc1, ds1, ch1) =
        (case obj_get ''Binds'' hc of
           Some (JArray binds) \<Rightarrow>
             (case rewrite_binds binds [] False of
                (bs, ds, ch) \<Rightarrow> (obj_set ''Binds'' (JArray bs) hc, ds, ch))
         | _ \<Rightarrow> (hc, [], False))
      in (case obj_get ''Mounts'' hc1 of
            Some (JArray mounts) \<Rightarrow>
              (case rewrite_mounts mounts ds1 ch1 of
                 (ms, ds, ch) \<Rightarrow> (obj_set ''Mounts'' (JArray ms) hc1, ds, ch))
          | _ \<Rightarrow> (hc1, ds1, ch1)))"

definition rewrite_value :: "json \<Rightarrow> json \<times> string list \<times> bool" where
  "rewrite_value v =
     (case obj_get ''HostConfig'' v of
        Some (JObject kvs) \<Rightarrow>
          (case rewrite_host_config (JObject kvs) of
             (hc, ds, ch) \<Rightarrow> (obj_set ''HostConfig'' hc v, ds, ch))
      | _ \<Rightarrow> (v, [], False))"

text \<open>\<open>serde_json::from_slice\<close> and \<open>serde_json::to_vec\<close> are the two parameters.\<close>

record json_codec =
  from_slice :: "bytes \<Rightarrow> json option"
  to_vec :: "json \<Rightarrow> bytes option"

definition rewrite_create_body :: "json_codec \<Rightarrow> bytes \<Rightarrow> bytes \<times> string list" where
  "rewrite_create_body js body =
     (case from_slice js body of
        None \<Rightarrow> (body, [])
      | Some v \<Rightarrow>
          (case rewrite_value v of
             (v', drives, changed) \<Rightarrow>
               if \<not> changed then (body, [])
               else (case to_vec js v' of
                       Some out \<Rightarrow> (out, drives)
                     | None \<Rightarrow> (body, []))))"

section \<open>Relaying\<close>

definition raw_tail :: "nat \<Rightarrow> nat io" where
  "raw_tail tot s =
     bind_io (flush_buf (length (buf s)))
       (\<lambda>_. bind_io copy_io (\<lambda>n. return_io (tot + length (buf s) + n))) s"

text \<open>\<open>while remaining > 0\<close> of \<open>copy_exact\<close>, reading up to 64 KiB at a time.\<close>

function copy_exact_loop :: "nat \<Rightarrow> conn \<Rightarrow> (io_error + unit) \<times> conn" where
  "copy_exact_loop remaining s =
     (if remaining = 0 then (Inr (), s)
      else (case read_some (min remaining 65536) (src s) of
              (Inl e, r) \<Rightarrow> (Inl e, s\<lparr>src := r\<rparr>)
            | (Inr c, r) \<Rightarrow>
                if c = [] then (Inl UnexpectedEof, s\<lparr>src := r\<rparr>)
                else (case write_all c (dst s) of
                        (Inl e, w) \<Rightarrow> (Inl e, s\<lparr>src := r, dst := w\<rparr>)
                      | (Inr _, w) \<Rightarrow>
                          copy_exact_loop (remaining - length c) (s\<lparr>src := r, dst := w\<rparr>))))"
  by pat_completeness auto
termination
  by (relation "measure fst") auto

declare copy_exact_loop.simps [simp del]

definition copy_exact :: "nat \<Rightarrow> nat io" where
  "copy_exact len s =
     (let take_n = min len (length (buf s))
      in bind_io (flush_buf take_n)
           (\<lambda>_. bind_io (copy_exact_loop (len - take_n)) (\<lambda>_. return_io len)) s)"

definition line_probe :: "bytes \<Rightarrow> nat option" where
  "line_probe b = find_sub CRLF b"

definition trailer_probe :: "bytes \<Rightarrow> nat option" where
  "trailer_probe b =
     (case find_head_end_from b 0 of
        Some p \<Rightarrow> Some p
      | None \<Rightarrow> if prefix CRLF b then Some 2 else None)"

text \<open>The trailers of a chunked body, up to the empty line or the end of the stream.\<close>

definition copy_trailers :: "nat io" where
  "copy_trailers =
     bind_io (fill_io trailer_probe 4096) (\<lambda>x s.
       let stop = (case x of Inr p \<Rightarrow> p | Inl _ \<Rightarrow> length (buf s))
       in bind_io (flush_buf stop) (\<lambda>_. return_io stop) s)"

definition chunk_size_of :: "string \<Rightarrow> nat option" where
  "chunk_size_of line = parse_hex_u64 (trim (hd (split_on (CHR '';'') line)))"

text \<open>
  One round of \<open>copy_chunked\<close>: the size line, then the trailers and \<open>Inr\<close> of the bytes of the
  round (last chunk), or the data and \<open>Inl\<close>.  The addition \<open>size + 2\<close> wraps at 64 bits.
\<close>

definition copy_chunk :: "(nat + nat) io" where
  "copy_chunk =
     bind_io (fill_io line_probe 4096) (\<lambda>x s.
       case x of
         Inl _ \<Rightarrow> (Inl UnexpectedEof, s)
       | Inr line_end \<Rightarrow>
           (case chunk_size_of (from_utf8_lossy (take line_end (buf s))) of
              None \<Rightarrow> (Inl InvalidData, s)
            | Some sz \<Rightarrow>
                bind_io (flush_buf (line_end + 2)) (\<lambda>_.
                  if sz = 0
                  then bind_io copy_trailers (\<lambda>n. return_io (Inr (line_end + 2 + n)))
                  else bind_io (copy_exact ((sz + 2) mod 2 ^ 64))
                         (\<lambda>n. return_io (Inl (line_end + 2 + n)))) s))"

lemma shrinking_copy_exact_loop [intro, simp]: "shrinking (copy_exact_loop n)"
proof -
  have "copy_exact_loop n s = (x, s') \<Longrightarrow> stream_size s' \<le> stream_size s" for s x s'
  proof (induction n s rule: copy_exact_loop.induct)
    case (1 n s)
    obtain y r where rd: "read_some (min n 65536) (src s) = (y, r)"
      by (cases "read_some (min n 65536) (src s)")
    then have "rd_size r \<le> rd_size (src s)" by (rule read_some_le)
    with "1.prems" "1.IH" rd show ?case
      by (simp add: copy_exact_loop.simps [of n s])
         (fastforce simp: stream_size_def split: if_splits sum.splits prod.splits)
  qed
  then show ?thesis by (simp add: shrinking_def)
qed

lemma shrinking_copy_exact [intro, simp]: "shrinking (copy_exact n)"
proof -
  have "shrinking (bind_io (flush_buf k) (\<lambda>_. bind_io (copy_exact_loop m) (\<lambda>_. return_io n)))" for k m
    by blast
  then show ?thesis by (simp add: shrinking_def copy_exact_def Let_def)
qed

lemma flush_buf_size:
  "flush_buf n s = (Inr (), s') \<Longrightarrow> n \<le> length (buf s) \<Longrightarrow> stream_size s' + n = stream_size s"
  by (auto simp: flush_buf_def write_io_def drop_buf_def stream_size_def
      split: prod.splits sum.splits)

lemma shrinking_copy_trailers [intro, simp]: "shrinking copy_trailers"
proof -
  have "shrinking (\<lambda>s. bind_io (flush_buf (f s)) (\<lambda>_. return_io (f s)) s)" for f :: "conn \<Rightarrow> nat"
  proof -
    have "shrinking (bind_io (flush_buf k) (\<lambda>_. return_io k))" for k by blast
    then show ?thesis by (simp add: shrinking_def)
  qed
  then show ?thesis unfolding copy_trailers_def Let_def by (intro shrinking_bind) simp_all
qed

lemma shrinkingD: "shrinking m \<Longrightarrow> m s = (x, s') \<Longrightarrow> stream_size s' \<le> stream_size s"
  by (simp add: shrinking_def)

lemma bind_io_eq:
  "bind_io m f s = (x, s') \<longleftrightarrow>
     (\<exists>e. m s = (Inl e, s') \<and> x = Inl e) \<or> (\<exists>a s1. m s = (Inr a, s1) \<and> f a s1 = (x, s'))"
  by (auto simp: bind_io_def split: prod.splits sum.splits)

lemma copy_chunk_size:
  assumes "copy_chunk s = (x, s')"
  shows "stream_size s' \<le> stream_size s \<and> (\<forall>n. x = Inr (Inl n) \<longrightarrow> stream_size s' < stream_size s)"
proof -
  obtain y s1 where f: "fill_io line_probe 4096 s = (y, s1)" by (cases "fill_io line_probe 4096 s")
  have le: "stream_size s1 \<le> stream_size s" using f by (rule shrinkingD [OF shrinking_fill])
  show ?thesis
  proof (cases "\<exists>k sz. y = Inr (Inr k) \<and> chunk_size_of (from_utf8_lossy (take k (buf s1))) = Some sz")
    case False
    then consider e where "y = Inl e" | e where "y = Inr (Inl e)"
      | k where "y = Inr (Inr k)" "chunk_size_of (from_utf8_lossy (take k (buf s1))) = None"
      by (metis not_None_eq sum.exhaust)
    then show ?thesis
      using assms f le by cases (auto simp: copy_chunk_def bind_io_def)
  next
    case True
    then obtain k sz where k: "y = Inr (Inr k)"
      "chunk_size_of (from_utf8_lossy (take k (buf s1))) = Some sz" by blast
    have kb: "k + 2 \<le> length (buf s1)"
      using f k(1) fill_io_answer [of line_probe 4096 s k s1]
      by (auto simp: line_probe_def CRLF_def dest: find_sub_Some)
    obtain z s2 where fl: "flush_buf (k + 2) s1 = (z, s2)" by (cases "flush_buf (k + 2) s1")
    have le2: "stream_size s2 \<le> stream_size s1" using fl by (rule shrinkingD [OF shrinking_flush])
    show ?thesis
    proof (cases z)
      case (Inl e)
      with assms f k fl le le2 show ?thesis by (auto simp: copy_chunk_def bind_io_eq)
    next
      case (Inr u)
      with fl kb have lt: "stream_size s2 < stream_size s1" using flush_buf_size [of "k + 2" s1 s2] by simp
      have rest: "(if sz = 0 then bind_io copy_trailers (\<lambda>n. return_io (Inr (k + 2 + n)))
              else bind_io (copy_exact ((sz + 2) mod 2 ^ 64)) (\<lambda>n. return_io (Inl (k + 2 + n)))) s2 = (x, s')"
        using assms f k fl Inr by (auto simp: copy_chunk_def bind_io_eq)
      have "shrinking (if sz = 0 then bind_io copy_trailers (\<lambda>n. return_io (Inr (k + 2 + n) :: nat + nat))
              else bind_io (copy_exact ((sz + 2) mod 2 ^ 64)) (\<lambda>n. return_io (Inl (k + 2 + n))))"
        by auto
      then have "stream_size s' \<le> stream_size s2" using rest by (rule shrinkingD)
      with lt le show ?thesis by simp
    qed
  qed
qed

function copy_chunked :: "nat \<Rightarrow> conn \<Rightarrow> (io_error + nat) \<times> conn" where
  "copy_chunked tot s =
     (case copy_chunk s of
        (Inl e, s') \<Rightarrow> (Inl e, s')
      | (Inr (Inr n), s') \<Rightarrow> (Inr (tot + n), s')
      | (Inr (Inl n), s') \<Rightarrow> copy_chunked (tot + n) s')"
  by pat_completeness auto
termination
  by (relation "measure (\<lambda>(tot, s). stream_size s)") (auto dest!: copy_chunk_size [OF sym])

declare copy_chunked.simps [simp del]

lemma shrinking_copy_chunked [intro, simp]: "shrinking (copy_chunked tot)"
proof -
  have "copy_chunked tot s = (x, s') \<Longrightarrow> stream_size s' \<le> stream_size s" for s x s'
  proof (induction tot s rule: copy_chunked.induct)
    case (1 tot s)
    obtain y s1 where c: "copy_chunk s = (y, s1)" by (cases "copy_chunk s")
    with copy_chunk_size have "stream_size s1 \<le> stream_size s" by blast
    with 1 c show ?case
      by (simp add: copy_chunked.simps [of tot s]) (fastforce split: sum.splits)
  qed
  then show ?thesis by (simp add: shrinking_def)
qed

text \<open>
  One round of the loop of \<open>forward_requests\<close>: the client's next request is handled and the loop
  goes on with the new total (\<open>Again\<close>), or the function returns (\<open>Finished\<close>).  The shares asked of
  the engine are collected in order.
\<close>

datatype round = Again nat | Finished nat

definition head_probe :: "bytes \<Rightarrow> nat option option" where
  "head_probe b =
     (case find_head_end b of
        Some p \<Rightarrow> Some (Some p)
      | None \<Rightarrow> if length b > MAX_HEAD then Some None else None)"

definition finish_with :: "nat io \<Rightarrow> round io" where
  "finish_with m = bind_io m (\<lambda>n. return_io (Finished n))"

definition after_request :: "head \<Rightarrow> nat \<Rightarrow> round io" where
  "after_request h tot =
     (if upgrade h then finish_with (raw_tail tot) else return_io (Again tot))"

text \<open>Reading a body to rewrite: exactly \<open>len\<close> bytes into the buffer, at most 64 KiB at a time.\<close>

function read_body :: "nat \<Rightarrow> conn \<Rightarrow> (io_error + unit) \<times> conn" where
  "read_body len s =
     (if length (buf s) < len then
        (case read_some (min (len - length (buf s)) 65536) (src s) of
           (Inl e, r) \<Rightarrow> (Inl e, s\<lparr>src := r\<rparr>)
         | (Inr c, r) \<Rightarrow>
             if c = [] then (Inl UnexpectedEof, s\<lparr>src := r\<rparr>)
             else read_body len (s\<lparr>buf := buf s @ c, src := r\<rparr>))
      else (Inr (), s))"
  by pat_completeness auto
termination
  by (relation "measure (\<lambda>(len, s). rd_size (src s))") (auto dest: read_some_decreases [OF sym])

declare read_body.simps [simp del]

definition forward_create ::
  "json_codec \<Rightarrow> bytes \<Rightarrow> nat \<Rightarrow> nat \<Rightarrow> conn \<Rightarrow> (io_error + nat) \<times> conn \<times> string list" where
  "forward_create js head_bytes len tot s =
     (case read_body len s of
        (Inl e, s1) \<Rightarrow> (Inl e, s1, [])
      | (Inr _, s1) \<Rightarrow>
          (case rewrite_create_body js (take len (buf s1)) of
             (body, drives) \<Rightarrow>
               let new_head = set_content_length head_bytes (length body)
               in (case bind_io (write_io new_head) (\<lambda>_. bind_io (write_io body)
                           (\<lambda>_. return_io (tot + (length new_head + length body)))) (drop_buf len s1) of
                     (x, s2) \<Rightarrow> (x, s2, map (\<lambda>d. d @ [CHR '':'', CHR 0x5C]) drives))))"

definition forward_plain :: "head \<Rightarrow> bytes \<Rightarrow> nat \<Rightarrow> nat io" where
  "forward_plain h head_bytes tot =
     bind_io (write_io head_bytes) (\<lambda>_.
       (case content_length h of
          Some len \<Rightarrow> bind_io (copy_exact len) (\<lambda>n. return_io (tot + length head_bytes + n))
        | None \<Rightarrow>
            if chunked h
            then bind_io (copy_chunked 0) (\<lambda>n. return_io (tot + length head_bytes + n))
            else return_io (tot + length head_bytes)))"

definition with_shares :: "'a io \<Rightarrow> conn \<Rightarrow> string list \<Rightarrow> (io_error + 'a) \<times> conn \<times> string list" where
  "with_shares m s shares = (case m s of (x, s') \<Rightarrow> (x, s', shares))"

definition must_rewrite :: "head \<Rightarrow> bool" where
  "must_rewrite h \<longleftrightarrow> is_create_container h
     \<and> (case content_length h of Some n \<Rightarrow> n \<le> MAX_REWRITE_BODY | None \<Rightarrow> False)"

definition forward_one ::
  "json_codec \<Rightarrow> nat \<Rightarrow> conn \<Rightarrow> (io_error + round) \<times> conn \<times> string list" where
  "forward_one js tot s =
     (case fill_io head_probe 16384 s of
        (Inl e, s1) \<Rightarrow> (Inl e, s1, [])
      | (Inr (Inl _), s1) \<Rightarrow>
          with_shares (bind_io (flush_buf (length (buf s1))) (\<lambda>_. return_io (Finished tot))) s1 []
      | (Inr (Inr None), s1) \<Rightarrow> with_shares (finish_with (raw_tail tot)) s1 []
      | (Inr (Inr (Some head_end)), s1) \<Rightarrow>
          let head_bytes = take head_end (buf s1); s2 = drop_buf head_end s1
          in (case parse_head head_bytes of
                None \<Rightarrow>
                  with_shares (bind_io (write_io head_bytes)
                    (\<lambda>_. finish_with (raw_tail (tot + length head_bytes)))) s2 []
              | Some h \<Rightarrow>
                  if must_rewrite h then
                    (case forward_create js head_bytes (the (content_length h)) tot s2 of
                       (Inl e, s3, shares) \<Rightarrow> (Inl e, s3, shares)
                     | (Inr tot', s3, shares) \<Rightarrow> with_shares (after_request h tot') s3 shares)
                  else with_shares
                         (bind_io (forward_plain h head_bytes tot) (\<lambda>t. after_request h t)) s2 []))"

lemma find_head_end_bounds: "find_head_end b = Some p \<Longrightarrow> 4 \<le> p \<and> p \<le> length b"
  by (auto simp: find_head_end_def find_head_end_from_def CRLF_def dest: find_sub_Some)

lemma head_probe_bounds: "head_probe b = Some (Some p) \<Longrightarrow> 4 \<le> p \<and> p \<le> length b"
  by (auto simp: head_probe_def split: option.splits if_splits dest: find_head_end_bounds)

lemma shrinking_copy [intro, simp]: "shrinking copy_io"
proof -
  have "copy_all r w = (x, r', w') \<Longrightarrow> rd_size r' \<le> rd_size r" for r w x r' w'
  proof (induction r w arbitrary: x r' w' rule: copy_all.induct)
    case (1 r w)
    obtain y r1 where rd: "read_some 8192 r = (y, r1)" by (cases "read_some 8192 r")
    then have le: "rd_size r1 \<le> rd_size r" by (rule read_some_le)
    show ?case
    proof (cases "\<exists>c u w1. y = Inr c \<and> c \<noteq> [] \<and> write_all c w = (Inr u, w1)")
      case False
      with "1.prems" rd le show ?thesis
        by (auto simp: copy_all.simps [of r w] split: sum.splits prod.splits if_splits)
    next
      case True
      then obtain c u w1 where y: "y = Inr c" "c \<noteq> []" "write_all c w = (Inr u, w1)" by blast
      obtain z r2 w2 where rec: "copy_all r1 w1 = (z, r2, w2)" by (metis prod_cases3)
      have "rd_size r2 \<le> rd_size r1"
        by (rule "1.IH" [OF rd [symmetric] y(1) y(2) y(3) [symmetric] refl rec])
      with "1.prems" rd y rec le show ?thesis
        by (auto simp: copy_all.simps [of r w] split: sum.splits)
    qed
  qed
  then show ?thesis
    by (auto simp: shrinking_def copy_io_def stream_size_def split: prod.splits)
qed

lemma shrinking_raw_tail [intro, simp]: "shrinking (raw_tail tot)"
proof -
  have "shrinking (bind_io (flush_buf k) (\<lambda>_. bind_io copy_io (\<lambda>n. return_io (tot + k + n))))" for k
    by auto
  then show ?thesis by (simp add: shrinking_def raw_tail_def)
qed

lemma shrinking_after_request [intro, simp]: "shrinking (after_request h tot)"
  by (auto simp: after_request_def finish_with_def)

lemma shrinking_forward_plain [intro, simp]: "shrinking (forward_plain h hb tot)"
  unfolding forward_plain_def by (auto split: option.splits)

lemma read_body_size:
  "read_body len s = (x, s') \<Longrightarrow> stream_size s' \<le> stream_size s"
proof (induction len s rule: read_body.induct)
  case (1 len s)
  obtain y r where rd: "read_some (min (len - length (buf s)) 65536) (src s) = (y, r)"
    by (cases "read_some (min (len - length (buf s)) 65536) (src s)")
  then have "rd_size r \<le> rd_size (src s)" by (rule read_some_le)
  with 1 rd show ?case
    by (simp add: read_body.simps [of len s])
       (fastforce simp: stream_size_def split: if_splits sum.splits dest: read_some_size)
qed

lemma forward_create_size:
  "forward_create js hb len tot s = (x, s', sh) \<Longrightarrow> stream_size s' \<le> stream_size s"
proof -
  assume st: "forward_create js hb len tot s = (x, s', sh)"
  obtain y s1 where rb: "read_body len s = (y, s1)" by (cases "read_body len s")
  have le: "stream_size s1 \<le> stream_size s" using rb by (rule read_body_size)
  have dr: "stream_size (drop_buf len s1) \<le> stream_size s1"
    by (simp add: drop_buf_def stream_size_def)
  have "shrinking (bind_io (write_io a) (\<lambda>_. bind_io (write_io b) (\<lambda>_. return_io n)))"
    for a b and n :: nat by blast
  then have "stream_size s2 \<le> stream_size (drop_buf len s1)"
    if "bind_io (write_io a) (\<lambda>_. bind_io (write_io b) (\<lambda>_. return_io n)) (drop_buf len s1) = (z, s2)"
    for a b z s2 and n :: nat using that by (rule shrinkingD)
  with st rb le dr show ?thesis
    by (fastforce simp: forward_create_def Let_def split: sum.splits prod.splits)
qed

lemma forward_one_size:
  assumes "forward_one js tot s = (Inr (Again t), s', sh)"
  shows "stream_size s' < stream_size s"
proof -
  obtain y s1 where f: "fill_io head_probe 16384 s = (y, s1)"
    by (cases "fill_io head_probe 16384 s")
  have le: "stream_size s1 \<le> stream_size s" using f by (rule shrinkingD [OF shrinking_fill])
  have not_again: "with_shares (bind_io m (\<lambda>_. finish_with n)) z [] \<noteq> (Inr (Again t), s', sh)"
    "with_shares (finish_with n) z [] \<noteq> (Inr (Again t), s', sh)"
    "with_shares (bind_io m (\<lambda>_. return_io (Finished k))) z [] \<noteq> (Inr (Again t), s', sh)"
    for m :: "unit io" and n z k
    by (auto simp: with_shares_def finish_with_def bind_io_eq return_io_def split: prod.splits)
  from assms f not_again obtain p where y: "y = Inr (Inr (Some p))"
    by (auto simp: forward_one_def split: sum.splits option.splits)
  have p: "4 \<le> p" "p \<le> length (buf s1)"
    using f y fill_io_answer [of head_probe 16384 s "Some p" s1] head_probe_bounds by blast+
  let ?s2 = "drop_buf p s1"
  have lt: "stream_size ?s2 < stream_size s1"
    using p by (simp add: drop_buf_def stream_size_def)
  from assms f y not_again obtain h where h: "parse_head (take p (buf s1)) = Some h"
    by (cases "parse_head (take p (buf s1))") (auto simp: forward_one_def Let_def)
  have "stream_size s' \<le> stream_size ?s2"
  proof (cases "must_rewrite h")
    case True
    obtain z s3 sh3 where fc:
      "forward_create js (take p (buf s1)) (the (content_length h)) tot ?s2 = (z, s3, sh3)"
      by (metis prod_cases3)
    with assms f y h True obtain t' where "after_request h t' s3 = (Inr (Again t), s')"
      by (auto simp: forward_one_def with_shares_def Let_def split: sum.splits prod.splits)
    then have "stream_size s' \<le> stream_size s3" by (rule shrinkingD [OF shrinking_after_request])
    with forward_create_size [OF fc] show ?thesis by simp
  next
    case False
    with assms f y h have
      "bind_io (forward_plain h (take p (buf s1)) tot) (\<lambda>t. after_request h t) ?s2 = (Inr (Again t), s')"
      by (auto simp: forward_one_def with_shares_def Let_def split: prod.splits)
    then show ?thesis by (rule shrinkingD [rotated]) auto
  qed
  with lt le show ?thesis by simp
qed

function forward_requests ::
  "json_codec \<Rightarrow> nat \<Rightarrow> conn \<Rightarrow> (io_error + nat) \<times> conn \<times> string list" where
  "forward_requests js tot s =
     (case forward_one js tot s of
        (Inl e, s', shares) \<Rightarrow> (Inl e, s', shares)
      | (Inr (Finished n), s', shares) \<Rightarrow> (Inr n, s', shares)
      | (Inr (Again t), s', shares) \<Rightarrow>
          (case forward_requests js t s' of (x, s'', later) \<Rightarrow> (x, s'', shares @ later)))"
  by pat_completeness auto
termination
  by (relation "measure (\<lambda>(js, tot, s). stream_size s)") (auto dest: forward_one_size [OF sym])

declare forward_requests.simps [simp del]

end
