(* ===== verification/Host_Paths.thy ===== *)
theory Host_Paths
  imports Docker_Proxy
begin

text \<open>
  Windows paths seen from the machine.  Two translations exist: the one of the Docker proxy
  (\<open>translate_host_path\<close>) and the one of the commands that run in a directory
  (\<open>crates/solon-core/src/ipc.rs\<close>, \<open>guest_path_for\<close>).  The locale states what the engine relies on,
  whichever is used: the share to mount and the place below it.
\<close>

function trim_start_pattern :: "string \<Rightarrow> string \<Rightarrow> string" where
  "trim_start_pattern p s =
     (if p \<noteq> [] \<and> prefix p s then trim_start_pattern p (drop (length p) s) else s)"
  by pat_completeness auto
termination
  by (relation "measure (\<lambda>(p, s). length s)") (auto simp: prefix_def)

declare trim_start_pattern.simps [simp del]

lemma trim_start_pattern_stop: "\<not> prefix p s \<Longrightarrow> trim_start_pattern p s = s"
  by (subst trim_start_pattern.simps) simp

definition guest_path_for :: "string \<Rightarrow> (string \<times> string) option" where
  "guest_path_for host_path =
     (let trimmed = trim_start_pattern [CHR 0x5C, CHR 0x5C, CHR ''?'', CHR 0x5C] (trim host_path)
      in (case trimmed of
            [] \<Rightarrow> None
          | c # cs \<Rightarrow>
              let letter = ascii_lower c
              in if \<not> is_ascii_alphabetic letter then None
                 else (case cs of
                         [] \<Rightarrow> None
                       | d # ds \<Rightarrow>
                           if d \<noteq> CHR '':'' then None
                           else let rest = trim_start_matches (CHR ''/'')
                                             (replace_byte (CHR 0x5C) (CHR ''/'') ds);
                                    guest = (if rest = [] then ''/mnt/host/'' @ [letter]
                                             else ''/mnt/host/'' @ [letter] @ ''/'' @ rest)
                                in Some ([letter], guest))))"

section \<open>The contract\<close>

definition drive_name :: "string \<Rightarrow> bool" where
  "drive_name d \<longleftrightarrow> (\<exists>c. d = [c] \<and> 97 \<le> code c \<and> code c \<le> 122)"

definition below :: "string \<Rightarrow> string \<Rightarrow> bool" where
  "below root p \<longleftrightarrow> (\<exists>r. p = root @ r \<and> (r = [] \<or> hd r = CHR ''/''))"

locale host_path_translator =
  fixes translate :: "string \<Rightarrow> (string \<times> string) option"
  assumes drive: "translate s = Some (d, g) \<Longrightarrow> drive_name d"
    and guest: "translate s = Some (d, g) \<Longrightarrow> below (''/mnt/host/'' @ d) g"
    and slashes: "translate s = Some (d, g) \<Longrightarrow> CHR 0x5C \<notin> set g"
    and machine_paths: "below ''/mnt/host'' p \<Longrightarrow> translate p = None"
begin

lemma guest_below_root: "translate s = Some (d, g) \<Longrightarrow> below ''/mnt/host'' g"
  using guest [of s d g] by (auto simp: below_def)

lemma translated_once: "translate s = Some (d, g) \<Longrightarrow> translate g = None"
  using guest_below_root machine_paths by blast

lemma drive_decides_share:
  assumes "translate s = Some (d, g)" "translate s' = Some (d', g')" "g = g'"
  shows "d = d'"
proof -
  obtain r r' where "g = ''/mnt/host/'' @ d @ r" "g' = ''/mnt/host/'' @ d' @ r'"
    using guest [OF assms(1)] guest [OF assms(2)] by (auto simp: below_def)
  with assms(3) drive [OF assms(1)] drive [OF assms(2)] show ?thesis
    by (auto simp: drive_name_def)
qed

end

lemma ascii_lower_alphabetic:
  "is_ascii_alphabetic c \<Longrightarrow> 97 \<le> code (ascii_lower c) \<and> code (ascii_lower c) \<le> 122"
  by (auto simp: is_ascii_alphabetic_def code_ascii_lower)

lemma replace_byte_gone: "a \<noteq> b \<Longrightarrow> a \<notin> set (replace_byte a b s)"
  by (auto simp: replace_byte_def)

lemma set_trim_end_matches: "set (trim_end_matches c s) \<subseteq> set s"
  by (auto simp: trim_end_matches_def dest: set_dropWhileD)

lemma set_trim_start_matches: "set (trim_start_matches c s) \<subseteq> set s"
  by (auto simp: trim_start_matches_def dest: set_dropWhileD)

lemma prefix_trim_end_matches: "prefix (trim_end_matches c s) s"
  by (simp add: trim_end_matches_def prefix_def)
     (metis rev_append rev_rev_ident takeWhile_dropWhile_id)

lemma lower_not_backslash: "CHR 0x5C = ascii_lower c \<Longrightarrow> \<not> is_ascii_alphabetic c"
  using ascii_lower_alphabetic [of c] by (auto dest!: arg_cong [of _ _ code])

lemma drive_and_rest_letter:
  "drive_and_rest s = Some (c, rest) \<Longrightarrow> 97 \<le> code c \<and> code c \<le> 122 \<and> CHR 0x5C \<noteq> c"
  by (auto dest!: lower_not_backslash simp: drive_and_rest_def is_drive_colon_def Let_def ascii_lower_alphabetic split: if_splits)

lemma translate_host_path_cases:
  assumes "translate_host_path s = Some (d, g)"
  obtains c rest r where "drive_and_rest s = Some (c, rest)" "d = [c]" "g = ''/mnt/host/'' @ [c] @ r"
    "r = [] \<or> hd r = CHR ''/''" "CHR 0x5C \<notin> set r"
proof -
  from assms obtain c rest where cr: "drive_and_rest s = Some (c, rest)"
    by (auto simp: translate_host_path_def split: option.splits)
  let ?r1 = "replace_byte (CHR 0x5C) (CHR ''/'') rest"
  let ?r2 = "if ?r1 = [] then ''/'' else ?r1"
  let ?r3 = "if prefix ''/'' ?r2 then ?r2 else CHR ''/'' # ?r2"
  let ?r = "trim_end_matches (CHR ''/'') ?r3"
  have dg: "d = [c]" "g = ''/mnt/host/'' @ [c] @ ?r"
    using assms cr by (auto simp: translate_host_path_def Let_def split del: if_split)
  have hd3: "hd ?r3 = CHR ''/'' \<and> ?r3 \<noteq> []" by (auto simp: prefix_def)
  have "?r = [] \<or> hd ?r = CHR ''/''"
    using prefix_trim_end_matches [of "CHR ''/''" ?r3] hd3 by (cases ?r; cases ?r3) auto
  moreover have "CHR 0x5C \<notin> set ?r3"
    using replace_byte_gone [of "CHR 0x5C" "CHR ''/''" rest] by auto
  then have "CHR 0x5C \<notin> set ?r" using set_trim_end_matches by blast
  ultimately show thesis using that cr dg by blast
qed

lemma drive_and_rest_machine: "below ''/mnt/host'' p \<Longrightarrow> drive_and_rest p = None"
  by (auto simp: below_def drive_and_rest_def is_drive_colon_def trim_start_matches_def is_ascii_alphabetic_def)

interpretation binds: host_path_translator translate_host_path
proof
  fix s d g assume "translate_host_path s = Some (d, g)"
  then show "drive_name d" "below (''/mnt/host/'' @ d) g" "CHR 0x5C \<notin> set g"
    by (auto elim!: translate_host_path_cases simp: drive_name_def below_def dest: drive_and_rest_letter)
next
  fix p :: string assume "below ''/mnt/host'' p"
  then show "translate_host_path p = None"
    by (simp add: translate_host_path_def drive_and_rest_machine)
qed

lemma prefix_trim_end: "prefix (trim_end s) s"
  using trim_by_suffix [of "map rev ws_encodings" "rev s"] by (simp add: trim_end_def suffix_to_prefix)

lemma trim_slash: "trim (CHR ''/'' # s) = [] \<or> (\<exists>t. trim (CHR ''/'' # s) = CHR ''/'' # t)"
proof -
  have "trim_start (CHR ''/'' # s) = CHR ''/'' # s"
    by (simp add: trim_start_def trim_by.simps graphic_no_ws_head graphic_def)
  then show ?thesis
    using prefix_trim_end [of "CHR ''/'' # s"]
    by (cases "trim (CHR ''/'' # s)") (auto simp: trim_def)
qed

lemma guest_path_for_cases:
  assumes "guest_path_for s = Some (d, g)"
  obtains c r where "d = [ascii_lower c]" "is_ascii_alphabetic (ascii_lower c)"
    "g = ''/mnt/host/'' @ d @ r" "r = [] \<or> hd r = CHR ''/''" "CHR 0x5C \<notin> set r"
proof -
  from assms obtain c ds where t:
      "trim_start_pattern [CHR 0x5C, CHR 0x5C, CHR ''?'', CHR 0x5C] (trim s) = c # CHR '':'' # ds"
    and c: "is_ascii_alphabetic (ascii_lower c)"
    by (auto simp: guest_path_for_def Let_def split: list.splits if_splits)
  then have d: "d = [ascii_lower c]"
    and g: "g = (let rest = trim_start_matches (CHR ''/'') (replace_byte (CHR 0x5C) (CHR ''/'') ds)
                 in if rest = [] then ''/mnt/host/'' @ d else ''/mnt/host/'' @ d @ ''/'' @ rest)"
    using assms by (auto simp: guest_path_for_def Let_def split: if_splits)
  let ?rest = "trim_start_matches (CHR ''/'') (replace_byte (CHR 0x5C) (CHR ''/'') ds)"
  have "CHR 0x5C \<notin> set ?rest"
    using replace_byte_gone [of "CHR 0x5C" "CHR ''/''" ds] set_trim_start_matches by blast
  with that [of c "if ?rest = [] then [] else CHR ''/'' # ?rest"] c d g show thesis
    by (auto simp: Let_def split: if_splits)
qed

lemma lower_alphabetic_code:
  "is_ascii_alphabetic (ascii_lower c) \<Longrightarrow>
     97 \<le> code (ascii_lower c) \<and> code (ascii_lower c) \<le> 122 \<and> CHR 0x5C \<noteq> ascii_lower c"
  using ascii_lower_alphabetic [of "ascii_lower c"] lower_not_backslash [of "ascii_lower c"] by auto

interpretation shells: host_path_translator guest_path_for
proof
  fix s d g assume "guest_path_for s = Some (d, g)"
  then show "drive_name d" "below (''/mnt/host/'' @ d) g" "CHR 0x5C \<notin> set g"
    by (auto elim!: guest_path_for_cases simp: drive_name_def below_def dest!: lower_alphabetic_code)
next
  fix p :: string assume "below ''/mnt/host'' p"
  then obtain t where "p = CHR ''/'' # t" by (auto simp: below_def)
  then show "guest_path_for p = None"
    using trim_slash [of t]
    by (auto simp: guest_path_for_def trim_start_pattern_stop is_ascii_alphabetic_def ascii_lower_def)
qed


section \<open>Properties\<close>

text \<open>
  The two translations agree: for a drive path that neither starts nor ends its part below
  the drive with a separator, a bind mount and a shell opened in that directory name the same share
  and the same place of the machine.
\<close>

theorem translations_agree:
  assumes "is_ascii_alphabetic c" "rest \<noteq> []" "graphic (last rest)"
    and "hd rest \<notin> {CHR ''/'', CHR 0x5C}" "last rest \<notin> {CHR ''/'', CHR 0x5C}"
  shows "guest_path_for ([c, CHR '':'', CHR 0x5C] @ rest) = translate_host_path ([c, CHR '':'', CHR 0x5C] @ rest)
       \<and> translate_host_path ([c, CHR '':'', CHR 0x5C] @ rest)
           = Some ([ascii_lower c], ''/mnt/host/'' @ [ascii_lower c] @ ''/'' @ replace_byte (CHR 0x5C) (CHR ''/'') rest)"
proof -
  let ?p = "[c, CHR '':'', CHR 0x5C] @ rest"
  let ?r = "replace_byte (CHR 0x5C) (CHR ''/'') rest"
  have gc: "graphic c" using assms(1) by (auto simp: is_ascii_alphabetic_def graphic_def)
  have tr: "trim ?p = ?p" using assms(2,3) gc by (intro trim_graphic) auto
  have "c \<noteq> CHR 0x5C" using assms(1) by (auto simp: is_ascii_alphabetic_def)
  then have tp: "trim_start_pattern [CHR 0x5C, CHR 0x5C, CHR ''?'', CHR 0x5C] ?p = ?p"
    by (simp add: trim_start_pattern_stop)
  have al: "is_ascii_alphabetic (ascii_lower c)"
    using ascii_lower_alphabetic [OF assms(1)] by (simp add: is_ascii_alphabetic_def)
  have r: "?r \<noteq> []" "hd ?r \<noteq> CHR ''/''" "last ?r \<noteq> CHR ''/''"
    using assms(2,4,5) by (auto simp: replace_byte_def hd_map last_map)
  have ts: "trim_start_matches (CHR ''/'') (CHR ''/'' # ?r) = ?r"
    using r by (cases ?r) (auto simp: trim_start_matches_def)
  have te: "trim_end_matches (CHR ''/'') (CHR ''/'' # ?r) = CHR ''/'' # ?r"
    using r by (cases ?r rule: rev_cases) (auto simp: trim_end_matches_def)
  have rb: "replace_byte (CHR 0x5C) (CHR ''/'') (CHR 0x5C # rest) = CHR ''/'' # ?r"
    by (simp add: replace_byte_def)
  have "guest_path_for ?p = Some ([ascii_lower c], ''/mnt/host/'' @ [ascii_lower c] @ ''/'' @ ?r)"
    using tp al ts r rb by (simp add: guest_path_for_def Let_def tr [simplified])
  moreover have "translate_host_path ?p = Some ([ascii_lower c], ''/mnt/host/'' @ [ascii_lower c] @ ''/'' @ ?r)"
    using assms(1) te rb by (simp add: translate_host_path_def drive_and_rest_def is_drive_colon_def)
  ultimately show ?thesis by simp
qed

theorem translations_agree_witness:
  "guest_path_for (''C:'' @ [CHR 0x5C] @ ''Users'') = translate_host_path (''C:'' @ [CHR 0x5C] @ ''Users'')
   \<and> translate_host_path (''C:'' @ [CHR 0x5C] @ ''Users'') = Some (''c'', ''/mnt/host/c/Users'')"
proof -
  have "ascii_lower (CHR ''C'') = CHR ''c''" by code_simp
  with translations_agree [of "CHR ''C''" "''Users''"] show ?thesis
    by (simp add: is_ascii_alphabetic_def graphic_def replace_byte_def)
qed

text \<open>
  Whatever path a bind mount or a shell names, the translated path lies below the share of its
  drive, a lower-case letter, has no backslash left, and is not a host path again: translating
  what was translated changes nothing.
\<close>

theorem translated_paths_stay_in_share:
  assumes "translate_host_path s = Some (d, g) \<or> guest_path_for s = Some (d, g)"
  shows "drive_name d \<and> below (''/mnt/host/'' @ d) g \<and> CHR 0x5C \<notin> set g
       \<and> translate_host_path g = None \<and> guest_path_for g = None"
  using assms binds.drive binds.guest binds.slashes binds.guest_below_root binds.machine_paths
    shells.drive shells.guest shells.slashes shells.guest_below_root shells.machine_paths
  by metis

theorem translated_paths_stay_in_share_witness:
  "translate_host_path ''/c/Users/x'' = Some (''c'', ''/mnt/host/c/Users/x'')
   \<and> below ''/mnt/host/c'' ''/mnt/host/c/Users/x'' \<and> translate_host_path ''/mnt/host/c/Users/x'' = None"
proof -
  have "translate_host_path ''/c/Users/x'' = Some (''c'', ''/mnt/host/c/Users/x'')" by code_simp
  with translated_paths_stay_in_share [of "''/c/Users/x''" "''c''" "''/mnt/host/c/Users/x''"]
  show ?thesis by simp
qed

end
