(* ===== verification/Create_Body.thy ===== *)
theory Create_Body
  imports Host_Paths
begin

text \<open>
  What the rewriting of a \<open>containers/create\<close> body does to the JSON: the specification maps the
  translation over the binds and the bind mounts, and lists the drives they name.
\<close>

section \<open>Specification\<close>

definition bind_rewrite :: "json \<Rightarrow> (string \<times> string) option" where
  "bind_rewrite b = (case b of JString s \<Rightarrow> rewrite_bind s | _ \<Rightarrow> None)"

definition spec_bind :: "json \<Rightarrow> json" where
  "spec_bind b = (case bind_rewrite b of Some (d, r) \<Rightarrow> JString r | None \<Rightarrow> b)"

definition spec_mount :: "json \<Rightarrow> json" where
  "spec_mount m = (case bind_source m of Some (d, g) \<Rightarrow> obj_set ''Source'' (JString g) m | None \<Rightarrow> m)"

fun elements :: "json option \<Rightarrow> json list" where
  "elements (Some (JArray xs)) = xs"
| "elements _ = []"

definition map_array :: "(json \<Rightarrow> json) \<Rightarrow> string \<Rightarrow> json \<Rightarrow> json" where
  "map_array f k j = (case obj_get k j of Some (JArray xs) \<Rightarrow> obj_set k (JArray (map f xs)) j | _ \<Rightarrow> j)"

definition spec_host_config :: "json \<Rightarrow> json" where
  "spec_host_config hc = map_array spec_mount ''Mounts'' (map_array spec_bind ''Binds'' hc)"

definition drives_named :: "json \<Rightarrow> string list" where
  "drives_named hc =
     map fst (List.map_filter bind_rewrite (elements (obj_get ''Binds'' hc)))
     @ map fst (List.map_filter bind_source (elements (obj_get ''Mounts'' hc)))"

section \<open>The loops\<close>

lemma rewrite_binds_spec:
  "rewrite_binds bs ds ch
     = (map spec_bind bs, fold add_drive (map fst (List.map_filter bind_rewrite bs)) ds,
        ch \<or> List.map_filter bind_rewrite bs \<noteq> [])"
proof (induction bs arbitrary: ds ch)
  case (Cons b bs)
  have "rewrite_binds (b # bs) ds ch =
     (case bind_rewrite b of
        Some (drive, rewritten) \<Rightarrow>
          (case rewrite_binds bs (add_drive drive ds) True of
             (bs', ds', ch') \<Rightarrow> (JString rewritten # bs', ds', ch'))
      | None \<Rightarrow>
          (case rewrite_binds bs ds ch of (bs', ds', ch') \<Rightarrow> (b # bs', ds', ch')))"
    by (simp add: bind_rewrite_def)
  with Cons show ?case
    by (auto simp: spec_bind_def map_filter_simps split: option.splits)
qed (simp add: map_filter_simps)

lemma rewrite_mounts_spec:
  "rewrite_mounts ms ds ch
     = (map spec_mount ms, fold add_drive (map fst (List.map_filter bind_source ms)) ds,
        ch \<or> List.map_filter bind_source ms \<noteq> [])"
  by (induction ms arbitrary: ds ch) (auto simp: spec_mount_def map_filter_simps split: option.splits)

lemma rewrite_host_config_spec:
  "rewrite_host_config hc
     = (spec_host_config hc, fold add_drive (drives_named hc) [], drives_named hc \<noteq> [])"
proof -
  have 1: "(case obj_get ''Binds'' hc of
           Some (JArray binds) \<Rightarrow>
             (case rewrite_binds binds [] False of
                (bs, ds, ch) \<Rightarrow> (obj_set ''Binds'' (JArray bs) hc, ds, ch))
         | _ \<Rightarrow> (hc, [], False))
     = (map_array spec_bind ''Binds'' hc,
        fold add_drive (map fst (List.map_filter bind_rewrite (elements (obj_get ''Binds'' hc)))) [],
        List.map_filter bind_rewrite (elements (obj_get ''Binds'' hc)) \<noteq> [])"
    by (auto simp: rewrite_binds_spec map_array_def map_filter_simps split: option.splits json.splits)
  have 2: "obj_get ''Mounts'' (map_array spec_bind ''Binds'' hc) = obj_get ''Mounts'' hc"
    by (auto simp: map_array_def obj_get_set_other split: option.splits json.splits)
  show ?thesis
    unfolding rewrite_host_config_def 1 Let_def
    by (auto simp: 2 rewrite_mounts_spec drives_named_def spec_host_config_def map_array_def [of spec_mount]
        map_filter_simps split: option.splits json.splits)
qed

lemma set_fold_add_drive: "set (fold add_drive ds acc) = set acc \<union> set ds"
  by (induction ds arbitrary: acc) (auto simp: add_drive_def)

lemma distinct_fold_add_drive: "distinct acc \<Longrightarrow> distinct (fold add_drive ds acc)"
  by (induction ds arbitrary: acc) (auto simp: add_drive_def)

section \<open>Rewriting twice\<close>

lemma machine_bind_untouched:
  assumes "prefix ''/mnt/host/'' r"
  shows "rewrite_bind r = None"
proof -
  from assms obtain t where r: "r = ''/mnt/host/'' @ t" by (auto simp: prefix_def)
  have "translate_host_path (take k r) = None" if k: "find_byte (\<lambda>c. c = CHR '':'') r = Some k" for k
  proof -
    from k obtain i where "k = Suc (Suc (Suc (Suc (Suc (Suc (Suc (Suc (Suc (Suc i)))))))))"
      by (auto simp: r)
    then have "take k r = ''/mnt/host'' @ CHR ''/'' # take i t" by (simp add: r)
    then have "below ''/mnt/host'' (take k r)" by (auto simp: below_def)
    then show ?thesis by (rule binds.machine_paths)
  qed
  then show ?thesis
    by (auto simp: rewrite_bind_def r is_ascii_alphabetic_def split: option.splits)
qed

lemma spec_bind_once: "bind_rewrite (spec_bind b) = None"
proof (cases "bind_rewrite b")
  case (Some x)
  then obtain d r where x: "x = (d, r)" by (cases x)
  with Some obtain s where "rewrite_bind s = Some (d, r)"
    by (auto simp: bind_rewrite_def split: json.splits)
  then obtain k g where g: "translate_host_path (take k s) = Some (d, g)" "r = g @ drop k s"
    by (auto simp: rewrite_bind_def Let_def split: option.splits)
  then have "prefix ''/mnt/host/'' r" using binds.guest [OF g(1)] by (auto simp: below_def)
  then show ?thesis using Some x machine_bind_untouched by (simp add: spec_bind_def bind_rewrite_def)
qed (simp add: spec_bind_def)

lemma spec_mount_once: "bind_source (spec_mount m) = None"
proof (cases "bind_source m")
  case (Some x)
  then obtain d g where x: "x = (d, g)" by (cases x)
  with Some obtain s where s: "obj_get ''Source'' m = Some (JString s)" "translate_host_path s = Some (d, g)"
    by (auto simp: bind_source_def split: if_splits option.splits json.splits)
  have "obj_get ''Source'' (obj_set ''Source'' (JString g) m) = Some (JString g)"
    using s(1) by (rule obj_get_set_same)
  with Some x binds.translated_once [OF s(2)] show ?thesis
    by (simp add: spec_mount_def bind_source_def)
qed (simp add: spec_mount_def)

lemma map_filter_map_None: "(\<And>x. f (g x) = None) \<Longrightarrow> List.map_filter f (map g xs) = []"
  by (induction xs) (simp_all add: map_filter_simps)

lemma elements_map_array:
  "elements (obj_get k (map_array f k j)) = map f (elements (obj_get k j))"
  by (auto simp: map_array_def obj_get_set_same split: option.splits json.splits)

lemma obj_get_map_array_other: "k \<noteq> k' \<Longrightarrow> obj_get k' (map_array f k j) = obj_get k' j"
  by (auto simp: map_array_def obj_get_set_other split: option.splits json.splits)

lemma spec_host_config_once: "drives_named (spec_host_config hc) = []"
  by (simp add: drives_named_def spec_host_config_def elements_map_array obj_get_map_array_other
      map_filter_map_None spec_bind_once spec_mount_once)

lemma spec_host_config_object: "\<exists>kvs'. spec_host_config (JObject kvs) = JObject kvs'"
  by (auto simp: spec_host_config_def map_array_def split: option.splits json.splits)

lemma rewrite_value_spec:
  "obj_get ''HostConfig'' v = Some (JObject kvs) \<Longrightarrow>
     rewrite_value v = (obj_set ''HostConfig'' (spec_host_config (JObject kvs)) v,
       fold add_drive (drives_named (JObject kvs)) [], drives_named (JObject kvs) \<noteq> [])"
  by (simp add: rewrite_value_def rewrite_host_config_spec)

lemma rewrite_value_once:
  assumes "rewrite_value v = (v', ds, True)"
  shows "\<exists>w. rewrite_value v' = (w, [], False)"
proof -
  from assms obtain kvs where hc: "obj_get ''HostConfig'' v = Some (JObject kvs)"
    by (auto simp: rewrite_value_def split: option.splits json.splits)
  from spec_host_config_object obtain kvs' where k: "spec_host_config (JObject kvs) = JObject kvs'" by blast
  have "obj_get ''HostConfig'' v' = Some (JObject kvs')"
    using assms rewrite_value_spec [OF hc] obj_get_set_same [OF hc] k by auto
  from rewrite_value_spec [OF this] spec_host_config_once [of "JObject kvs"] k show ?thesis by simp
qed

section \<open>Properties\<close>

text \<open>
  C6. A body to create a container is rewritten as specified: the binds and the bind mounts whose
  source is a Windows path name the place of the machine instead, in the same order, everything
  else is kept, and the drives to share are exactly those named, each once.
\<close>

theorem create_body_rewritten:
  assumes "from_slice js body = Some v"
    and "obj_get ''HostConfig'' v = Some (JObject kvs)" "drives_named (JObject kvs) \<noteq> []"
    and "to_vec js (obj_set ''HostConfig'' (spec_host_config (JObject kvs)) v) = Some out"
  shows "\<exists>drives. rewrite_create_body js body = (out, drives) \<and> distinct drives
           \<and> set drives = set (drives_named (JObject kvs))"
  using assms set_fold_add_drive [of "drives_named (JObject kvs)" "[]"]
    distinct_fold_add_drive [of "[]" "drives_named (JObject kvs)"]
  by (simp add: rewrite_create_body_def rewrite_value_spec)

text \<open>A JSON reader and printer that know the two texts of an example.\<close>

definition sample_json :: "string \<Rightarrow> json" where
  "sample_json b = JObject [(''Image'', JString ''nginx''),
     (''HostConfig'', JObject [(''Binds'', JArray [JString b, JString ''data:/d''])])]"

definition sample_codec :: json_codec where
  "sample_codec =
     \<lparr>from_slice = (\<lambda>b. if b = ''A'' then Some (sample_json ''C:/x:/app'')
                      else if b = ''B'' then Some (sample_json ''/mnt/host/c/x:/app'') else None),
      to_vec = (\<lambda>v. if v = sample_json ''/mnt/host/c/x:/app'' then Some ''B'' else None)\<rparr>"

lemma sample_bind: "rewrite_bind ''C:/x:/app'' = Some (''c'', ''/mnt/host/c/x:/app'')"
  "rewrite_bind ''data:/d'' = None"
  by code_simp+

theorem create_body_rewritten_witness:
  "\<exists>drives. rewrite_create_body sample_codec ''A'' = (''B'', drives) \<and> distinct drives \<and> set drives = {''c''}"
  using create_body_rewritten [of sample_codec "''A''" "sample_json ''C:/x:/app''"
      "[(''Binds'', JArray [JString ''C:/x:/app'', JString ''data:/d''])]" "''B''"]
  by (simp add: sample_codec_def sample_json_def drives_named_def map_filter_simps bind_rewrite_def
      sample_bind spec_host_config_def map_array_def spec_bind_def)

text \<open>
  Rewriting is done once: what the proxy sends to the daemon, sent through it again, is passed
  on unchanged and asks for no share.  The JSON printer is only asked to be read back.
\<close>

theorem create_body_rewritten_once:
  assumes "\<forall>v out. to_vec js v = Some out \<longrightarrow> from_slice js out = Some v"
    and "rewrite_create_body js body = (body', drives)" "drives \<noteq> []"
  shows "rewrite_create_body js body' = (body', [])"
proof -
  from assms(2,3) obtain v v' where v: "from_slice js body = Some v" "rewrite_value v = (v', drives, True)"
    "to_vec js v' = Some body'"
    by (auto simp: rewrite_create_body_def split: option.splits prod.splits if_splits)
  obtain w where "rewrite_value v' = (w, [], False)" using rewrite_value_once [OF v(2)] by blast
  with v(3) assms(1) show ?thesis by (simp add: rewrite_create_body_def)
qed

theorem create_body_rewritten_once_witness:
  "rewrite_create_body sample_codec ''A'' = (''B'', [''c'']) \<and> rewrite_create_body sample_codec ''B'' = (''B'', [])"
proof -
  have a: "rewrite_create_body sample_codec ''A'' = (''B'', [''c''])" by code_simp
  have "\<forall>v out. to_vec sample_codec v = Some out \<longrightarrow> from_slice sample_codec out = Some v"
    by (simp add: sample_codec_def)
  with a create_body_rewritten_once [of sample_codec "''A''" "''B''" "[''c'']"] show ?thesis by simp
qed

end
