(* ===== verification/Docker_Relay.thy ===== *)
theory Docker_Relay
  imports Create_Body
begin

text \<open>
  What the relay loop of the Docker API proxy guarantees: nothing is lost, repeated or reordered,
  however the client's bytes are cut into reads, and the requests that create a container reach
  the daemon rewritten and framed anew.
\<close>

section \<open>Nothing is lost\<close>

lemma copy_exact_loop_conserves:
  "copy_exact_loop n s = (x, s') \<Longrightarrow> healthy s \<Longrightarrow> n = 0 \<or> buf s = [] \<Longrightarrow>
     healthy s' \<and> flow s' = flow s \<and> prefix (sent (dst s)) (sent (dst s'))"
proof (induction n s rule: copy_exact_loop.induct)
  case (1 n s)
  show ?case
  proof (cases "n = 0")
    case True
    with "1.prems" show ?thesis by (simp add: copy_exact_loop.simps)
  next
    case False
    obtain y r where rd: "read_some (min n 65536) (src s) = (y, r)"
      by (cases "read_some (min n 65536) (src s)")
    with "1.prems"(2) obtain c where c: "y = Inr c" "no_read_errors r"
      using read_some_no_errors by (fastforce simp: healthy_def)
    with rd have p: "pending (src s) = c @ pending r" by (simp add: read_some_pending)
    let ?s1 = "s\<lparr>src := r, dst := (dst s)\<lparr>sent := sent (dst s) @ c\<rparr>\<rparr>"
    have w: "write_all c (dst s) = (Inr (), (dst s)\<lparr>sent := sent (dst s) @ c\<rparr>)"
      using "1.prems"(2) by (simp add: healthy_def)
    have b: "buf s = []" using "1.prems"(3) False by simp
    show ?thesis
    proof (cases "c = []")
      case True
      with "1.prems" rd c False p show ?thesis
        by (auto simp: copy_exact_loop.simps [of n s] healthy_def flow_def)
    next
      case nonempty: False
      with "1.prems" rd c False w have rec: "copy_exact_loop (n - length c) ?s1 = (x, s')"
        by (simp add: copy_exact_loop.simps [of n s])
      have h: "healthy ?s1" using "1.prems"(2) c by (simp add: healthy_def)
      have "healthy s' \<and> flow s' = flow ?s1 \<and> prefix (sent (dst ?s1)) (sent (dst s'))"
        by (rule "1.IH" [OF False rd [symmetric] c(1) nonempty w [symmetric] refl rec h]) (simp add: b)
      with p b show ?thesis by (auto simp: flow_def dest: append_prefixD)
    qed
  qed
qed

lemma conserving_state: "(\<And>k. conserving (f k)) \<Longrightarrow> conserving (\<lambda>s. f (g s) s)"
  by (simp add: conserving_def)

lemma flush_buf_healthy:
  "healthy s \<Longrightarrow> flush_buf n s
     = (Inr (), s\<lparr>buf := drop n (buf s), dst := (dst s)\<lparr>sent := sent (dst s) @ take n (buf s)\<rparr>\<rparr>)"
  by (cases s) (simp add: flush_buf_def write_io_def drop_buf_def healthy_def)

lemma conserving_copy_exact [intro, simp]: "conserving (copy_exact n)"
proof (rule conservingI)
  fix s x s' assume st: "copy_exact n s = (x, s')" and h: "healthy s"
  let ?k = "min n (length (buf s))"
  let ?s1 = "s\<lparr>buf := drop ?k (buf s), dst := (dst s)\<lparr>sent := sent (dst s) @ take ?k (buf s)\<rparr>\<rparr>"
  obtain y s2 where loop: "copy_exact_loop (n - ?k) ?s1 = (y, s2)" by (cases "copy_exact_loop (n - ?k) ?s1")
  have s2: "s' = s2" using st h loop
    by (auto simp: copy_exact_def Let_def bind_io_def flush_buf_healthy return_io_def split: sum.splits)
  have "healthy ?s1" "flow ?s1 = flow s" using h by (simp_all add: healthy_def flow_def)
  moreover have "n - ?k = 0 \<or> buf ?s1 = []" by auto
  ultimately show "healthy s' \<and> flow s' = flow s \<and> prefix (sent (dst s)) (sent (dst s'))"
    using copy_exact_loop_conserves [OF loop] s2 by (auto dest: append_prefixD)
qed

lemma conserving_copy_trailers [intro, simp]: "conserving copy_trailers"
  unfolding copy_trailers_def Let_def
proof (intro conserving_bind conserving_fill)
  fix a :: "fill_end + nat"
  show "conserving (\<lambda>s. bind_io (flush_buf (case a of Inl _ \<Rightarrow> length (buf s) | Inr p \<Rightarrow> p))
     (\<lambda>_. return_io (case a of Inl _ \<Rightarrow> length (buf s) | Inr p \<Rightarrow> p)) s)"
    by (rule conserving_state
         [where g = "\<lambda>s. case a of Inl _ \<Rightarrow> length (buf s) | Inr p \<Rightarrow> p"
            and f = "\<lambda>k. bind_io (flush_buf k) (\<lambda>_. return_io k)"]) auto
qed

lemma conserving_copy_chunk [intro, simp]: "conserving copy_chunk"
  unfolding copy_chunk_def
proof (intro conserving_bind conserving_fill)
  fix a :: "fill_end + nat"
  let ?rest = "\<lambda>k o' s. case o' of None \<Rightarrow> (Inl InvalidData, s)
         | Some sz \<Rightarrow> bind_io (flush_buf (k + 2)) (\<lambda>_.
                if sz = 0 then bind_io copy_trailers (\<lambda>n. return_io (Inr (k + 2 + n)))
                else bind_io (copy_exact ((sz + 2) mod 2 ^ 64)) (\<lambda>n. return_io (Inl (k + 2 + n)))) s"
  have rest: "conserving (?rest k o')" for k o'
    by (cases o') (auto simp: conserving_fail [unfolded fail_io_def])
  show "conserving (\<lambda>s. case a of Inl _ \<Rightarrow> (Inl UnexpectedEof, s)
      | Inr k \<Rightarrow> ?rest k (chunk_size_of (from_utf8_lossy (take k (buf s)))) s)"
  proof (cases a)
    case (Inr k)
    show ?thesis unfolding Inr sum.case by (rule conserving_state [OF rest])
  qed (simp add: conserving_fail [unfolded fail_io_def])
qed

lemma conserving_copy_chunked [intro, simp]: "conserving (copy_chunked tot)"
proof (rule conservingI)
  fix s x s' assume "copy_chunked tot s = (x, s')" "healthy s"
  then show "healthy s' \<and> flow s' = flow s \<and> prefix (sent (dst s)) (sent (dst s'))"
  proof (induction tot s rule: copy_chunked.induct)
    case (1 tot s)
    obtain y s1 where c: "copy_chunk s = (y, s1)" by (cases "copy_chunk s")
    then have s1: "healthy s1 \<and> flow s1 = flow s \<and> prefix (sent (dst s)) (sent (dst s1))"
      using "1.prems" by (intro conservingD [OF conserving_copy_chunk])
    show ?case
    proof (cases "\<exists>n. y = Inr (Inl n)")
      case True
      then obtain n where y: "y = Inr (Inl n)" by blast
      with "1.prems" c have "copy_chunked (tot + n) s1 = (x, s')"
        by (simp add: copy_chunked.simps [of tot s])
      with "1.IH" [OF c [symmetric] y refl] s1 show ?thesis
        by (auto intro: prefix_order.trans)
    next
      case False
      with "1.prems" c s1 show ?thesis
        by (auto simp: copy_chunked.simps [of tot s] split: sum.splits)
    qed
  qed
qed

lemma raw_tail_healthy:
  assumes "healthy s" "raw_tail tot s = (x, s')"
  shows "healthy s' \<and> flow s' = flow s \<and> sent (dst s') = flow s \<and> buf s' = [] \<and> pending (src s') = []
       \<and> prefix (sent (dst s)) (sent (dst s')) \<and> x = Inr (tot + length (buf s) + length (pending (src s)))"
proof -
  let ?s1 = "s\<lparr>buf := [], dst := (dst s)\<lparr>sent := sent (dst s) @ buf s\<rparr>\<rparr>"
  have fl: "flush_buf (length (buf s)) s = (Inr (), ?s1)"
    using assms(1) by (simp add: flush_buf_def write_io_def drop_buf_def healthy_def)
  have "healthy ?s1" using assms(1) by (simp add: healthy_def)
  then obtain r where "copy_io ?s1 = (Inr (length (pending (src s))),
      ?s1\<lparr>src := r, dst := (dst ?s1)\<lparr>sent := sent (dst ?s1) @ pending (src s)\<rparr>\<rparr>)"
    "pending r = []" "no_read_errors r"
    using copy_io_healthy [of ?s1] by auto
  with assms fl show ?thesis
    by (auto simp: raw_tail_def bind_io_def return_io_def flow_def healthy_def)
qed

lemma conserving_raw_tail [intro, simp]: "conserving (raw_tail tot)"
  by (rule conservingI) (use raw_tail_healthy in blast)

lemma write_head_flush:
  assumes "healthy s"
  shows "bind_io (write_io (take p (buf s))) f (drop_buf p s) = bind_io (flush_buf p) f s"
  using assms
  by (cases s) (simp add: bind_io_def write_io_def flush_buf_def drop_buf_def healthy_def)

section \<open>Where a request to create a container comes from\<close>

lemma fold_header_line_create:
  "is_create_container (fold header_line ls h) = is_create_container h"
proof (induction ls arbitrary: h)
  case (Cons l ls)
  have "is_create_container (header_line l h) = is_create_container h"
    by (auto simp: header_line_def Let_def split: option.splits)
  with Cons show ?case by simp
qed simp

lemma is_create_path_sublist: "is_create_path p \<Longrightarrow> sublist ''/containers/create'' p"
proof -
  assume "is_create_path p"
  then obtain k where "''/containers/create'' = drop k (hd (split_on (CHR ''?'') p))"
    by (auto simp: is_create_path_def Let_def split: if_splits option.splits)
       (metis drop_0)+
  then have "sublist ''/containers/create'' (hd (split_on (CHR ''?'') p))"
    by (metis sublist_drop)
  then show ?thesis using hd_split_on_prefix [of "CHR ''?''" p]
    by (meson prefix_imp_sublist sublist_order.order_trans)
qed

lemma create_head_sublist:
  assumes "parse_head b = Some h" "is_create_container h"
  shows "sublist ''/containers/create'' b"
proof -
  from assms(1) obtain m p v rest where w: "split_whitespace (hd (split_crlf b)) = m # p # v # rest"
    and h: "h = fold header_line (tl (split_crlf b))
                  \<lparr>is_create_container = (m = ''POST'' \<and> is_create_path p),
                   content_length = None, chunked = False, upgrade = False\<rparr>"
    by (auto simp: parse_head_def Let_def split: if_splits list.splits)
  with assms(2) have "is_create_path p" by (simp add: fold_header_line_create)
  moreover have "sublist p (hd (split_crlf b))"
    using split_ws_sublist [of p "[]"] w by (simp add: split_whitespace_def)
  ultimately show ?thesis
    using hd_split_crlf_prefix [of b] is_create_path_sublist
    by (meson prefix_imp_sublist sublist_order.order_trans)
qed


section \<open>One request\<close>

lemma conserving_finish_with [intro]: "conserving m \<Longrightarrow> conserving (finish_with m)"
  by (auto simp: finish_with_def)

lemma conserving_after_request [intro, simp]: "conserving (after_request h tot)"
  by (auto simp: after_request_def)

lemma finish_raw_tail:
  assumes "healthy s" "finish_with (raw_tail tot) s = (x, s')"
  shows "healthy s' \<and> flow s' = flow s \<and> prefix (sent (dst s)) (sent (dst s'))
       \<and> sent (dst s') = flow s \<and> (\<exists>n. x = Inr (Finished n))"
proof -
  obtain y s1 where rt: "raw_tail tot s = (y, s1)" by (cases "raw_tail tot s")
  from raw_tail_healthy [OF assms(1) rt] assms(2) rt show ?thesis
    by (auto simp: finish_with_def bind_io_def return_io_def)
qed

text \<open>
  What a step guarantees on a connection without faults: \<open>relayed\<close> holds of a step that asks for no
  share, conserves the bytes and, when it was the last, has sent them all.
\<close>

definition relayed :: "conn \<Rightarrow> (io_error + round) \<times> conn \<times> string list \<Rightarrow> bool" where
  "relayed s r = (case r of (x, s', shares) \<Rightarrow>
     shares = [] \<and> healthy s' \<and> flow s' = flow s \<and> prefix (sent (dst s)) (sent (dst s'))
     \<and> (\<forall>n. x = Inr (Finished n) \<longrightarrow> sent (dst s') = flow s))"

lemma relayed_trans:
  "healthy s1 \<Longrightarrow> flow s1 = flow s \<Longrightarrow> prefix (sent (dst s)) (sent (dst s1)) \<Longrightarrow> relayed s1 r \<Longrightarrow> relayed s r"
  by (auto simp: relayed_def intro: prefix_order.trans)

lemma relayed_raw_tail: "healthy s \<Longrightarrow> relayed s (with_shares (finish_with (raw_tail tot)) s [])"
  using finish_raw_tail [of s tot]
  by (cases "finish_with (raw_tail tot) s") (auto simp: relayed_def with_shares_def)

lemma relayed_bind:
  assumes "healthy s" "conserving m"
    and "\<And>a s1. healthy s1 \<Longrightarrow> relayed s1 (with_shares (f a) s1 [])"
  shows "relayed s (with_shares (bind_io m f) s [])"
proof -
  obtain y s1 where m: "m s = (y, s1)" by (cases "m s")
  with assms(1,2) have c: "healthy s1" "flow s1 = flow s" "prefix (sent (dst s)) (sent (dst s1))"
    using conservingD by blast+
  show ?thesis
  proof (cases y)
    case (Inl e)
    with m c show ?thesis by (simp add: relayed_def with_shares_def bind_io_def)
  next
    case (Inr a)
    with m have "with_shares (bind_io m f) s [] = with_shares (f a) s1 []"
      by (simp add: with_shares_def bind_io_def)
    with relayed_trans [OF c assms(3) [OF c(1)]] show ?thesis by simp
  qed
qed

lemma relayed_after_request: "healthy s \<Longrightarrow> relayed s (with_shares (after_request h t) s [])"
  using relayed_raw_tail [of s t]
  by (auto simp: after_request_def) (simp add: relayed_def with_shares_def return_io_def)

definition copy_body :: "head \<Rightarrow> nat io" where
  "copy_body h =
     (case content_length h of
        Some len \<Rightarrow> copy_exact len
      | None \<Rightarrow> if chunked h then copy_chunked 0 else return_io 0)"

lemma forward_plain_eq:
  "forward_plain h hb tot
     = bind_io (write_io hb) (\<lambda>_. bind_io (copy_body h) (\<lambda>n. return_io (tot + length hb + n)))"
proof -
  have "bind_io (return_io 0) (\<lambda>n. return_io (tot + length hb + n)) = return_io (tot + length hb)"
    by (rule ext) (simp add: bind_io_def return_io_def)
  then show ?thesis by (cases "content_length h") (simp_all add: forward_plain_def copy_body_def)
qed

lemma forward_one_relayed:
  assumes "healthy s" and none: "\<not> sublist ''/containers/create'' (buf s @ pending (src s))"
  shows "relayed s (forward_one js tot s)"
proof -
  obtain y s1 where f: "fill_io head_probe 16384 s = (y, s1)" by (cases "fill_io head_probe 16384 s")
  then have c: "healthy s1" "flow s1 = flow s" "prefix (sent (dst s)) (sent (dst s1))"
    using assms(1) conservingD [OF conserving_fill] by blast+
  have d: "dst s1 = dst s" using f by (auto simp: fill_io_def split: prod.splits sum.splits fill_end.splits)
  with c(2) have same: "buf s1 @ pending (src s1) = buf s @ pending (src s)" by (simp add: flow_def)
  consider (err) e where "y = Inl e" | (eof) e where "y = Inr (Inl e)" | (big) "y = Inr (Inr None)"
    | (head) p where "y = Inr (Inr (Some p))" by (metis not_None_eq sum.exhaust)
  then show ?thesis
  proof cases
    case err
    with f c show ?thesis by (simp add: forward_one_def relayed_def)
  next
    case eof
    with f assms(1) have "pending (src s1) = []"
      by (auto simp: fill_io_def healthy_def split: prod.splits sum.splits fill_end.splits dest: fill_eof)
    then have "relayed s1 (with_shares (bind_io (flush_buf (length (buf s1))) (\<lambda>_. return_io (Finished tot))) s1 [])"
      using c(1) by (simp add: relayed_def with_shares_def bind_io_def flush_buf_healthy return_io_def)
         (simp add: healthy_def flow_def)
    with relayed_trans [OF c] f eof show ?thesis by (simp add: forward_one_def)
  next
    case big
    with relayed_trans [OF c relayed_raw_tail [OF c(1)]] f show ?thesis by (simp add: forward_one_def)
  next
    case (head p)
    let ?hb = "take p (buf s1)"
    have "sublist ?hb (buf s1 @ pending (src s1))"
      by (metis append_take_drop_id append.assoc sublist_append_rightI)
    then have notin: "\<not> sublist ''/containers/create'' ?hb"
      using none unfolding same by (blast dest: sublist_order.order_trans)
    show ?thesis
    proof (cases "parse_head ?hb")
      case None
      have "relayed s1 (with_shares (bind_io (flush_buf p) (\<lambda>_. finish_with (raw_tail (tot + length ?hb)))) s1 [])"
        by (intro relayed_bind c(1) conserving_flush relayed_raw_tail)
      with relayed_trans [OF c] f head None show ?thesis
        by (simp add: forward_one_def Let_def with_shares_def write_head_flush [OF c(1)])
    next
      case (Some h)
      with notin have "\<not> must_rewrite h" using create_head_sublist by (auto simp: must_rewrite_def)
      have plain: "forward_plain h ?hb tot (drop_buf p s1)
           = bind_io (flush_buf p) (\<lambda>_. bind_io (copy_body h) (\<lambda>n. return_io (tot + length ?hb + n))) s1"
        unfolding write_head_flush [OF c(1), symmetric] forward_plain_eq ..
      have cb: "conserving (copy_body h)" by (auto simp: copy_body_def split: option.splits)
      then have "conserving (bind_io (flush_buf p) (\<lambda>_. bind_io (copy_body h) (\<lambda>n. return_io (tot + length ?hb + n))))"
        by (intro conserving_bind) auto
      then have "relayed s1 (with_shares (bind_io (bind_io (flush_buf p) (\<lambda>_. bind_io (copy_body h)
           (\<lambda>n. return_io (tot + length ?hb + n)))) (\<lambda>t. after_request h t)) s1 [])"
        by (intro relayed_bind c(1) relayed_after_request)
      moreover have "with_shares (bind_io (forward_plain h ?hb tot) (\<lambda>t. after_request h t)) (drop_buf p s1) []
          = with_shares (bind_io (bind_io (flush_buf p) (\<lambda>_. bind_io (copy_body h)
           (\<lambda>n. return_io (tot + length ?hb + n)))) (\<lambda>t. after_request h t)) s1 []"
        by (simp add: with_shares_def bind_io_def [of "forward_plain h ?hb tot"] plain)
           (simp add: bind_io_def)
      ultimately show ?thesis
        using relayed_trans [OF c] f head Some \<open>\<not> must_rewrite h\<close> by (simp add: forward_one_def Let_def)
    qed
  qed
qed


lemma forward_requests_relayed:
  "forward_requests js tot s = (x, s', sh) \<Longrightarrow> healthy s \<Longrightarrow>
     \<not> sublist ''/containers/create'' (buf s @ pending (src s)) \<Longrightarrow>
     sh = [] \<and> healthy s' \<and> flow s' = flow s \<and> prefix (sent (dst s)) (sent (dst s'))
       \<and> (\<forall>n. x = Inr n \<longrightarrow> sent (dst s') = flow s)"
proof (induction js tot s arbitrary: x s' sh rule: forward_requests.induct)
  case (1 js tot s)
  obtain y s1 sh1 where one: "forward_one js tot s = (y, s1, sh1)" by (metis prod_cases3)
  have r: "sh1 = []" "healthy s1" "flow s1 = flow s" "prefix (sent (dst s)) (sent (dst s1))"
    "\<And>n. y = Inr (Finished n) \<Longrightarrow> sent (dst s1) = flow s"
    using forward_one_relayed [OF "1.prems"(2,3), of js tot] one by (auto simp: relayed_def)
  consider (err) e where "y = Inl e" | (fin) n where "y = Inr (Finished n)" | (again) t where "y = Inr (Again t)"
    by (metis sum.exhaust round.exhaust)
  then show ?case
  proof cases
    case again
    obtain z s2 sh2 where rec: "forward_requests js t s1 = (z, s2, sh2)" by (metis prod_cases3)
    obtain u where u: "sent (dst s1) = sent (dst s) @ u" using r(4) by (auto simp: prefix_def)
    then have "buf s @ pending (src s) = u @ buf s1 @ pending (src s1)" using r(3) by (simp add: flow_def)
    then have "sublist (buf s1 @ pending (src s1)) (buf s @ pending (src s))" by simp
    then have none: "\<not> sublist ''/containers/create'' (buf s1 @ pending (src s1))"
      using "1.prems"(3) by (blast dest: sublist_order.order_trans)
    have "sh2 = [] \<and> healthy s2 \<and> flow s2 = flow s1 \<and> prefix (sent (dst s1)) (sent (dst s2))
       \<and> (\<forall>n. z = Inr n \<longrightarrow> sent (dst s2) = flow s1)"
      using "1.IH" [OF one [symmetric] again refl refl rec r(2) none] by simp
    with "1.prems"(1) one again rec r show ?thesis
      by (auto simp: forward_requests.simps [of js tot s] intro: prefix_order.trans)
  qed (use "1.prems"(1) one r in \<open>auto simp: forward_requests.simps [of js tot s]\<close>)
qed

section \<open>A request to create a container\<close>

lemma find_head_end_append: "find_head_end a = Some p \<Longrightarrow> find_head_end (a @ b) = Some p"
  by (auto simp: find_head_end_def find_head_end_from_def find_sub_append)

text \<open>A whole head at the front of the stream is found, however the stream is cut.\<close>

lemma head_probe_prefix:
  assumes "find_head_end hb = Some (length hb)" "length hb \<le> MAX_HEAD" "prefix b (hb @ t)"
  shows "head_probe b = None \<or> head_probe b = Some (Some (length hb))"
proof (cases "find_head_end b")
  case (Some p)
  from assms(3) obtain u where "hb @ t = b @ u" by (auto simp: prefix_def)
  with find_head_end_append [OF Some, of u] find_head_end_append [OF assms(1), of t]
  have "p = length hb" by simp
  with Some show ?thesis by (simp add: head_probe_def)
next
  case None
  have "length b < length hb"
  proof (rule ccontr)
    assume "\<not> length b < length hb"
    with assms(3) have "prefix hb b" by (metis not_le prefix_length_prefix prefixI)
    with find_head_end_append [OF assms(1)] None show False by (auto simp: prefix_def)
  qed
  with assms(2) None show ?thesis by (simp add: head_probe_def)
qed

lemma fill_head:
  assumes "healthy s" "buf s @ pending (src s) = hb @ t"
    and "find_head_end hb = Some (length hb)" "length hb \<le> MAX_HEAD"
  shows "\<exists>s1. fill_io head_probe 16384 s = (Inr (Inr (Some (length hb))), s1)
           \<and> healthy s1 \<and> dst s1 = dst s \<and> take (length hb) (buf s1) = hb
           \<and> drop (length hb) (buf s1) @ pending (src s1) = t"
proof -
  have "head_probe (buf s @ pending (src s)) = Some (Some (length hb))"
    using find_head_end_append [OF assms(3)] by (simp add: assms(2) head_probe_def)
  then obtain b r where f: "fill head_probe 16384 (buf s) (src s) = (Inr (Some (length hb)), b, r)"
    using fill_finds [of "buf s" "src s" head_probe "Some (length hb)" 16384]
      head_probe_prefix [OF assms(3,4)] assms(1,2) by (auto simp: healthy_def)
  then have io: "fill_io head_probe 16384 s = (Inr (Inr (Some (length hb))), s\<lparr>buf := b, src := r\<rparr>)"
    by (simp add: fill_io_def)
  have h: "healthy (s\<lparr>buf := b, src := r\<rparr>)" using conservingD [OF conserving_fill io assms(1)] by simp
  have eq: "b @ pending r = hb @ t" using fill_conserves [OF f] assms(2) by simp
  have "length hb \<le> length b" using fill_answer [OF f] head_probe_bounds by blast
  with eq have "take (length hb) b = hb" "drop (length hb) b @ pending r = t"
    using append_eq_split [of hb b] by blast+
  with io h show ?thesis by auto
qed

lemma read_body_fills:
  "healthy s \<Longrightarrow> buf s @ pending (src s) = body @ t \<Longrightarrow>
     \<exists>s1. read_body (length body) s = (Inr (), s1) \<and> healthy s1 \<and> dst s1 = dst s
        \<and> length body \<le> length (buf s1) \<and> buf s1 @ pending (src s1) = body @ t"
proof (induction "length body" s rule: read_body.induct)
  case (1 s)
  show ?case
  proof (cases "length (buf s) < length body")
    case False
    with 1 show ?thesis by (simp add: read_body.simps [of _ s])
  next
    case True
    let ?n = "min (length body - length (buf s)) 65536"
    obtain y r where rd: "read_some ?n (src s) = (y, r)" by (cases "read_some ?n (src s)")
    with "1.prems" obtain c where c: "y = Inr c" "no_read_errors r"
      using read_some_no_errors by (fastforce simp: healthy_def)
    with rd have p: "pending (src s) = c @ pending r" by (simp add: read_some_pending)
    have ne: "c \<noteq> []"
    proof
      assume "c = []"
      then have "pending (src s) = []"
        using rd c(1) read_some_eof [of ?n "src s" r] "1.prems"(1) True by (simp add: healthy_def)
      then have "length (buf s) = length body + length t"
        using "1.prems"(2) by (metis append_Nil2 length_append)
      with True show False by simp
    qed
    let ?s1 = "s\<lparr>buf := buf s @ c, src := r\<rparr>"
    have "healthy ?s1" "buf ?s1 @ pending (src ?s1) = body @ t"
      using "1.prems" c p by (simp_all add: healthy_def)
    from "1.hyps" [OF True rd [symmetric] c(1) ne this] rd c True ne show ?thesis
      by (simp add: read_body.simps [of _ s])
  qed
qed

section \<open>The new head\<close>

definition length_text :: "nat \<Rightarrow> string" where
  "length_text n = ''Content-Length: '' @ dec_of_nat n"

fun new_lines :: "nat \<Rightarrow> string list \<Rightarrow> bool \<Rightarrow> string list" where
  "new_lines n [] replaced = (if replaced then [] else [length_text n])"
| "new_lines n (l # ls) replaced =
     (if is_length_line l then (length_text n) # new_lines n ls True
      else if l = [] then new_lines n ls replaced
      else l # new_lines n ls replaced)"

lemma scl_loop_lines:
  "scl_loop n (Suc i) ls out replaced = out @ with_crlf (new_lines n ls replaced) @ CRLF"
  by (induction ls arbitrary: i out replaced) (auto simp: with_crlf_def length_line_def length_text_def)

lemma set_content_length_lines:
  "split_crlf (from_utf8_lossy b) = l # ls \<Longrightarrow> l \<noteq> [] \<Longrightarrow>
     set_content_length b n = with_crlf (l # new_lines n ls False) @ CRLF"
  by (simp add: set_content_length_def scl_loop_lines with_crlf_def)

lemma head_end_with_crlf:
  "\<forall>l \<in> set ls. \<not> sublist CRLF l \<and> l \<noteq> [] \<Longrightarrow> ls \<noteq> [] \<Longrightarrow>
     find_sub (CRLF @ CRLF) (with_crlf ls @ CRLF) = Some (length (with_crlf ls) - 2)"
proof (induction ls)
  case (Cons l ls)
  show ?case
  proof (cases ls)
    case Nil
    with Cons.prems find_sub_blank_line [of l CRLF] show ?thesis by (simp add: with_crlf_def CRLF_def)
  next
    case (Cons k ks)
    have "\<not> prefix CRLF (with_crlf ls @ CRLF)"
      using Cons.prems Cons by (cases k rule: split_crlf.cases) (auto simp: with_crlf_def CRLF_def sublist_Cons_right)
    then show ?thesis
      using Cons.IH Cons.prems Cons find_sub_blank_line [of l "with_crlf ls @ CRLF"]
      by (simp add: with_crlf_def CRLF_def)
  qed
qed simp

lemma no_crlf_length_line: "\<not> sublist CRLF (length_text n)"
proof
  assume "sublist CRLF (length_text n)"
  then have "set CRLF \<subseteq> set (length_text n)" by (rule set_mono_sublist)
  with dec_of_nat_no_cr [of n] show False by (simp add: length_text_def CRLF_def)
qed

lemma length_text_not_Nil: "length_text n \<noteq> []"
  by (simp add: length_text_def)

lemma new_lines_ok:
  "\<forall>l \<in> set ls. \<not> sublist CRLF l \<Longrightarrow> \<forall>l \<in> set (new_lines n ls r). \<not> sublist CRLF l \<and> l \<noteq> []"
  by (induction ls arbitrary: r) (auto simp: no_crlf_length_line length_text_not_Nil)

definition length_name :: "string \<Rightarrow> bool" where
  "length_name l \<longleftrightarrow>
     (case split_once (CHR '':'') l of
        Some (k, v) \<Rightarrow> to_ascii_lowercase (trim k) = ''content-length''
      | None \<Rightarrow> False)"

lemma header_line_other:
  "\<not> length_name l \<Longrightarrow> header_line l (h\<lparr>content_length := x\<rparr>) = (header_line l h)\<lparr>content_length := x\<rparr>"
  by (auto simp: length_name_def header_line_def Let_def split: option.splits)

lemma header_line_length:
  "length_name l \<Longrightarrow> \<exists>y. header_line l h = h\<lparr>content_length := y\<rparr>"
  by (auto simp: length_name_def header_line_def Let_def split: option.splits)

lemma header_line_new:
  "n < 2 ^ 64 \<Longrightarrow> header_line (length_text n) h = h\<lparr>content_length := Some n\<rparr>"
proof -
  assume n: "n < 2 ^ 64"
  have sp: "split_once (CHR '':'') (length_text n) = Some (''Content-Length'', '' '' @ dec_of_nat n)"
    by (simp add: split_once_Some length_text_def)
  have "trim ''Content-Length'' = ''Content-Length''" "to_ascii_lowercase ''Content-Length'' = ''content-length''"
    by code_simp+
  moreover have "trim ('' '' @ dec_of_nat n) = dec_of_nat n"
    using trim_dec_of_nat [of n] trim_by_space [of "dec_of_nat n"] by (simp add: trim_def trim_start_def)
  ultimately show ?thesis
    using n sp by (simp add: header_line_def parse_u64_def parse_uint_dec_of_nat)
qed


lemma is_length_line_name:
  assumes "is_length_line l" shows "length_name l"
proof -
  let ?k = "take 14 l"
  have low: "to_ascii_lowercase l = ''content-length:'' @ drop 15 (to_ascii_lowercase l)"
    using assms by (auto simp: is_length_line_def prefix_def)
  have len: "15 \<le> length l"
    using assms prefix_length_le [of "''content-length:''" "to_ascii_lowercase l"] by (simp add: is_length_line_def)
  have k: "to_ascii_lowercase ?k = ''content-length''"
    using arg_cong [OF low, of "take 14"] by (simp add: to_ascii_lowercase_def take_map)
  have "ascii_lower (l ! 14) = CHR '':''"
    using arg_cong [OF low, of "\<lambda>x. x ! 14"] len by (simp add: to_ascii_lowercase_def)
  then have c: "l ! 14 = CHR '':''" by (simp only: ascii_lower_colon)
  have no: "CHR '':'' \<notin> set ?k"
  proof
    assume "CHR '':'' \<in> set ?k"
    then have "ascii_lower (CHR '':'') \<in> set (to_ascii_lowercase ?k)" by (simp add: to_ascii_lowercase_def)
    then show False unfolding k by (simp add: ascii_lower_def)
  qed
  have "l ! 14 # drop 15 l = drop 14 l" using Cons_nth_drop_Suc [of 14 l] len by simp
  then have "?k @ CHR '':'' # drop 15 l = l" unfolding c by (metis append_take_drop_id)
  then have sp: "split_once (CHR '':'') l = Some (?k, drop 15 l)" using no split_once_Some by metis
  have ne: "?k \<noteq> []" using len by auto
  have "ascii_lower (hd ?k) = CHR ''c''" "ascii_lower (last ?k) = CHR ''h''"
    using arg_cong [OF k, of hd] arg_cong [OF k, of last] ne
    by (simp_all add: to_ascii_lowercase_def hd_map last_map)
  then have "graphic (hd ?k)" "graphic (last ?k)"
    using graphic_ascii_lower [of "hd ?k"] graphic_ascii_lower [of "last ?k"]
    by (simp_all add: graphic_def)
  with ne have "trim ?k = ?k" by (rule trim_graphic)
  with sp k show ?thesis by (simp add: length_name_def)
qed

lemma header_line_Nil [simp]: "header_line [] h = h"
  by (simp add: header_line_def)

lemma fold_new_lines:
  assumes "n < 2 ^ 64"
  shows "\<forall>l \<in> set ls. length_name l \<longrightarrow> is_length_line l \<Longrightarrow>
     fold header_line (new_lines n ls r) (h\<lparr>content_length := (if r then Some n else x)\<rparr>)
       = (fold header_line ls h)\<lparr>content_length := Some n\<rparr>"
proof (induction ls arbitrary: r h x)
  case Nil
  with header_line_new [OF assms] show ?case by simp
next
  case (Cons l ls)
  consider (len) "is_length_line l" | (nil) "\<not> is_length_line l" "l = []"
    | (other) "\<not> is_length_line l" "l \<noteq> []" by blast
  then show ?case
  proof cases
    case len
    obtain y where y: "header_line l h = h\<lparr>content_length := y\<rparr>"
      using header_line_length [OF is_length_line_name [OF len]] by blast
    from Cons.IH [where r = True and h = "h\<lparr>content_length := y\<rparr>"] Cons.prems len y header_line_new [OF assms]
    show ?thesis by simp
  next
    case other
    then have "\<not> length_name l" using Cons.prems by auto
    with Cons.IH [where r = r and h = "header_line l h" and x = x] Cons.prems other header_line_other show ?thesis by simp
  qed (use Cons in simp)
qed


lemma new_head_end:
  assumes "split_crlf (from_utf8_lossy hb) = l # ls" "l \<noteq> []"
  shows "find_head_end (set_content_length hb n) = Some (length (set_content_length hb n))"
proof -
  have ok: "\<forall>k \<in> set (l # new_lines n ls False). \<not> sublist CRLF k \<and> k \<noteq> []"
    using new_lines_ok [of ls n False] split_crlf_no_crlf [of _ "from_utf8_lossy hb"] assms by auto
  have "2 \<le> length (with_crlf (l # new_lines n ls False))" by (simp add: with_crlf_def CRLF_def)
  with head_end_with_crlf [OF ok] set_content_length_lines [OF assms, of n] show ?thesis
    by (simp add: find_head_end_def find_head_end_from_def) (simp add: CRLF_def)
qed

lemma with_crlf_ascii:
  "\<forall>l \<in> set ls. \<forall>c \<in> set l. code c < 128 \<Longrightarrow> \<forall>c \<in> set (with_crlf ls). code c < 128"
  by (induction ls) (auto simp: with_crlf_def CRLF_def)

lemma length_text_ascii: "c \<in> set (length_text n) \<Longrightarrow> code c < 128"
  using dec_of_nat_digits [of c n] by (auto simp: length_text_def is_ascii_digit_def)

lemma new_lines_ascii:
  "\<forall>l \<in> set ls. \<forall>c \<in> set l. code c < 128 \<Longrightarrow> \<forall>l \<in> set (new_lines n ls r). \<forall>c \<in> set l. code c < 128"
  by (induction ls arbitrary: r) (auto simp: length_text_ascii)

lemma set_content_length_parses:
  assumes "\<forall>c \<in> set hb. code c < 128" and "parse_head hb = Some h" and "n < 2 ^ 64"
    and names: "\<forall>l \<in> set (tl (split_crlf hb)). length_name l \<longrightarrow> is_length_line l"
  shows "parse_head (set_content_length hb n) = Some (h\<lparr>content_length := Some n\<rparr>)"
    and "find_head_end (set_content_length hb n) = Some (length (set_content_length hb n))"
proof -
  have lossy: "from_utf8_lossy hb = hb" using assms(1) by (rule from_utf8_lossy_ascii)
  obtain l ls where sp: "split_crlf hb = l # ls" by (cases "split_crlf hb") auto
  from assms(2) sp obtain m p v rest where w: "split_whitespace l = m # p # v # rest"
    and http: "prefix ''HTTP/'' v"
    and h: "h = fold header_line ls \<lparr>is_create_container = (m = ''POST'' \<and> is_create_path p),
                   content_length = None, chunked = False, upgrade = False\<rparr>" (is "_ = fold header_line ls ?h0")
    by (auto simp: parse_head_def Let_def split: if_splits list.splits)
  have ne: "l \<noteq> []" using w by (auto simp: split_whitespace_def split_ws.simps strip_first_def ws_encodings_def)
  have scl: "set_content_length hb n = with_crlf (l # new_lines n ls False) @ CRLF"
    using set_content_length_lines [of hb l ls] sp ne lossy by simp
  show "find_head_end (set_content_length hb n) = Some (length (set_content_length hb n))"
    using new_head_end [of hb l ls] sp ne lossy by simp
  have ok: "\<forall>k \<in> set (l # new_lines n ls False). \<not> sublist CRLF k"
    using new_lines_ok [of ls n False] split_crlf_no_crlf [of _ hb] sp by auto
  have asc: "\<forall>k \<in> set (l # ls). \<forall>c \<in> set k. code c < 128"
    using split_crlf_set [of _ hb] sp assms(1) by fastforce
  then have "\<forall>k \<in> set (l # new_lines n ls False). \<forall>c \<in> set k. code c < 128"
    using new_lines_ascii [of ls n False] by simp
  then have "\<forall>c \<in> set (with_crlf (l # new_lines n ls False)). code c < 128" by (rule with_crlf_ascii)
  then have "\<forall>c \<in> set (set_content_length hb n). code c < 128"
    unfolding scl set_append by (simp add: CRLF_def ball_Un)
  then have val: "utf8_valid (set_content_length hb n)" by (rule utf8_valid_ascii)
  have "?h0\<lparr>content_length := (if False then Some n else None)\<rparr> = ?h0" by simp
  then have "fold header_line (new_lines n ls False) ?h0 = h\<lparr>content_length := Some n\<rparr>"
    using fold_new_lines [OF assms(3), where ls = ls and r = False and h = ?h0 and x = None] names sp h by simp
  then show "parse_head (set_content_length hb n) = Some (h\<lparr>content_length := Some n\<rparr>)"
    using val split_with_crlf [OF ok] w http by (simp add: parse_head_def scl)
qed

section \<open>Properties\<close>

text \<open>
  C4. The relay is transparent: on a connection without faults, a client that never sends the
  bytes of a container creation has its bytes passed on unchanged, however they are cut into
  reads.  Nothing sent is lost, repeated or reordered, no drive is shared, and when the relay ends
  without an error everything has been sent.
\<close>

theorem relay_transparent:
  assumes "healthy s" and "\<not> sublist ''/containers/create'' (buf s @ pending (src s))"
    and "forward_requests js tot s = (x, s', shares)"
  shows "shares = []
       \<and> sent (dst s') @ buf s' @ pending (src s') = sent (dst s) @ buf s @ pending (src s)
       \<and> prefix (sent (dst s)) (sent (dst s'))
       \<and> (\<forall>n. x = Inr n \<longrightarrow> sent (dst s') = sent (dst s) @ buf s @ pending (src s))"
  using forward_requests_relayed [OF assms(3,1,2)] by (auto simp: flow_def)

definition sample_get :: conn where
  "sample_get = \<lparr>buf = [], src = [Chunk (''GET /info HTTP/1.1'' @ [CR]), Chunk ([LF] @ CRLF)],
     dst = \<lparr>sent = [], accepts = None\<rparr>\<rparr>"

theorem relay_transparent_witness:
  "sent (dst (fst (snd (forward_requests sample_codec 0 sample_get)))) = ''GET /info HTTP/1.1'' @ CRLF @ CRLF"
proof -
  obtain x s' sh where st: "forward_requests sample_codec 0 sample_get = (x, s', sh)" by (metis prod_cases3)
  have "fst (forward_requests sample_codec 0 sample_get) = Inr 22" by code_simp
  then have x: "x = Inr 22" using st by simp
  have h: "healthy sample_get" by (simp add: sample_get_def healthy_def open_writer_def)
  have "find_sub ''/containers/create'' (buf sample_get @ pending (src sample_get)) = None" by code_simp
  then have "\<not> sublist ''/containers/create'' (buf sample_get @ pending (src sample_get))"
    by (simp add: contains_sub_def flip: contains_sub_sublist)
  from relay_transparent [OF h this st] x st show ?thesis
    by (simp add: sample_get_def CRLF_def CR_def LF_def)
qed


definition sample_head :: bytes where
  "sample_head = ''POST /v1.47/containers/create?name=w HTTP/1.1'' @ CRLF @ ''Content-Length: 1'' @ CRLF @ CRLF"

definition sample_create :: conn where
  "sample_create = \<lparr>buf = take 20 sample_head, src = [Chunk (drop 20 sample_head), Chunk ''AG''],
     dst = \<lparr>sent = [], accepts = None\<rparr>\<rparr>"


text \<open>
  The head sent in front of a rewritten body frames exactly that body: it is one complete
  head, and read again it is the same request with the new length, provided every header line
  the reader takes for a length begins with its name and a colon.
\<close>

theorem new_head_frames_body:
  assumes "\<forall>c \<in> set hb. code c < 128" and "parse_head hb = Some h" and "n < 2 ^ 64"
    and "\<forall>l \<in> set (tl (split_crlf hb)). length_name l \<longrightarrow> is_length_line l"
  shows "find_head_end (set_content_length hb n) = Some (length (set_content_length hb n))
       \<and> parse_head (set_content_length hb n) = Some (h\<lparr>content_length := Some n\<rparr>)"
  using set_content_length_parses [OF assms] by blast

theorem new_head_frames_body_witness:
  "find_head_end (set_content_length sample_head 300) = Some (length (set_content_length sample_head 300))
   \<and> parse_head (set_content_length sample_head 300)
       = Some \<lparr>is_create_container = True, content_length = Some 300, chunked = False, upgrade = False\<rparr>"
proof -
  have a: "\<forall>c \<in> set sample_head. code c < 128" by code_simp
  have p: "parse_head sample_head
      = Some \<lparr>is_create_container = True, content_length = Some 1, chunked = False, upgrade = False\<rparr>" by code_simp
  have l: "\<forall>l \<in> set (tl (split_crlf sample_head)). length_name l \<longrightarrow> is_length_line l" by code_simp
  show ?thesis using new_head_frames_body [OF a p _ l, of 300] by simp
qed

text \<open>
  Where the reader of heads is more tolerant than the writer: a length header with a space
  before the colon is read (so the request is rewritten), but it is not replaced.  The head sent to
  the daemon then carries both lengths.
\<close>

theorem spaced_length_is_doubled:
  assumes "\<forall>c \<in> set (req @ v). code c < 128 \<and> c \<noteq> CHR 0x0D" and "req \<noteq> []"
  shows "set_content_length (req @ CRLF @ (''Content-Length : '' @ v) @ CRLF @ CRLF) n
       = req @ CRLF @ ''Content-Length : '' @ v @ CRLF @ ''Content-Length: '' @ dec_of_nat n @ CRLF @ CRLF"
proof -
  have no: "\<not> sublist CRLF l" if "CHR 0x0D \<notin> set l" for l
    using that set_mono_sublist [of CRLF l] by (auto simp: CRLF_def)
  let ?k = "''Content-Length : '' @ v"
  have k: "\<not> sublist CRLF ?k" by (rule no) (use assms in auto)
  have r: "\<not> sublist CRLF req" by (rule no) (use assms in auto)
  have "split_crlf (CRLF :: string) = [[], []]" by (simp add: CRLF_def)
  then have sp: "split_crlf (req @ CRLF @ ?k @ CRLF @ CRLF) = req # [?k, [], []]"
    unfolding split_crlf_append [OF r] split_crlf_append [OF k] by simp
  have "\<forall>c \<in> set (req @ CRLF @ ?k @ CRLF @ CRLF). code c < 128" using assms by (auto simp: CRLF_def)
  then have lossy: "from_utf8_lossy (req @ CRLF @ ?k @ CRLF @ CRLF) = req @ CRLF @ ?k @ CRLF @ CRLF"
    by (rule from_utf8_lossy_ascii)
  have "\<not> is_length_line ?k" by (simp add: is_length_line_def to_ascii_lowercase_def ascii_lower_def)
  moreover have "\<not> is_length_line []" by (simp add: is_length_line_def to_ascii_lowercase_def)
  ultimately have "new_lines n [?k, [], []] False = [?k, length_text n]" by simp
  then show ?thesis
    using set_content_length_lines [of "req @ CRLF @ ?k @ CRLF @ CRLF" req "[?k, [], []]" n] assms(2)
    unfolding lossy sp by (simp add: with_crlf_def length_text_def)
qed

theorem spaced_length_is_doubled_witness:
  "parse_head (''POST /containers/create HTTP/1.1'' @ CRLF @ (''Content-Length : '' @ ''5'') @ CRLF @ CRLF)
     = Some \<lparr>is_create_container = True, content_length = Some 5, chunked = False, upgrade = False\<rparr>
   \<and> set_content_length (''POST /containers/create HTTP/1.1'' @ CRLF @ (''Content-Length : '' @ ''5'') @ CRLF @ CRLF) 9
     = ''POST /containers/create HTTP/1.1'' @ CRLF @ ''Content-Length : '' @ ''5'' @ CRLF @ ''Content-Length: 9'' @ CRLF @ CRLF"
proof -
  have "parse_head (''POST /containers/create HTTP/1.1'' @ CRLF @ (''Content-Length : '' @ ''5'') @ CRLF @ CRLF)
     = Some \<lparr>is_create_container = True, content_length = Some 5, chunked = False, upgrade = False\<rparr>" by code_simp
  moreover have "dec_of_nat 9 = ''9''" by code_simp
  ultimately show ?thesis
    using spaced_length_is_doubled [of "''POST /containers/create HTTP/1.1''" "''5''" 9] by simp
qed

text \<open>
  After the last chunk of a chunked body, a request already in the buffer is taken for
  trailers: the search for an empty line comes before the test for an immediate end of the body,
  so the next request's whole head is passed on unread, and a container creation that follows a
  chunked upload in the same read is not rewritten.
\<close>

theorem pipelined_head_taken_for_trailers:
  assumes "healthy s" "buf s = CRLF @ hb @ t" "find_head_end hb = Some (length hb)" "\<not> prefix CRLF hb"
  shows "copy_trailers s = (Inr (2 + length hb),
           s\<lparr>buf := t, dst := (dst s)\<lparr>sent := sent (dst s) @ CRLF @ hb\<rparr>\<rparr>)"
proof -
  have "find_head_end_from (buf s) 0 = Some (2 + length hb)"
  proof -
    have np: "\<not> prefix CRLF (hb @ t)"
      using assms(3,4) find_head_end_bounds [OF assms(3)]
      by (cases hb rule: split_crlf.cases) (auto simp: CRLF_def)
    have "find_sub (CRLF @ CRLF) (hb @ t) = Some (length hb - 4)"
      using find_head_end_append [OF assms(3), of t] find_head_end_bounds [OF assms(3)]
      by (auto simp: find_head_end_def find_head_end_from_def)
    with find_sub_blank_line [of "[]" "hb @ t"] np find_head_end_bounds [OF assms(3)] assms(2) show ?thesis
      by (auto simp: find_head_end_from_def CRLF_def)
  qed
  then have "trailer_probe (buf s) = Some (2 + length hb)" by (simp add: trailer_probe_def)
  then have "fill_io trailer_probe 4096 s = (Inr (Inr (2 + length hb)), s)"
    by (simp add: fill_io_def fill.simps)
  moreover have "take (2 + length hb) (buf s) = CRLF @ hb" "drop (2 + length hb) (buf s) = t"
    using assms(2) by (simp_all add: CRLF_def)
  ultimately show ?thesis
    using flush_buf_healthy [OF assms(1), of "2 + length hb"]
    by (simp add: copy_trailers_def bind_io_def return_io_def)
qed

theorem pipelined_head_taken_for_trailers_witness:
  "copy_trailers \<lparr>buf = CRLF @ sample_head @ ''A'', src = [], dst = \<lparr>sent = [], accepts = None\<rparr>\<rparr>
     = (Inr 70, \<lparr>buf = ''A'', src = [], dst = \<lparr>sent = CRLF @ sample_head, accepts = None\<rparr>\<rparr>)"
proof -
  have f: "find_head_end sample_head = Some (length sample_head)" "length sample_head = 68" by code_simp+
  have n: "\<not> prefix CRLF sample_head" by (simp add: sample_head_def CRLF_def)
  show ?thesis
    using pipelined_head_taken_for_trailers
      [of "\<lparr>buf = CRLF @ sample_head @ ''A'', src = [], dst = \<lparr>sent = [], accepts = None\<rparr>\<rparr>" sample_head "''A''"] f n
    by (simp add: healthy_def open_writer_def)
qed

end
