(* ===== verification/Protocol.thy ===== *)
theory Protocol
  imports Json_Values Mask "HOL-Library.List_Lexorder" "HOL-Library.Char_ord"
    "HOL-Library.Product_Lexorder" "HOL-Library.Option_ord"
begin

text \<open>
  The messages between the service and the agent of the machine
  (\<open>crates/solon-core/src/protocol.rs\<close>): commands, answers, events, observed exchanges, and the two
  views of an inspected container (its endpoint, its port bindings).  Ports are naturals; the
  parser keeps them below 2 to the 16.  A floating-point number is its 64 bits.  A \<open>BTreeMap\<close> is
  the list of its entries in the order of the keys.
\<close>

type_synonym f64 = "64 word"
type_synonym 'a btree_map = "(string \<times> 'a) list"

section \<open>Ports and frames\<close>

definition PORT_CONTROL :: nat where "PORT_CONTROL = 5000"
definition PORT_DOCKER :: nat where "PORT_DOCKER = 5001"
definition PORT_PORTS :: nat where "PORT_PORTS = 5002"
definition PORT_EVENTS :: nat where "PORT_EVENTS = 5003"
definition PORT_SHELL :: nat where "PORT_SHELL = 5004"
definition PORT_EXEC :: nat where "PORT_EXEC = 5005"
definition PORT_TRACE :: nat where "PORT_TRACE = 5007"

definition EXEC_FRAME_STDOUT :: nat where "EXEC_FRAME_STDOUT = 0"
definition EXEC_FRAME_STDERR :: nat where "EXEC_FRAME_STDERR = 1"
definition EXEC_FRAME_EXIT :: nat where "EXEC_FRAME_EXIT = 2"

definition SHELL_FRAME_INPUT :: nat where "SHELL_FRAME_INPUT = 0"
definition SHELL_FRAME_RESIZE :: nat where "SHELL_FRAME_RESIZE = 1"

definition PROTOCOL_VERSION :: nat where "PROTOCOL_VERSION = 1"

record exec_stream_request =
  es_command :: string
  es_cwd :: "string option"

record shell_header =
  cols :: nat
  rows :: nat
  sh_command :: "string option"

section \<open>Commands and answers\<close>

record network_config =
  interface :: string
  address :: string
  prefix_len :: nat
  gateway :: string
  dns :: "string list"
  mtu :: "nat option"
  search_domains :: "string list"

record mount_share_request =
  ms_name :: string
  ms_port :: nat
  ms_target :: string
  read_only :: bool
  extra_options :: string

datatype agent_command =
    Ping
  | Health
  | ConfigureNetwork network_config
  | MountShare mount_share_request
  | UnmountShare string
  | Exec string "nat option"
  | Bench string
  | Shutdown nat
  | ListPorts
  | Metrics

definition default_shutdown_timeout :: nat where "default_shutdown_timeout = 10"

record agent_request =
  rq_id :: nat
  rq_command :: agent_command

record machine_metrics =
  uptime_s :: f64
  cpu_busy_ticks :: nat
  cpu_total_ticks :: nat
  cpus :: nat
  load1 :: f64
  mem_total_kb :: nat
  mem_available_kb :: nat
  disk_total_bytes :: nat
  disk_used_bytes :: nat
  net_rx_bytes :: nat
  net_tx_bytes :: nat
  containers_running :: nat

record response =
  rs_id :: nat
  rs_ok :: bool
  rs_result :: "json option"
  rs_error :: "string option"

text \<open>\<open>serde_json::to_value\<close> of the result is the parameter; a failure gives null.\<close>

definition response_ok :: "('a \<Rightarrow> json option) \<Rightarrow> nat \<Rightarrow> 'a \<Rightarrow> response" where
  "response_ok to_value i r =
     \<lparr>rs_id = i, rs_ok = True,
      rs_result = Some (case to_value r of Some v \<Rightarrow> v | None \<Rightarrow> JNull), rs_error = None\<rparr>"

definition response_err :: "nat \<Rightarrow> string \<Rightarrow> response" where
  "response_err i e = \<lparr>rs_id = i, rs_ok = False, rs_result = None, rs_error = Some e\<rparr>"

record mount_result =
  mr_target :: string
  mr_options :: string
  mount_ms :: nat

record exec_result =
  exit_code :: "int option"
  stdout :: string
  stderr :: string
  ms :: nat
  timed_out :: bool

record engine_status =
  containerd_pid :: "nat option"
  dockerd_pid :: "nat option"
  docker_ready_at_uptime_s :: "f64 option"
  restarts :: nat
  last_error :: "string option"

record data_disk_report =
  device :: string
  formatted_now :: bool
  fsck_exit :: int
  fsck_summary :: string
  mounted_at :: string

record health_report =
  protocol_version :: nat
  agent_version :: string
  kernel :: string
  hr_uptime_s :: f64
  docker_ping :: bool
  hr_engine :: engine_status
  data_disk :: "data_disk_report option"
  hr_mem_total_kb :: nat
  hr_mem_available_kb :: nat
  network_configured :: bool
  mounts :: "string list"

section \<open>Observed exchanges\<close>

record trace_peer =
  tp_ip :: string
  tp_container_id :: "string option"
  tp_name :: "string option"
  tp_project :: "string option"
  tp_service :: "string option"

definition or_else :: "'a option \<Rightarrow> 'a option \<Rightarrow> 'a option" where
  "or_else a b = (case a of Some x \<Rightarrow> Some x | None \<Rightarrow> b)"

definition label :: "trace_peer \<Rightarrow> string" where
  "label p = (case or_else (tp_service p) (tp_name p) of Some s \<Rightarrow> s | None \<Rightarrow> tp_ip p)"

record trace_header =
  th_name :: string
  th_value :: string

definition masked :: "string \<Rightarrow> string \<Rightarrow> trace_header" where
  "masked name value = \<lparr>th_name = trim name, th_value = header_value name value\<rparr>"

record trace_body =
  tb_text :: string
  truncated :: bool

record trace_http =
  ts_ms :: nat
  scheme :: string
  host :: string
  th_method :: string
  th_path :: string
  status :: nat
  duration_ms :: nat
  th_dst :: trace_peer
  request_headers :: "trace_header list"
  response_headers :: "trace_header list"
  request_bytes :: nat
  response_bytes :: nat
  request_body :: "trace_body option"
  response_body :: "trace_body option"

datatype connection_outcome = Established | ConnectionFailed | Closed

record trace_connection =
  tc_ts_ms :: nat
  outcome :: connection_outcome
  tc_src :: trace_peer
  tc_dst :: trace_peer
  sport :: nat
  dport :: nat
  comm :: string
  pid :: nat
  tc_duration_ms :: "nat option"

datatype trace_event =
    Status bool string
  | Connection trace_connection
  | Http trace_http

fun project :: "trace_event \<Rightarrow> string option" where
  "project (Status a d) = None"
| "project (Http h) = tp_project (th_dst h)"
| "project (Connection c) = or_else (tp_project (tc_src c)) (tp_project (tc_dst c))"

section \<open>Containers seen from the network\<close>

record container_endpoint =
  ep_id :: string
  ep_name :: string
  ep_compose_project :: "string option"
  ep_compose_service :: "string option"
  ep_ip :: string
  exposed_tcp :: "nat list"
  published_tcp :: "nat list"

record port_binding =
  container_id :: string
  protocol :: string
  host_ip :: string
  host_port :: nat
  container_ip :: string
  container_port :: nat
  container_name :: string
  compose_project :: "string option"
  compose_service :: "string option"

datatype log_level = Debug | Info | Warn | Error

datatype agent_event =
    Hello nat string
  | EngineReady f64
  | EngineDown string nat
  | PortsChanged "port_binding list"
  | ContainerEvent string string string
  | Log log_level string
  | DiskPressure nat nat
  | EndpointsChanged "container_endpoint list"

record port_relay_header =
  rh_container_ip :: string
  rh_container_port :: nat
  rh_protocol :: string

record port_relay_ack =
  ack_ok :: bool
  ack_error :: "string option"

text \<open>
  \<open>PartialOrd\<close> and \<open>Ord\<close> are derived for \<open>PortBinding\<close>: the fields are compared in their order, strings
  byte by byte, an absent option before a present one.
\<close>

definition binding_key where
  "binding_key b = (container_id b, protocol b, host_ip b, host_port b, container_ip b,
     container_port b, container_name b, compose_project b, compose_service b, port_binding.more b)"

lemma binding_key_inject: "binding_key a = binding_key b \<Longrightarrow> a = b"
  by (simp add: binding_key_def)

instantiation port_binding_ext :: (linorder) linorder
begin

definition less_eq_port_binding_ext :: "'a port_binding_ext \<Rightarrow> 'a port_binding_ext \<Rightarrow> bool" where
  "a \<le> b \<longleftrightarrow> binding_key a \<le> binding_key b"

definition less_port_binding_ext :: "'a port_binding_ext \<Rightarrow> 'a port_binding_ext \<Rightarrow> bool" where
  "a < b \<longleftrightarrow> binding_key a < binding_key b"

instance
  by standard
     (auto simp: less_eq_port_binding_ext_def less_port_binding_ext_def intro: order_trans binding_key_inject)

end

section \<open>Inspected containers\<close>

record inspected_host_binding =
  hb_host_ip :: string
  hb_host_port :: string

record inspected_network =
  ip_address :: string

record inspected_network_settings =
  ports :: "inspected_host_binding list option btree_map"
  networks :: "inspected_network btree_map"

record inspected_config =
  labels :: "string btree_map"
  exposed_ports :: "json btree_map"

record inspected_container =
  ic_id :: string
  ic_name :: string
  network_settings :: inspected_network_settings
  config :: inspected_config

definition first_address :: "inspected_container \<Rightarrow> string option" where
  "first_address c =
     find (\<lambda>ip. ip \<noteq> []) (map (\<lambda>(_, n). ip_address n) (networks (network_settings c)))"

definition split_spec :: "string \<Rightarrow> string \<times> string" where
  "split_spec spec = (case split_once (CHR ''/'') spec of Some pp \<Rightarrow> pp | None \<Rightarrow> (spec, ''tcp''))"

definition tcp_port :: "string \<Rightarrow> nat option" where
  "tcp_port spec =
     (case split_spec spec of (port, proto) \<Rightarrow> if proto = ''tcp'' then parse_u16 port else None)"

definition label_of :: "inspected_container \<Rightarrow> string \<Rightarrow> string option" where
  "label_of c k = map_of (labels (config c)) k"

definition endpoint :: "inspected_container \<Rightarrow> container_endpoint option" where
  "endpoint c =
     (case first_address c of
        None \<Rightarrow> None
      | Some ip \<Rightarrow>
          Some \<lparr>ep_id = ic_id c,
                ep_name = trim_start_matches (CHR ''/'') (ic_name c),
                ep_compose_project = label_of c ''com.docker.compose.project'',
                ep_compose_service = label_of c ''com.docker.compose.service'',
                ep_ip = ip,
                exposed_tcp = sort (List.map_filter tcp_port (map fst (exposed_ports (config c)))),
                published_tcp = sort (List.map_filter tcp_port
                  (map fst (filter (\<lambda>(_, b). b \<noteq> None) (ports (network_settings c)))))\<rparr>)"

definition binding_of ::
  "inspected_container \<Rightarrow> string \<Rightarrow> string \<Rightarrow> nat \<Rightarrow> inspected_host_binding \<Rightarrow> nat \<Rightarrow> port_binding" where
  "binding_of c ip proto cport b hport =
     \<lparr>container_id = ic_id c,
      protocol = proto,
      host_ip = (if hb_host_ip b = [] then ''0.0.0.0'' else hb_host_ip b),
      host_port = hport,
      container_ip = ip,
      container_port = cport,
      container_name = trim_start_matches (CHR ''/'') (ic_name c),
      compose_project = label_of c ''com.docker.compose.project'',
      compose_service = label_of c ''com.docker.compose.service''\<rparr>"

definition host_bindings ::
  "inspected_container \<Rightarrow> string \<Rightarrow> string \<times> inspected_host_binding list option \<Rightarrow> port_binding list" where
  "host_bindings c ip entry =
     (case entry of
        (_, None) \<Rightarrow> []
      | (spec, Some bindings) \<Rightarrow>
          (case split_spec spec of (port, proto) \<Rightarrow>
             (case parse_u16 port of
                None \<Rightarrow> []
              | Some cport \<Rightarrow>
                  List.map_filter
                    (\<lambda>b. map_option (binding_of c ip proto cport b) (parse_u16 (hb_host_port b)))
                    bindings)))"

definition port_bindings :: "inspected_container \<Rightarrow> port_binding list" where
  "port_bindings c =
     (let ip = (case first_address c of Some ip \<Rightarrow> ip | None \<Rightarrow> [])
      in if ip = [] then []
         else remdups_adj (sort (concat (map (host_bindings c ip) (ports (network_settings c))))))"

lemma find_not_Nil: "find (\<lambda>ip. ip \<noteq> []) xs = Some ip \<Longrightarrow> ip \<noteq> []"
  by (auto simp: find_Some_iff)

lemma parse_u16_less: "parse_u16 s = Some n \<Longrightarrow> n < 65536"
  unfolding parse_u16_def by (drule parse_uint_bound) simp

lemma set_map_filter: "set (List.map_filter f xs) = {y. \<exists>x \<in> set xs. f x = Some y}"
  by (auto simp: List.map_filter_def) force

lemma distinct_remdups_adj_sorted: "sorted xs \<Longrightarrow> distinct (remdups_adj xs)"
proof (induction xs rule: remdups_adj.induct)
  case (3 x y xs)
  show ?case
  proof (cases "x = y")
    case False
    with "3.prems" have "x \<notin> set (y # xs)" by auto
    with 3 False show ?thesis by simp
  qed (use 3 in simp)
qed simp_all

lemma port_bindings_mem:
  "sorted (port_bindings c) \<and> distinct (port_bindings c) \<and>
   (b \<in> set (port_bindings c) \<longleftrightarrow>
     (\<exists>ip spec bs h port proto cport hport.
        first_address c = Some ip \<and> (spec, Some bs) \<in> set (ports (network_settings c)) \<and> h \<in> set bs
        \<and> split_spec spec = (port, proto) \<and> parse_u16 port = Some cport
        \<and> parse_u16 (hb_host_port h) = Some hport \<and> b = binding_of c ip proto cport h hport))"
proof (cases "first_address c")
  case None
  then show ?thesis by (simp add: port_bindings_def)
next
  case (Some ip)
  then have ne: "ip \<noteq> []" unfolding first_address_def by (rule find_not_Nil)
  have pb: "port_bindings c = remdups_adj (sort (concat (map (host_bindings c ip) (ports (network_settings c)))))"
    using Some ne by (simp add: port_bindings_def)
  have hb: "b \<in> set (host_bindings c ip (spec, v)) \<longleftrightarrow>
     (\<exists>bs h port proto cport hport. v = Some bs \<and> h \<in> set bs \<and> split_spec spec = (port, proto)
        \<and> parse_u16 port = Some cport \<and> parse_u16 (hb_host_port h) = Some hport
        \<and> b = binding_of c ip proto cport h hport)" for spec v
  proof -
    obtain port proto where sp: "split_spec spec = (port, proto)" by (cases "split_spec spec")
    show ?thesis
      by (cases v; cases "parse_u16 port") (simp_all add: host_bindings_def set_map_filter sp, blast)
  qed
  have mem: "b \<in> set (port_bindings c) \<longleftrightarrow>
     (\<exists>spec v. (spec, v) \<in> set (ports (network_settings c)) \<and> b \<in> set (host_bindings c ip (spec, v)))"
    by (force simp: pb)
  have "b \<in> set (port_bindings c) \<longleftrightarrow>
     (\<exists>spec bs h port proto cport hport. (spec, Some bs) \<in> set (ports (network_settings c)) \<and> h \<in> set bs
        \<and> split_spec spec = (port, proto) \<and> parse_u16 port = Some cport
        \<and> parse_u16 (hb_host_port h) = Some hport \<and> b = binding_of c ip proto cport h hport)"
    unfolding mem hb by blast
  moreover have "sorted (port_bindings c)" "distinct (port_bindings c)"
    by (simp_all add: pb distinct_remdups_adj_sorted)
  ultimately show ?thesis using Some by simp
qed

section \<open>Properties\<close>

text \<open>
  The bindings announced for a container are complete and exact: a strictly ordered list without
  repetition that holds, for every published port and every host binding whose ports read as
  16-bit numbers, exactly the binding to the container's first address, an empty host address
  standing for all of them.  A container without an address announces none.
\<close>

theorem port_bindings_exact:
  "sorted (port_bindings c) \<and> distinct (port_bindings c) \<and>
   (b \<in> set (port_bindings c) \<longleftrightarrow>
     (\<exists>ip spec bs h port proto cport hport.
        first_address c = Some ip \<and> (spec, Some bs) \<in> set (ports (network_settings c)) \<and> h \<in> set bs
        \<and> split_spec spec = (port, proto) \<and> parse_u16 port = Some cport
        \<and> parse_u16 (hb_host_port h) = Some hport \<and> b = binding_of c ip proto cport h hport))"
  by (rule port_bindings_mem)

text \<open>
  The two views of a container agree: a container without an endpoint publishes nothing, and
  every TCP binding of one with an endpoint names its identity, its address and one of its
  published ports, and every port fits 16 bits.
\<close>

theorem endpoint_and_bindings_agree:
  assumes "b \<in> set (port_bindings c)"
  shows "\<exists>e. endpoint c = Some e \<and> ep_id e = container_id b \<and> ep_name e = container_name b
       \<and> ep_ip e = container_ip b \<and> ep_compose_project e = compose_project b
       \<and> ep_compose_service e = compose_service b
       \<and> (protocol b = ''tcp'' \<longrightarrow> container_port b \<in> set (published_tcp e))
       \<and> host_port b < 65536 \<and> container_port b < 65536"
proof -
  obtain ip where ip: "first_address c = Some ip"
    using assms by (auto simp: port_bindings_def split: option.splits)
  then obtain spec bs h port proto cport hport where
    m: "(spec, Some bs) \<in> set (ports (network_settings c))" and sp: "split_spec spec = (port, proto)"
    and p: "parse_u16 port = Some cport" and hp: "parse_u16 (hb_host_port h) = Some hport"
    and b: "b = binding_of c ip proto cport h hport"
    using assms port_bindings_mem [of c b] by auto
  have "cport \<in> set (List.map_filter tcp_port
          (map fst (filter (\<lambda>(_, b). b \<noteq> None) (ports (network_settings c)))))" if "proto = ''tcp''"
    using m sp p that by (force simp: set_map_filter tcp_port_def)
  with ip b parse_u16_less [OF p] parse_u16_less [OF hp] show ?thesis
    by (auto simp: endpoint_def binding_of_def)
qed

definition sample_container :: inspected_container where
  "sample_container =
     \<lparr>ic_id = ''abc'', ic_name = ''/web'',
      network_settings =
        \<lparr>ports = [(''443/tcp'', None), (''80/tcp'', Some [\<lparr>hb_host_ip = [], hb_host_port = ''8080''\<rparr>])],
         networks = [(''bridge'', \<lparr>ip_address = ''172.17.0.2''\<rparr>)]\<rparr>,
      config = \<lparr>labels = [], exposed_ports = [(''80/tcp'', JObject [])]\<rparr>\<rparr>"

theorem endpoint_and_bindings_agree_witness:
  "\<exists>e. endpoint sample_container = Some e \<and> ep_name e = ''web'' \<and> 80 \<in> set (published_tcp e)"
proof -
  let ?b = "binding_of sample_container ''172.17.0.2'' ''tcp'' 80 \<lparr>hb_host_ip = [], hb_host_port = ''8080''\<rparr> 8080"
  have "port_bindings sample_container = [?b]" by code_simp
  then have m: "?b \<in> set (port_bindings sample_container)" by simp
  have "container_name ?b = ''web''" "protocol ?b = ''tcp''" "container_port ?b = 80" by code_simp+
  with endpoint_and_bindings_agree [OF m] show ?thesis by auto
qed

end
