(* ===== verification/Transitions.thy ===== *)
theory Transitions
  imports Main
begin

text \<open>
  The contract of a state machine with an invariant: every step keeps it.  The components whose
  operations interleave (the sleeper, the relays of published ports, the engine) instantiate it with
  their own step relation; what holds along a run is proved once here.
\<close>

locale machine =
  fixes step :: "'s \<Rightarrow> 's \<Rightarrow> bool"
    and inv :: "'s \<Rightarrow> bool"
  assumes step_keeps: "inv s \<Longrightarrow> step s t \<Longrightarrow> inv t"
begin

lemma run_keeps: "step\<^sup>*\<^sup>* s t \<Longrightarrow> inv s \<Longrightarrow> inv t"
  by (induction rule: rtranclp_induct) (auto intro: step_keeps)

lemma run_shows: "step\<^sup>*\<^sup>* s t \<Longrightarrow> inv s \<Longrightarrow> (\<And>u. inv u \<Longrightarrow> P u) \<Longrightarrow> P t"
  by (blast intro: run_keeps)

end

end
