(* ===== verification/Sleeper.thy ===== *)
theory Sleeper
  imports Protocol Transitions "HOL-Library.Multiset"
begin

text \<open>
  Putting idle containers to sleep (\<open>crates/solon-service/src/sleep.rs\<close>).  The tables of
  \<open>State\<close> are maps and sets; instants and durations are milliseconds.  Each \<open>async\<close> method is cut
  where it gives up the lock on the state, so that the steps of the machine at the end interleave the way
  the tasks of the service do.
\<close>

section \<open>State\<close>

record sleep_settings =
  enabled :: bool
  idle :: nat
  never :: "string set"

definition default_sleep_settings :: sleep_settings where
  "default_sleep_settings = \<lparr>enabled = True, idle = 600000, never = {}\<rparr>"

record activity =
  last_seen :: nat
  conns :: nat

definition HTTP_PORTS :: "nat list" where
  "HTTP_PORTS = [80, 8080, 3000, 8000, 8069, 5000, 4200, 5173, 8888, 9000, 443, 8443, 4000, 5001, 8081, 8082]"

record sleep_state =
  by_ip :: "string \<rightharpoonup> string"
  by_name :: "string \<rightharpoonup> string"
  names :: "string \<rightharpoonup> string"
  eligible :: "string set"
  activities :: "string \<rightharpoonup> activity"
  sleeping :: "string set"

definition default_sleep_state :: sleep_state where
  "default_sleep_state =
     \<lparr>by_ip = Map.empty, by_name = Map.empty, names = Map.empty, eligible = {},
      activities = Map.empty, sleeping = {}\<rparr>"

section \<open>Operations\<close>

definition may_sleep :: "container_endpoint \<Rightarrow> bool" where
  "may_sleep e \<longleftrightarrow> published_tcp e \<noteq> [] \<or> (\<exists>p \<in> set (exposed_tcp e). p \<in> set HTTP_PORTS)"

definition note_endpoint :: "container_endpoint \<Rightarrow> sleep_state \<Rightarrow> sleep_state" where
  "note_endpoint e st =
     st\<lparr>by_ip := (by_ip st)(ep_ip e \<mapsto> ep_id e),
        by_name := (by_name st)(ep_name e \<mapsto> ep_id e),
        names := (names st)(ep_id e \<mapsto> ep_name e),
        eligible := (if may_sleep e then insert (ep_id e) (eligible st) else eligible st)\<rparr>"

text \<open>The second component of the result says whether the list of sleepers is notified as changed.\<close>

definition update_endpoints :: "container_endpoint list \<Rightarrow> sleep_state \<Rightarrow> sleep_state \<times> bool" where
  "update_endpoints endpoints st =
     (let st1 = st\<lparr>by_ip := Map.empty, by_name := Map.empty, names := Map.empty, eligible := {}\<rparr>;
          st2 = fold note_endpoint endpoints st1;
          alive = ep_id ` set endpoints;
          st3 = st2\<lparr>activities := activities st2 |` alive, sleeping := sleeping st2 \<inter> alive\<rparr>
      in (st3, sleeping st3 \<noteq> sleeping st2))"

definition on_container_event :: "string \<Rightarrow> string \<Rightarrow> sleep_state \<Rightarrow> sleep_state \<times> bool" where
  "on_container_event action i st =
     (if action \<in> {''unpause'', ''stop'', ''die'', ''kill'', ''destroy'', ''start''} then
        (st\<lparr>sleeping := sleeping st - {i},
            activities := (if action \<noteq> ''unpause'' then (activities st)(i := None) else activities st)\<rparr>,
         i \<in> sleeping st)
      else (st, False))"

definition set_agent :: "bool \<Rightarrow> sleep_state \<Rightarrow> sleep_state \<times> bool" where
  "set_agent present st = (if present then (st, False) else (default_sleep_state, True))"

definition name_of :: "string \<Rightarrow> sleep_state \<Rightarrow> string" where
  "name_of i st = (case names st i of Some n \<Rightarrow> n | None \<Rightarrow> take 12 i)"

text \<open>The first part of \<open>on_connection\<close>: count the connection, and see whether the container sleeps.\<close>

definition count_connection :: "nat \<Rightarrow> string \<Rightarrow> sleep_state \<Rightarrow> sleep_state" where
  "count_connection now i st =
     (if i \<in> eligible st then
        (let a = (case activities st i of Some a \<Rightarrow> a | None \<Rightarrow> \<lparr>last_seen = now, conns = 0\<rparr>)
         in st\<lparr>activities := (activities st)(i \<mapsto> \<lparr>last_seen = now, conns = Suc (conns a)\<rparr>)\<rparr>)
      else st)"

text \<open>Dropping the guard of a connection; the subtraction saturates.\<close>

definition drop_guard :: "nat \<Rightarrow> string \<Rightarrow> sleep_state \<Rightarrow> sleep_state" where
  "drop_guard now i st =
     (case activities st i of
        None \<Rightarrow> st
      | Some a \<Rightarrow> st\<lparr>activities := (activities st)(i \<mapsto> \<lparr>last_seen = now, conns = conns a - 1\<rparr>)\<rparr>)"

definition is_idle :: "sleep_settings \<Rightarrow> nat \<Rightarrow> activity \<Rightarrow> bool" where
  "is_idle cfg now a \<longleftrightarrow> conns a = 0 \<and> now - last_seen a \<ge> idle cfg"

definition candidate :: "sleep_settings \<Rightarrow> nat \<Rightarrow> sleep_state \<Rightarrow> string \<Rightarrow> bool" where
  "candidate cfg now st i \<longleftrightarrow>
     (case activities st i of
        None \<Rightarrow> False
      | Some a \<Rightarrow> is_idle cfg now a \<and> i \<notin> sleeping st
          \<and> (case names st i of Some n \<Rightarrow> n | None \<Rightarrow> []) \<notin> never cfg)"

definition still_idle :: "sleep_settings \<Rightarrow> nat \<Rightarrow> sleep_state \<Rightarrow> string \<Rightarrow> bool" where
  "still_idle cfg now st i \<longleftrightarrow> (case activities st i of Some a \<Rightarrow> is_idle cfg now a | None \<Rightarrow> False)"

definition is_late :: "sleep_state \<Rightarrow> string \<Rightarrow> bool" where
  "is_late st i \<longleftrightarrow> (case activities st i of Some a \<Rightarrow> conns a > 0 | None \<Rightarrow> False)"

section \<open>The machine\<close>

text \<open>What the daemon of the machine knows of a container.\<close>

datatype container_status = Running | Paused | Exited

text \<open>
  The tasks of connections, after they have counted themselves: waiting for the lock of the container,
  holding it before and after \<open>docker unpause\<close>, relaying.
\<close>

datatype conn_phase = Queued | Waking | Woken | Relaying

text \<open>
  The sleeping loop: resting, with candidates to handle, and the points inside the body: the
  candidate checked, found running, paused, found without (\<open>Settled\<close>) or with (\<open>Late\<close>) a connection.
  The settings are those read at the start of the round.
\<close>

datatype run_phase =
    Resting
  | Choosing sleep_settings "string list"
  | Checked sleep_settings string "string list"
  | Inspected sleep_settings string "string list"
  | PausedNow sleep_settings string "string list"
  | Settled sleep_settings string "string list"
  | Late sleep_settings string "string list"

fun handles :: "run_phase \<Rightarrow> string option" where
  "handles Resting = None"
| "handles (Choosing _ _) = None"
| "handles (Checked _ i _) = Some i"
| "handles (Inspected _ i _) = Some i"
| "handles (PausedNow _ i _) = Some i"
| "handles (Settled _ i _) = Some i"
| "handles (Late _ i _) = Some i"

record sleep_world =
  st :: sleep_state
  agent_up :: bool
  settings :: sleep_settings
  clock :: nat
  daemon :: "string \<Rightarrow> container_status"
  tasks :: "(string \<times> conn_phase) multiset"
  runner :: run_phase

text \<open>The lock of a container (\<open>op_lock\<close>) is held by a waking task or by the loop.\<close>

definition locked :: "sleep_world \<Rightarrow> string \<Rightarrow> bool" where
  "locked w i \<longleftrightarrow> (i, Waking) \<in># tasks w \<or> (i, Woken) \<in># tasks w \<or> handles (runner w) = Some i"

definition move :: "string \<Rightarrow> conn_phase \<Rightarrow> conn_phase \<Rightarrow> sleep_world \<Rightarrow> sleep_world" where
  "move i p q w = w\<lparr>tasks := add_mset (i, q) (tasks w - {#(i, p)#})\<rparr>"

text \<open>Steps of the connections.\<close>

inductive conn_step :: "sleep_world \<Rightarrow> sleep_world \<Rightarrow> bool" where
  arrive: "conn_step w (w\<lparr>st := count_connection (clock w) i (st w),
      tasks := add_mset (i, if i \<in> sleeping (st w) then Queued else Relaying) (tasks w)\<rparr>)"
    if "\<exists>k. by_ip (st w) k = Some i \<or> by_name (st w) k = Some i"
| take_lock: "conn_step w (move i Queued (if i \<in> sleeping (st w) then Waking else Relaying) w)"
    if "(i, Queued) \<in># tasks w" "\<not> locked w i"
| wake_ok: "conn_step w (move i Waking Woken w\<lparr>daemon := (daemon w)(i := Running)\<rparr>)"
    if "(i, Waking) \<in># tasks w" "agent_up w" "daemon w i = Paused"
| wake_failed: "conn_step w (move i Waking Woken w)" if "(i, Waking) \<in># tasks w"
| woken: "conn_step w (move i Woken Relaying w\<lparr>st := (st w)\<lparr>sleeping := sleeping (st w) - {i}\<rparr>\<rparr>)"
    if "(i, Woken) \<in># tasks w"
| close: "conn_step w (w\<lparr>st := drop_guard (clock w) i (st w), tasks := tasks w - {#(i, Relaying)#}\<rparr>)"
    if "(i, Relaying) \<in># tasks w"

text \<open>Steps of the sleeping loop.\<close>

inductive run_step :: "sleep_world \<Rightarrow> sleep_world \<Rightarrow> bool" where
  select: "run_step w (w\<lparr>runner := Choosing (settings w) is\<rparr>)"
    if "runner w = Resting" "enabled (settings w)" "agent_up w" "distinct is"
      "set is = {i. candidate (settings w) (clock w) (st w) i}"
| finish: "run_step w (w\<lparr>runner := Resting\<rparr>)" if "runner w = Choosing cfg []"
| check: "run_step w (w\<lparr>runner := (if still_idle cfg (clock w) (st w) i then Checked cfg i is else Choosing cfg is)\<rparr>)"
    if "runner w = Choosing cfg (i # is)" "\<not> locked w i"
| inspect: "run_step w (w\<lparr>runner := Inspected cfg i is\<rparr>)"
    if "runner w = Checked cfg i is" "agent_up w" "daemon w i = Running"
| inspect_no: "run_step w (w\<lparr>runner := Choosing cfg is\<rparr>)" if "runner w = Checked cfg i is"
| pause: "run_step w (w\<lparr>daemon := (daemon w)(i := Paused), runner := PausedNow cfg i is\<rparr>)"
    if "runner w = Inspected cfg i is" "agent_up w" "daemon w i = Running"
| pause_failed: "run_step w (w\<lparr>runner := Choosing cfg is\<rparr>)" if "runner w = Inspected cfg i is"
| late_check: "run_step w (w\<lparr>runner := (if is_late (st w) i then Late cfg i is else Settled cfg i is)\<rparr>)"
    if "runner w = PausedNow cfg i is"
| late_ok: "run_step w (w\<lparr>runner := Choosing cfg is, daemon := (daemon w)(i := Running)\<rparr>)"
    if "runner w = Late cfg i is" "agent_up w" "daemon w i = Paused"
| late_failed: "run_step w (w\<lparr>runner := Choosing cfg is\<rparr>)" if "runner w = Late cfg i is"
| asleep: "run_step w (w\<lparr>runner := Choosing cfg is, st := (st w)\<lparr>sleeping := insert i (sleeping (st w))\<rparr>\<rparr>)"
    if "runner w = Settled cfg i is"

text \<open>Steps of the surroundings: time, settings, the table of containers, events, the engine.\<close>

inductive env_step :: "sleep_world \<Rightarrow> sleep_world \<Rightarrow> bool" where
  tick: "env_step w (w\<lparr>clock := clock w + d\<rparr>)"
| configure: "env_step w (w\<lparr>settings := cfg\<rparr>)"
| endpoints: "env_step w (w\<lparr>st := fst (update_endpoints es (st w))\<rparr>)"
| event: "env_step w (w\<lparr>st := fst (on_container_event action i (st w))\<rparr>)"
| agent: "env_step w (w\<lparr>agent_up := b, st := fst (set_agent b (st w))\<rparr>)"
| container: "env_step w (w\<lparr>daemon := (daemon w)(i := s)\<rparr>)"

definition sleep_step :: "sleep_world \<Rightarrow> sleep_world \<Rightarrow> bool" where
  "sleep_step w w' \<longleftrightarrow> conn_step w w' \<or> run_step w w' \<or> env_step w w'"

section \<open>While the table of containers stands\<close>

definition tasks_of :: "sleep_world \<Rightarrow> string \<Rightarrow> nat" where
  "tasks_of w i = size (filter_mset (\<lambda>x. fst x = i) (tasks w))"

text \<open>
  What the daemon and the scheduler owe: \<open>docker unpause\<close> works when it is sent, and no connection
  arrives between the last look at the connections and the note that the container sleeps.
\<close>

definition reliable :: "sleep_world \<Rightarrow> sleep_world \<Rightarrow> bool" where
  "reliable w w' \<longleftrightarrow>
     (\<forall>cfg i is. runner w = Settled cfg i is \<longrightarrow> tasks_of w' i \<le> tasks_of w i)
     \<and> (\<forall>i. (i, Woken) \<in># tasks w' \<and> (i, Woken) \<notin># tasks w \<longrightarrow> daemon w' i \<noteq> Paused)
     \<and> (\<forall>cfg i is. runner w = Late cfg i is \<and> runner w' \<noteq> runner w \<longrightarrow> daemon w' i \<noteq> Paused)"

inductive quiet_step :: "sleep_world \<Rightarrow> sleep_world \<Rightarrow> bool" where
  "quiet_step w (w\<lparr>clock := clock w + d\<rparr>)"
| "quiet_step w (w\<lparr>settings := cfg\<rparr>)"

definition steady_step :: "sleep_world \<Rightarrow> sleep_world \<Rightarrow> bool" where
  "steady_step w w' \<longleftrightarrow> (conn_step w w' \<or> run_step w w' \<or> quiet_step w w') \<and> reliable w w'"

text \<open>The loop has paused the container and not yet noted it.\<close>

fun has_paused :: "run_phase \<Rightarrow> string option" where
  "has_paused (PausedNow _ i _) = Some i"
| "has_paused (Settled _ i _) = Some i"
| "has_paused (Late _ i _) = Some i"
| "has_paused _ = None"

fun may_freeze :: "run_phase \<Rightarrow> string option" where
  "may_freeze (PausedNow _ i _) = Some i"
| "may_freeze (Late _ i _) = Some i"
| "may_freeze _ = None"

fun settles :: "run_phase \<Rightarrow> string option" where
  "settles (Settled _ i _) = Some i"
| "settles _ = None"

definition counted :: "sleep_world \<Rightarrow> string \<Rightarrow> bool" where
  "counted w i \<longleftrightarrow>
     (case activities (st w) i of
        Some a \<Rightarrow> i \<in> eligible (st w) \<and> conns a = tasks_of w i
      | None \<Rightarrow> i \<in> eligible (st w) \<longrightarrow> tasks_of w i = 0)"

definition awake_inv :: "sleep_world \<Rightarrow> bool" where
  "awake_inv w \<longleftrightarrow>
     (\<forall>i. counted w i)
     \<and> (\<forall>i. daemon w i = Paused \<longrightarrow> i \<in> sleeping (st w) \<or> has_paused (runner w) = Some i)
     \<and> (\<forall>i. settles (runner w) = Some i \<longrightarrow> tasks_of w i = 0)
     \<and> (\<forall>i. (i, Relaying) \<in># tasks w \<longrightarrow> daemon w i = Paused \<longrightarrow> may_freeze (runner w) = Some i)
     \<and> (\<forall>i. (i, Woken) \<in># tasks w \<longrightarrow> daemon w i \<noteq> Paused)
     \<and> (\<forall>i. handles (runner w) = Some i \<longrightarrow>
          i \<in> eligible (st w) \<and> (i, Waking) \<notin># tasks w \<and> (i, Woken) \<notin># tasks w)"

lemma tasks_of_zero: "tasks_of w i = 0 \<longleftrightarrow> (\<forall>p. (i, p) \<notin># tasks w)"
  by (auto simp: tasks_of_def filter_mset_eq_mempty_iff)

lemma tasks_of_updates [simp]:
  "tasks_of (w\<lparr>runner := r\<rparr>) i = tasks_of w i" "tasks_of (w\<lparr>st := s\<rparr>) i = tasks_of w i"
  "tasks_of (w\<lparr>daemon := d\<rparr>) i = tasks_of w i" "tasks_of (w\<lparr>clock := n\<rparr>) i = tasks_of w i"
  "tasks_of (w\<lparr>settings := c\<rparr>) i = tasks_of w i"
  by (simp_all add: tasks_of_def)

lemma tasks_of_move: "(i, p) \<in># tasks w \<Longrightarrow> tasks_of (move i p q w) j = tasks_of w j"
  by (auto simp: tasks_of_def move_def filter_mset_add_mset size_Diff_singleton dest!: multi_member_split)

lemma counted_Some:
  "counted w i \<Longrightarrow> activities (st w) i = Some a \<Longrightarrow> i \<in> eligible (st w) \<and> conns a = tasks_of w i"
  by (simp add: counted_def)

lemma counted_None:
  "counted w i \<Longrightarrow> activities (st w) i = None \<Longrightarrow> i \<in> eligible (st w) \<Longrightarrow> tasks_of w i = 0"
  by (simp add: counted_def)

lemma counted_cong:
  "activities (st w') i = activities (st w) i \<Longrightarrow> eligible (st w') = eligible (st w) \<Longrightarrow>
     tasks_of w' i = tasks_of w i \<Longrightarrow> counted w' i = counted w i"
  by (cases "activities (st w) i") (simp_all add: counted_def)

lemma awake_counted: "awake_inv w \<Longrightarrow> counted w i"
  by (simp add: awake_inv_def)

lemma not_late_no_tasks: "counted w i \<Longrightarrow> i \<in> eligible (st w) \<Longrightarrow> \<not> is_late (st w) i \<Longrightarrow> tasks_of w i = 0"
  by (cases "activities (st w) i") (auto simp: is_late_def dest: counted_Some counted_None)

lemma still_idle_eligible: "counted w i \<Longrightarrow> still_idle cfg n (st w) i \<Longrightarrow> i \<in> eligible (st w)"
  by (cases "activities (st w) i") (auto simp: still_idle_def dest: counted_Some)

lemma awake_run_step:
  assumes "run_step w w'" "reliable w w'" "awake_inv w"
  shows "awake_inv w'"
proof -
  have same: "tasks w' = tasks w" "activities (st w') = activities (st w)" "eligible (st w') = eligible (st w)"
    using assms(1) by (auto elim!: run_step.cases)
  have t: "tasks_of w' i = tasks_of w i" for i by (simp add: tasks_of_def same)
  have cw: "counted w i" for i using assms(3) by (rule awake_counted)
  have c: "counted w' i" for i using cw [of i] counted_cong [of w' i w] same t by simp
  note zero = not_late_no_tasks [OF cw] and elig = still_idle_eligible [OF cw]
  show ?thesis
    using assms(1)
  proof cases
    case (check cfg i "is")
    with assms(3) c elig show ?thesis
      by (auto simp: awake_inv_def locked_def)
  next
    case (late_check cfg i "is")
    have "tasks_of w i = 0 \<and> (i, Relaying) \<notin># tasks w" if "\<not> is_late (st w) i"
      using that assms(3) late_check zero [of i] by (simp add: awake_inv_def tasks_of_zero)
    with assms(3) c late_check show ?thesis by (auto simp: awake_inv_def)
  next
    case (late_failed cfg i "is")
    with assms(2,3) c show ?thesis by (auto simp: awake_inv_def reliable_def)
  qed (use assms(3) c in \<open>auto simp: awake_inv_def split: if_splits\<close>)
qed


lemma tasks_of_arrive:
  "tasks_of (w\<lparr>st := s, tasks := add_mset (i, p) (tasks w)\<rparr>) j = (if j = i then Suc (tasks_of w j) else tasks_of w j)"
  by (simp add: tasks_of_def)

lemma tasks_of_close:
  "(i, p) \<in># tasks w \<Longrightarrow>
     tasks_of (w\<lparr>st := s, tasks := tasks w - {#(i, p)#}\<rparr>) j = (if j = i then tasks_of w j - 1 else tasks_of w j)"
  by (auto simp: tasks_of_def dest!: multi_member_split)

lemma in_move:
  "(j, r) \<in># tasks (move i p q w) \<Longrightarrow> (j, r) = (i, q) \<or> (j, r) \<in># tasks w"
  by (auto simp: move_def dest: in_diffD)

lemma move_fields [simp]:
  "st (move i p q w) = st w" "daemon (move i p q w) = daemon w" "runner (move i p q w) = runner w"
  by (simp_all add: move_def)

lemma has_paused_handles: "has_paused r = Some i \<Longrightarrow> handles r = Some i"
  by (cases r) auto

lemma awake_conn_step:
  assumes "conn_step w w'" "reliable w w'" "awake_inv w"
  shows "awake_inv w'"
  using assms(1)
proof cases
  case (arrive i)
  let ?p = "if i \<in> sleeping (st w) then Queued else Relaying"
  have t: "tasks_of w' j = (if j = i then Suc (tasks_of w j) else tasks_of w j)" for j
    using arrive tasks_of_arrive by simp
  have e: "eligible (st w') = eligible (st w)" "sleeping (st w') = sleeping (st w)"
    using arrive by (simp_all add: count_connection_def Let_def)
  have c: "counted w' j" for j
  proof (cases "activities (st w) j")
    case None
    then show ?thesis using arrive awake_counted [OF assms(3), of j] t [of j] e
      by (auto simp: counted_def count_connection_def Let_def)
  next
    case (Some a)
    then show ?thesis using arrive awake_counted [OF assms(3), of j] t [of j] e
      by (auto simp: counted_def count_connection_def Let_def)
  qed
  have noset: "settles (runner w) \<noteq> Some i"
    using assms(2) arrive t [of i] by (cases "runner w") (auto simp: reliable_def)
  have "may_freeze (runner w) = Some i" if "daemon w i = Paused" "i \<notin> sleeping (st w)"
    using assms(3) that noset by (cases "runner w") (auto simp: awake_inv_def)
  then show ?thesis
    using assms(3) c e t noset arrive by (auto simp: awake_inv_def)
next
  case (take_lock i)
  have "counted w' j" for j
    using take_lock awake_counted [OF assms(3), of j] counted_cong [of w' j w] tasks_of_move by simp
  then show ?thesis
    using assms(3) take_lock tasks_of_move
    by (auto simp: awake_inv_def locked_def dest!: in_move dest: has_paused_handles split: if_splits)
next
  case (wake_ok i)
  have "counted w' j" for j
    using wake_ok awake_counted [OF assms(3), of j] counted_cong [of w' j w] tasks_of_move by simp
  then show ?thesis
    using assms(3) wake_ok tasks_of_move
    by (auto simp: awake_inv_def dest!: in_move split: if_splits)
next
  case (wake_failed i)
  have "counted w' j" for j
    using wake_failed awake_counted [OF assms(3), of j] counted_cong [of w' j w] tasks_of_move by simp
  moreover have "daemon w i \<noteq> Paused"
  proof -
    have "(i, Woken) \<in># tasks w'" using wake_failed by (simp add: move_def)
    then show ?thesis using assms(2,3) wake_failed by (auto simp: reliable_def awake_inv_def)
  qed
  ultimately show ?thesis
    using assms(3) wake_failed tasks_of_move
    by (auto simp: awake_inv_def dest!: in_move split: if_splits)
next
  case (woken i)
  have "counted w' j" for j
    using woken awake_counted [OF assms(3), of j] counted_cong [of w' j w] tasks_of_move by simp
  then show ?thesis
    using assms(3) woken tasks_of_move
    by (auto simp: awake_inv_def dest!: in_move split: if_splits)
next
  case (close i)
  have t: "tasks_of w' j = (if j = i then tasks_of w j - 1 else tasks_of w j)" for j
    using close tasks_of_close by simp
  have e: "eligible (st w') = eligible (st w)" "sleeping (st w') = sleeping (st w)"
    using close by (simp_all add: drop_guard_def split: option.splits)
  have "counted w' j" for j
    using close awake_counted [OF assms(3), of j] t [of j] e
    by (cases "activities (st w) j") (auto simp: counted_def drop_guard_def split: option.splits)
  then show ?thesis
    using assms(3) close e t by (auto simp: awake_inv_def dest: in_diffD)
qed


lemma awake_quiet_step: "quiet_step w w' \<Longrightarrow> awake_inv w \<Longrightarrow> awake_inv w'"
  by (auto elim!: quiet_step.cases simp: awake_inv_def counted_def split: option.splits)

interpretation steady: machine steady_step awake_inv
  by unfold_locales (auto simp: steady_step_def intro: awake_conn_step awake_run_step awake_quiet_step)

text \<open>The service after the table of containers was read: nothing tracked, nothing paused.\<close>

definition fresh :: "sleep_world \<Rightarrow> bool" where
  "fresh w \<longleftrightarrow> activities (st w) = Map.empty \<and> sleeping (st w) = {} \<and> tasks w = {#}
     \<and> runner w = Resting \<and> (\<forall>i. daemon w i \<noteq> Paused)"

lemma fresh_awake: "fresh w \<Longrightarrow> awake_inv w"
  by (auto simp: fresh_def awake_inv_def counted_def tasks_of_def)

section \<open>Properties\<close>


text \<open>An example: one eligible container.\<close>

definition web :: container_endpoint where
  "web = \<lparr>ep_id = ''w'', ep_name = ''web'', ep_compose_project = None, ep_compose_service = None,
     ep_ip = ''172.17.0.2'', exposed_tcp = [80], published_tcp = []\<rparr>"

definition web_world :: sleep_world where
  "web_world = \<lparr>st = fst (update_endpoints [web] default_sleep_state), agent_up = True,
     settings = default_sleep_settings, clock = 0, daemon = (\<lambda>_. Running), tasks = {#}, runner = Resting\<rparr>"

lemma web_world_fresh: "fresh web_world"
  by (simp add: fresh_def web_world_def update_endpoints_def default_sleep_state_def note_endpoint_def Let_def)

lemma web_known: "by_ip (st web_world) ''172.17.0.2'' = Some ''w''" "''w'' \<in> eligible (st web_world)"
  "activities (st web_world) = Map.empty" "sleeping (st web_world) = {}"
  by (simp_all add: web_world_def update_endpoints_def default_sleep_state_def note_endpoint_def web_def
      may_sleep_def HTTP_PORTS_def Let_def)

definition web_connected :: sleep_world where
  "web_connected = web_world\<lparr>st := count_connection 0 ''w'' (st web_world), tasks := {#(''w'', Relaying)#}\<rparr>"

lemma web_arrives: "conn_step web_world web_connected"
  using conn_step.arrive [of web_world "''w''"] web_known
  by (force simp: web_connected_def web_world_def)


text \<open>
  The gap is real: a connection that arrives after the loop has looked for late connections and before
  it notes the sleeper is relayed to a paused container, with the loop at rest, so that it stays
  frozen until another connection wakes the container.
\<close>

theorem late_connection_freezes:
  "\<exists>w. sleep_step\<^sup>*\<^sup>* web_world w \<and> (''w'', Relaying) \<in># tasks w \<and> daemon w ''w'' = Paused
      \<and> runner w = Resting \<and> ''w'' \<in> sleeping (st w)"
proof -
  let ?cfg = "settings web_world"
  let ?w2 = "web_connected\<lparr>st := drop_guard 0 ''w'' (st web_connected), tasks := {#}\<rparr>"
  let ?w3 = "?w2\<lparr>clock := 600000\<rparr>"
  let ?w8 = "?w3\<lparr>daemon := (daemon ?w3)(''w'' := Paused), runner := Settled ?cfg ''w'' []\<rparr>"
  let ?w9 = "?w8\<lparr>st := count_connection 600000 ''w'' (st ?w8), tasks := {#(''w'', Relaying)#}\<rparr>"
  let ?w11 = "?w9\<lparr>st := (st ?w9)\<lparr>sleeping := {''w''}\<rparr>, runner := Resting\<rparr>"
  have f: "clock web_world = 0" "clock web_connected = 0" "runner web_connected = Resting"
    "runner web_world = Resting" "agent_up web_world" "agent_up web_connected"
    "daemon web_connected = (\<lambda>_. Running)" "?cfg = default_sleep_settings" "settings web_connected = ?cfg"
    "tasks web_connected = {#(''w'', Relaying)#}"
    by (simp_all add: web_world_def web_connected_def)
  have st1: "activities (st web_connected) = [''w'' \<mapsto> \<lparr>last_seen = 0, conns = 1\<rparr>]"
      "by_ip (st web_connected) ''172.17.0.2'' = Some ''w''" "''w'' \<in> eligible (st web_connected)"
      "sleeping (st web_connected) = {}" "names (st web_connected) = names (st web_world)"
    using web_known by (simp_all add: web_connected_def count_connection_def Let_def)
  then have st2: "activities (st ?w2) = [''w'' \<mapsto> \<lparr>last_seen = 0, conns = 0\<rparr>]"
      "by_ip (st ?w2) ''172.17.0.2'' = Some ''w''" "''w'' \<in> eligible (st ?w2)" "sleeping (st ?w2) = {}"
    by (simp_all add: drop_guard_def)
  have 1: "sleep_step web_world web_connected" using web_arrives by (simp add: sleep_step_def)
  have 2: "sleep_step web_connected ?w2"
    using conn_step.close [of "''w''" web_connected] f by (simp add: sleep_step_def)
  have 3: "sleep_step ?w2 ?w3" using env_step.tick [of ?w2 600000] f by (simp add: sleep_step_def)
  have cand: "candidate ?cfg 600000 (st ?w2) i \<longleftrightarrow> i = ''w''" for i
    using st2 f by (auto simp: candidate_def is_idle_def default_sleep_settings_def)
  have 4: "sleep_step ?w3 (?w3\<lparr>runner := Choosing ?cfg [''w'']\<rparr>)" (is "sleep_step _ ?w4")
  proof -
    have "enabled ?cfg" "{i. candidate ?cfg 600000 (st ?w2) i} = {''w''}"
      using cand by (auto simp: f default_sleep_settings_def)
    then have "run_step ?w3 ?w4" using run_step.select [of ?w3 "[''w'']"] f by simp
    then show ?thesis by (simp add: sleep_step_def)
  qed
  have idle: "still_idle ?cfg 600000 (st ?w2) ''w''"
    using st2 f by (simp add: still_idle_def is_idle_def default_sleep_settings_def)
  have 5: "sleep_step ?w4 (?w3\<lparr>runner := Checked ?cfg ''w'' []\<rparr>)" (is "sleep_step _ ?w5")
    using run_step.check [of ?w4 ?cfg "''w''" "[]"] idle by (simp add: sleep_step_def locked_def)
  have 6: "sleep_step ?w5 (?w3\<lparr>runner := Inspected ?cfg ''w'' []\<rparr>)" (is "sleep_step _ ?w6")
    using run_step.inspect [of ?w5 ?cfg "''w''" "[]"] f by (simp add: sleep_step_def)
  have 7: "sleep_step ?w6 (?w3\<lparr>daemon := (daemon ?w3)(''w'' := Paused), runner := PausedNow ?cfg ''w'' []\<rparr>)"
      (is "sleep_step _ ?w7")
    using run_step.pause [of ?w6 ?cfg "''w''" "[]"] f by (simp add: sleep_step_def)
  have not_late: "\<not> is_late (st ?w2) ''w''" using st2 by (simp add: is_late_def)
  have 8: "sleep_step ?w7 ?w8"
    using run_step.late_check [of ?w7 ?cfg "''w''" "[]"] not_late by (simp add: sleep_step_def)
  have 9: "sleep_step ?w8 ?w9"
    using conn_step.arrive [of ?w8 "''w''"] st2 by (auto simp: sleep_step_def)
  have sl: "sleeping (st ?w9) = {}" using st2 by (simp add: count_connection_def Let_def)
  have 10: "sleep_step ?w9 (?w9\<lparr>runner := Choosing ?cfg [], st := (st ?w9)\<lparr>sleeping := {''w''}\<rparr>\<rparr>)"
      (is "sleep_step _ ?w10")
    using run_step.asleep [of ?w9 ?cfg "''w''" "[]"] sl by (simp add: sleep_step_def)
  have 11: "sleep_step ?w10 ?w11"
    using run_step.finish [of ?w10 ?cfg] by (simp add: sleep_step_def)
  have "sleep_step\<^sup>*\<^sup>* web_world ?w11"
    using 1 2 3 4 5 6 7 8 9 10 11 by (meson converse_rtranclp_into_rtranclp rtranclp.rtrancl_refl)
  then show ?thesis by (intro exI [of _ ?w11]) simp
qed

text \<open>
  Restarting a container forgets its connections but not their guards: when a connection opened
  before the restart ends after a new one was opened, the counter is back at zero with the new
  connection still open, so that the idle rule no longer protects it.
\<close>

theorem stale_guard_uncounts:
  assumes "i \<in> eligible s"
  shows "\<exists>a. activities (drop_guard tc i (count_connection tb i
                (fst (on_container_event ''start'' i (count_connection ta i s))))) i = Some a
       \<and> conns a = 0 \<and> (td \<ge> tc + idle cfg \<longrightarrow> is_idle cfg td a)"
  using assms by (auto simp: drop_guard_def count_connection_def on_container_event_def is_idle_def)

theorem stale_guard_uncounts_witness:
  "\<exists>a. activities (drop_guard 3 ''w'' (count_connection 2 ''w''
          (fst (on_container_event ''start'' ''w'' (count_connection 1 ''w'' (st web_world)))))) ''w'' = Some a
     \<and> conns a = 0 \<and> is_idle default_sleep_settings 700000 a"
  using stale_guard_uncounts [OF web_known(2), where ta = 1 and tb = 2 and tc = 3 and td = 700000 and cfg = default_sleep_settings]
  by (simp add: default_sleep_settings_def)

end
