(* ===== verification/Port_Relays.thy ===== *)
theory Port_Relays
  imports Protocol Transitions "HOL-Library.AList"
begin

text \<open>
  The relays of published ports (\<open>crates/solon-service/src/ports.rs\<close>): one listener of the host for
  every TCP binding announced by the agent.  The hash map of active relays is an association
  list with distinct keys; its order stands for the order in which the map is walked.  The
  listening tasks that have not been aborted are kept beside it.
\<close>

record relay_key =
  key_host_ip :: string
  key_host_port :: nat
  key_protocol :: string

record port_relays =
  active :: "(relay_key \<times> port_binding) list"
  listeners :: "(relay_key \<times> port_binding) list"

definition new_relays :: port_relays where
  "new_relays = \<lparr>active = [], listeners = []\<rparr>"

definition key_of :: "port_binding \<Rightarrow> relay_key" where
  "key_of b = \<lparr>key_host_ip = host_ip b, key_host_port = host_port b, key_protocol = protocol b\<rparr>"

text \<open>Collecting into a hash map: a later binding with the same key replaces an earlier one.\<close>

definition wanted :: "port_binding list \<Rightarrow> (relay_key \<times> port_binding) list" where
  "wanted bindings =
     fold (\<lambda>b m. AList.update (key_of b) b m) (filter (\<lambda>b. protocol b = ''tcp'') bindings) []"

definition same_target :: "port_binding \<Rightarrow> port_binding \<Rightarrow> bool" where
  "same_target w b \<longleftrightarrow> container_ip w = container_ip b \<and> container_port w = container_port b"

definition stale :: "(relay_key \<times> port_binding) list \<Rightarrow> relay_key \<times> port_binding \<Rightarrow> bool" where
  "stale want kb =
     (case map_of want (fst kb) of None \<Rightarrow> True | Some w \<Rightarrow> \<not> same_target w (snd kb))"

definition apply_bindings :: "port_binding list \<Rightarrow> port_relays \<Rightarrow> port_relays" where
  "apply_bindings bindings r =
     (let want = wanted bindings;
          gone = filter (stale want) (active r);
          kept = filter (\<lambda>kb. fst kb \<notin> fst ` set gone) (active r);
          live = filter (\<lambda>kb. kb \<notin> set gone) (listeners r);
          opened = filter (\<lambda>kb. fst kb \<notin> fst ` set kept) want
      in \<lparr>active = kept @ opened, listeners = live @ opened\<rparr>)"

definition clear :: "port_relays \<Rightarrow> port_relays" where
  "clear r = \<lparr>active = [], listeners = filter (\<lambda>kb. kb \<notin> set (active r)) (listeners r)\<rparr>"

definition relay_count :: "port_relays \<Rightarrow> nat" where
  "relay_count r = length (active r)"

definition is_empty :: "port_relays \<Rightarrow> bool" where
  "is_empty r \<longleftrightarrow> active r = []"

text \<open>The attempts of a listener to take its port: the outcomes of the successive attempts are given.\<close>

datatype bind_outcome = Bound | AddrInUse | BindFailed

fun try_bind :: "(nat \<Rightarrow> bind_outcome) \<Rightarrow> nat list \<Rightarrow> bool" where
  "try_bind outcome_of [] = False"
| "try_bind outcome_of (attempt # rest) =
     (case outcome_of attempt of
        Bound \<Rightarrow> True
      | AddrInUse \<Rightarrow> if attempt < 14 then try_bind outcome_of rest else False
      | BindFailed \<Rightarrow> False)"

definition listen_binds :: "(nat \<Rightarrow> bind_outcome) \<Rightarrow> bool" where
  "listen_binds outcome_of = try_bind outcome_of [0..<15]"

section \<open>Lemmas\<close>

lemma find_append: "find P (xs @ ys) = (case find P xs of Some x \<Rightarrow> Some x | None \<Rightarrow> find P ys)"
  by (induction xs) auto

lemma wanted_fold:
  "map_of (fold (\<lambda>b m. AList.update (key_of b) b m) bs m) k
     = (case find (\<lambda>b. key_of b = k) (rev bs) of Some b \<Rightarrow> Some b | None \<Rightarrow> map_of m k)"
  by (induction bs arbitrary: m) (auto simp: find_append update_conv' split: option.splits)

lemma distinct_wanted_fold:
  "distinct (map fst m) \<Longrightarrow> distinct (map fst (fold (\<lambda>b m. AList.update (key_of b) b m) bs m))"
  by (induction bs arbitrary: m) (simp_all add: distinct_update)

lemma distinct_wanted: "distinct (map fst (wanted bs))"
  by (simp add: wanted_def distinct_wanted_fold)

text \<open>The relay wanted for a key is the last TCP binding with that key.\<close>

lemma map_of_wanted:
  "map_of (wanted bs) k = find (\<lambda>b. key_of b = k) (rev (filter (\<lambda>b. protocol b = ''tcp'') bs))"
  by (simp add: wanted_def wanted_fold split: option.split)

text \<open>The invariant: every key once, and the listening tasks are exactly those of the active relays.\<close>

definition relays_inv :: "port_relays \<Rightarrow> bool" where
  "relays_inv r \<longleftrightarrow> distinct (map fst (active r)) \<and> set (listeners r) = set (active r)"

lemma relays_inv_new: "relays_inv new_relays"
  by (simp add: relays_inv_def new_relays_def)

lemma relays_inv_clear: "relays_inv r \<Longrightarrow> relays_inv (clear r)"
  by (auto simp: relays_inv_def clear_def)

lemma gone_keys:
  "distinct (map fst xs) \<Longrightarrow> (k, b) \<in> set xs \<Longrightarrow> k \<in> fst ` set (filter P xs) \<longleftrightarrow> P (k, b)"
  by (force dest: eq_key_imp_eq_value)

lemma disjoint_filter_keys: "set (map fst xs) \<inter> set (map fst (filter (\<lambda>kb. fst kb \<notin> fst ` set xs) ys)) = {}"
  by (auto simp: image_iff)

lemma kept_not_stale:
  assumes "relays_inv r"
  shows "filter (\<lambda>kb. fst kb \<notin> fst ` set (filter P (active r))) (active r) = filter (\<lambda>kb. \<not> P kb) (active r)"
proof (rule filter_cong [OF refl])
  fix x assume "x \<in> set (active r)"
  with assms gone_keys [of "active r" "fst x" "snd x" P]
  show "(fst x \<notin> fst ` set (filter P (active r))) = (\<not> P x)" by (simp add: relays_inv_def)
qed

lemma apply_active:
  assumes "relays_inv r"
  shows "active (apply_bindings bs r)
       = filter (\<lambda>kb. \<not> stale (wanted bs) kb) (active r)
         @ filter (\<lambda>kb. fst kb \<notin> fst ` set (filter (\<lambda>kb. \<not> stale (wanted bs) kb) (active r))) (wanted bs)"
  unfolding apply_bindings_def Let_def kept_not_stale [OF assms] by simp

lemma apply_listeners:
  assumes "relays_inv r"
  shows "set (listeners (apply_bindings bs r)) = set (active (apply_bindings bs r))"
  using assms unfolding apply_bindings_def Let_def kept_not_stale [OF assms] by (auto simp: relays_inv_def)

lemma relays_inv_apply:
  assumes "relays_inv r" shows "relays_inv (apply_bindings bs r)"
proof -
  have "distinct (map fst (active (apply_bindings bs r)))"
    unfolding apply_active [OF assms] map_append distinct_append
  proof (intro conjI)
    show "set (map fst (filter (\<lambda>kb. \<not> stale (wanted bs) kb) (active r)))
      \<inter> set (map fst (filter (\<lambda>kb. fst kb \<notin> fst ` set (filter (\<lambda>kb. \<not> stale (wanted bs) kb) (active r)))
            (wanted bs))) = {}" by (rule disjoint_filter_keys)
  qed (use assms distinct_wanted [of bs] in \<open>auto simp: relays_inv_def intro: distinct_map_filter\<close>)
  then show ?thesis using apply_listeners [OF assms] by (simp add: relays_inv_def)
qed

inductive relay_step :: "port_relays \<Rightarrow> port_relays \<Rightarrow> bool" where
  "relay_step r (apply_bindings bs r)"
| "relay_step r (clear r)"

interpretation relays: machine relay_step relays_inv
  by unfold_locales (auto elim!: relay_step.cases intro: relays_inv_apply relays_inv_clear)


lemma map_of_filter_keys:
  "distinct (map fst xs) \<Longrightarrow> map_of (filter P xs) k = (case map_of xs k of Some b \<Rightarrow> if P (k, b) then Some b else None | None \<Rightarrow> None)"
  by (induction xs) (auto split: option.splits if_splits dest: map_of_SomeD, force)

lemma map_of_apply:
  assumes "relays_inv r"
  shows "map_of (active (apply_bindings bs r)) k =
     (case map_of (wanted bs) k of
        None \<Rightarrow> None
      | Some w \<Rightarrow> (case map_of (active r) k of
                    Some b \<Rightarrow> if same_target w b then Some b else Some w
                  | None \<Rightarrow> Some w))"
proof -
  let ?kept = "filter (\<lambda>kb. \<not> stale (wanted bs) kb) (active r)"
  have d: "distinct (map fst (active r))" using assms by (simp add: relays_inv_def)
  have kept: "map_of ?kept k = (case map_of (active r) k of
      Some b \<Rightarrow> if \<not> stale (wanted bs) (k, b) then Some b else None | None \<Rightarrow> None)"
    by (rule map_of_filter_keys [OF d])
  have mem: "k \<in> fst ` set ?kept \<longleftrightarrow> map_of ?kept k \<noteq> None" by (simp add: map_of_eq_None_iff)
  have "map_of (filter (\<lambda>kb. fst kb \<notin> fst ` set ?kept) (wanted bs)) k
      = (case map_of (wanted bs) k of Some b \<Rightarrow> if k \<notin> fst ` set ?kept then Some b else None | None \<Rightarrow> None)"
    unfolding map_of_filter_keys [OF distinct_wanted] by (simp del: set_filter split: option.split)
  then show ?thesis
    unfolding apply_active [OF assms] map_of_append map_add_def mem kept
    by (auto simp: stale_def split: option.splits if_splits)
qed


lemma try_bind_upt:
  "n \<le> 15 \<Longrightarrow> try_bind f [n..<15] \<longleftrightarrow> (\<exists>k. n \<le> k \<and> k < 15 \<and> f k = Bound \<and> (\<forall>j. n \<le> j \<and> j < k \<longrightarrow> f j = AddrInUse))"
proof (induction "15 - n" arbitrary: n)
  case (Suc d)
  then have n: "n < 15" by simp
  then have u: "[n..<15] = n # [Suc n..<15]" by (simp add: upt_conv_Cons)
  have ih: "try_bind f [Suc n..<15] \<longleftrightarrow>
      (\<exists>k. Suc n \<le> k \<and> k < 15 \<and> f k = Bound \<and> (\<forall>j. Suc n \<le> j \<and> j < k \<longrightarrow> f j = AddrInUse))"
    using Suc n by (intro Suc.hyps) auto
  show ?case
  proof (cases "f n")
    case Bound
    with n show ?thesis unfolding u by auto
  next
    case BindFailed
    then show ?thesis unfolding u using n by (auto simp: le_eq_less_or_eq dest: spec [of _ n])
  next
    case AddrInUse
    have "(\<exists>k. n \<le> k \<and> k < 15 \<and> f k = Bound \<and> (\<forall>j. n \<le> j \<and> j < k \<longrightarrow> f j = AddrInUse)) \<longleftrightarrow>
      (\<exists>k. Suc n \<le> k \<and> k < 15 \<and> f k = Bound \<and> (\<forall>j. Suc n \<le> j \<and> j < k \<longrightarrow> f j = AddrInUse))"
      using AddrInUse by (metis Suc_leD Suc_le_eq bind_outcome.distinct(1) le_eq_less_or_eq)
    with AddrInUse ih show ?thesis unfolding u by (cases "n < 14") (auto simp: not_less)
  qed
qed simp

section \<open>Properties\<close>

text \<open>
  C8. Applying a full list of bindings leaves exactly the wanted relays: after any history of
  updates and resets, a key is active if and only if some TCP binding has it, its relay leads to the
  address and port of the last such binding, every active relay has its listening task and no
  other task is left; and a relay whose target did not change is kept as it was.
\<close>

theorem relays_follow_bindings:
  assumes "relay_step\<^sup>*\<^sup>* new_relays r"
  shows "set (listeners (apply_bindings bs r)) = set (active (apply_bindings bs r))
       \<and> map_of (active (apply_bindings bs r)) k =
         (case find (\<lambda>b. key_of b = k) (rev (filter (\<lambda>b. protocol b = ''tcp'') bs)) of
            None \<Rightarrow> None
          | Some w \<Rightarrow> (case map_of (active r) k of
                        Some b \<Rightarrow> if same_target w b then Some b else Some w
                      | None \<Rightarrow> Some w))"
proof -
  have "relays_inv r" using relays.run_keeps [OF assms] relays_inv_new by blast
  then show ?thesis using apply_listeners map_of_apply by (simp add: map_of_wanted)
qed

definition sample_binding :: "string \<Rightarrow> string \<Rightarrow> port_binding" where
  "sample_binding ip name =
     \<lparr>container_id = ''i'', protocol = ''tcp'', host_ip = ''0.0.0.0'', host_port = 8080, container_ip = ip,
      container_port = 80, container_name = name, compose_project = None, compose_service = None\<rparr>"

theorem relays_follow_bindings_witness:
  "map_of (active (apply_bindings [sample_binding ''172.17.0.3'' ''web'']
       (apply_bindings [sample_binding ''172.17.0.2'' ''web''] new_relays)))
     (key_of (sample_binding ''172.17.0.2'' ''web'')) = Some (sample_binding ''172.17.0.3'' ''web'')"
proof -
  let ?b = "sample_binding ''172.17.0.2'' ''web''"
  have s: "relay_step\<^sup>*\<^sup>* new_relays (apply_bindings [?b] new_relays)"
    by (intro r_into_rtranclp relay_step.intros)
  have "map_of (active (apply_bindings [?b] new_relays)) (key_of ?b) = Some ?b" by code_simp
  with relays_follow_bindings [OF s, of "[sample_binding ''172.17.0.3'' ''web'']" "key_of ?b"] show ?thesis
    by (simp add: key_of_def sample_binding_def same_target_def)
qed

text \<open>
  What an unchanged target hides: when another container takes over the address and port of a
  published one, the relay goes on under the old container's name, and it is by that name that a
  connection wakes its container.
\<close>

theorem relay_keeps_old_name:
  assumes "relay_step\<^sup>*\<^sup>* new_relays r" "map_of (active r) (key_of w) = Some b"
    and "protocol w = ''tcp''" "same_target w b"
  shows "map_of (active (apply_bindings [w] r)) (key_of w) = Some b"
proof -
  have "relays_inv r" using relays.run_keeps [OF assms(1)] relays_inv_new by blast
  then show ?thesis using assms(2-4) by (simp add: map_of_apply map_of_wanted)
qed

theorem relay_keeps_old_name_witness:
  "map_of (active (apply_bindings [sample_binding ''172.17.0.2'' ''new'']
       (apply_bindings [sample_binding ''172.17.0.2'' ''old''] new_relays)))
     (key_of (sample_binding ''172.17.0.2'' ''new'')) = Some (sample_binding ''172.17.0.2'' ''old'')"
proof -
  let ?b = "sample_binding ''172.17.0.2'' ''old''"
  let ?w = "sample_binding ''172.17.0.2'' ''new''"
  have s: "relay_step\<^sup>*\<^sup>* new_relays (apply_bindings [?b] new_relays)"
    by (intro r_into_rtranclp relay_step.intros)
  have m: "map_of (active (apply_bindings [?b] new_relays)) (key_of ?w) = Some ?b" by code_simp
  have "protocol ?w = ''tcp''" "same_target ?w ?b" by code_simp+
  with relay_keeps_old_name [OF s m] show ?thesis by simp
qed

end
