(* ===== verification/Sha256.thy ===== *)
theory Sha256
  imports Solon_Prelude
begin

text \<open>
  The SHA-256 of the image files (\<open>crates/solon-service/src/paths.rs\<close>, module \<open>sha2\<close>): an
  incremental hasher with a buffer of the bytes not yet in a full block.  The message schedule is
  the array \<open>w\<close>, the state the eight words; additions wrap at 32 bits.
\<close>

unbundle bit_operations_syntax

type_synonym u32 = "32 word"

definition K :: "u32 list" where
  "K = concat
     [[0x428a2f98, 0x71374491, 0xb5c0fbcf, 0xe9b5dba5, 0x3956c25b, 0x59f111f1, 0x923f82a4],
      [0xab1c5ed5, 0xd807aa98, 0x12835b01, 0x243185be, 0x550c7dc3, 0x72be5d74, 0x80deb1fe],
      [0x9bdc06a7, 0xc19bf174, 0xe49b69c1, 0xefbe4786, 0x0fc19dc6, 0x240ca1cc, 0x2de92c6f],
      [0x4a7484aa, 0x5cb0a9dc, 0x76f988da, 0x983e5152, 0xa831c66d, 0xb00327c8, 0xbf597fc7],
      [0xc6e00bf3, 0xd5a79147, 0x06ca6351, 0x14292967, 0x27b70a85, 0x2e1b2138, 0x4d2c6dfc],
      [0x53380d13, 0x650a7354, 0x766a0abb, 0x81c2c92e, 0x92722c85, 0xa2bfe8a1, 0xa81a664b],
      [0xc24b8b70, 0xc76c51a3, 0xd192e819, 0xd6990624, 0xf40e3585, 0x106aa070, 0x19a4c116],
      [0x1e376c08, 0x2748774c, 0x34b0bcb5, 0x391c0cb3, 0x4ed8aa4a, 0x5b9cca4f, 0x682e6ff3],
      [0x748f82ee, 0x78a5636f, 0x84c87814, 0x8cc70208, 0x90befffa, 0xa4506ceb, 0xbef9a3f7],
      [0xc67178f2]]"

record sha256 =
  hstate :: "u32 list"
  hbuffer :: bytes
  hlength :: nat

definition sha256_new :: sha256 where
  "sha256_new =
     \<lparr>hstate = [0x6a09e667, 0xbb67ae85, 0x3c6ef372, 0xa54ff53a, 0x510e527f, 0x9b05688c, 0x1f83d9ab, 0x5be0cd19],
      hbuffer = [], hlength = 0\<rparr>"

definition rotate_right :: "nat \<Rightarrow> u32 \<Rightarrow> u32" where
  "rotate_right n w = drop_bit n w OR push_bit (32 - n) w"

definition from_be_bytes :: "bytes \<Rightarrow> u32" where
  "from_be_bytes b = of_nat (((of_char (b ! 0) * 256 + of_char (b ! 1)) * 256 + of_char (b ! 2)) * 256 + of_char (b ! 3))"

fun words_of :: "bytes \<Rightarrow> u32 list" where
  "words_of (a # b # c # d # r) = from_be_bytes [a, b, c, d] # words_of r"
| "words_of _ = []"

definition schedule_word :: "u32 list \<Rightarrow> nat \<Rightarrow> u32" where
  "schedule_word w i =
     (let s0 = rotate_right 7 (w ! (i - 15)) XOR rotate_right 18 (w ! (i - 15)) XOR drop_bit 3 (w ! (i - 15));
          s1 = rotate_right 17 (w ! (i - 2)) XOR rotate_right 19 (w ! (i - 2)) XOR drop_bit 10 (w ! (i - 2))
      in w ! (i - 16) + s0 + w ! (i - 7) + s1)"

definition schedule :: "bytes \<Rightarrow> u32 list" where
  "schedule chunk = fold (\<lambda>i w. w @ [schedule_word w i]) [16..<64] (words_of chunk)"

type_synonym regs = "u32 \<times> u32 \<times> u32 \<times> u32 \<times> u32 \<times> u32 \<times> u32 \<times> u32"

definition sha_round :: "u32 list \<Rightarrow> nat \<Rightarrow> regs \<Rightarrow> regs" where
  "sha_round w i r =
     (case r of (a, b, c, d, e, f, g, h) \<Rightarrow>
        let s1 = rotate_right 6 e XOR rotate_right 11 e XOR rotate_right 25 e;
            ch = (e AND f) XOR (NOT e AND g);
            t1 = h + s1 + ch + K ! i + w ! i;
            s0 = rotate_right 2 a XOR rotate_right 13 a XOR rotate_right 22 a;
            maj = (a AND b) XOR (a AND c) XOR (b AND c);
            t2 = s0 + maj
        in (t1 + t2, a, b, c, d + t1, e, f, g))"

definition regs_of :: "u32 list \<Rightarrow> regs" where
  "regs_of s = (s ! 0, s ! 1, s ! 2, s ! 3, s ! 4, s ! 5, s ! 6, s ! 7)"

definition list_of_regs :: "regs \<Rightarrow> u32 list" where
  "list_of_regs r = (case r of (a, b, c, d, e, f, g, h) \<Rightarrow> [a, b, c, d, e, f, g, h])"

definition compress :: "u32 list \<Rightarrow> bytes \<Rightarrow> u32 list" where
  "compress s chunk =
     (let w = schedule chunk
      in map2 (+) s (list_of_regs (fold (sha_round w) [0..<64] (regs_of s))))"

text \<open>The full blocks of a buffer (\<open>chunks_exact\<close>).\<close>

function blocks :: "bytes \<Rightarrow> bytes list" where
  "blocks b = (if length b < 64 then [] else take 64 b # blocks (drop 64 b))"
  by pat_completeness auto
termination by (relation "measure length") auto

declare blocks.simps [simp del]

definition sha256_update :: "bytes \<Rightarrow> sha256 \<Rightarrow> sha256" where
  "sha256_update data h =
     (let b = hbuffer h @ data;
          full = length b div 64 * 64
      in \<lparr>hstate = foldl compress (hstate h) (blocks (take full b)),
          hbuffer = drop full b,
          hlength = (hlength h + length data) mod 2 ^ 64\<rparr>)"

definition pad_distance :: "nat \<Rightarrow> nat" where
  "pad_distance n = (let r = n mod 64 in if r \<le> 56 then 56 - r else 120 - r)"

function pad_zeros :: "nat \<Rightarrow> bytes \<Rightarrow> bytes" where
  "pad_zeros n pad = (if (n + length pad) mod 64 \<noteq> 56 then pad_zeros n (pad @ [CHR 0x00]) else pad)"
  by pat_completeness auto
termination
proof (relation "measure (\<lambda>(n, pad). pad_distance (n + length pad))")
  fix n and pad :: bytes
  assume "(n + length pad) mod 64 \<noteq> 56"
  moreover have "(n + length pad) mod 64 < 64" by simp
  ultimately have "pad_distance (Suc (n + length pad)) < pad_distance (n + length pad)"
    by (auto simp: pad_distance_def mod_Suc Let_def)
  then show "((n, pad @ [CHR 0x00]), n, pad) \<in> measure (\<lambda>(n, pad). pad_distance (n + length pad))"
    by simp
qed simp

declare pad_zeros.simps [simp del]

text \<open>\<open>u64::to_be_bytes\<close> and the \<open>{:08x}\<close> format of a word.\<close>

definition to_be_bytes :: "nat \<Rightarrow> bytes" where
  "to_be_bytes n = map (\<lambda>i. char_of (n div 256 ^ (7 - i))) [0..<8]"

definition hex_digit :: "nat \<Rightarrow> char" where
  "hex_digit d = (if d < 10 then char_of (48 + d) else char_of (87 + d))"

definition hex8 :: "u32 \<Rightarrow> string" where
  "hex8 w = map (\<lambda>i. hex_digit (unat w div 16 ^ (7 - i) mod 16)) [0..<8]"

definition finish_hex :: "sha256 \<Rightarrow> string" where
  "finish_hex h =
     (let bit_len = hlength h * 8 mod 2 ^ 64;
          pad = pad_zeros (length (hbuffer h)) [CHR 0x80] @ to_be_bytes bit_len
      in concat (map hex8 (hstate (sha256_update pad h))))"

section \<open>The standard\<close>

text \<open>
  The digest as the standard defines it: the padded message is cut into blocks, which are
  compressed in order from the initial state.
\<close>

definition sha256_padding :: "nat \<Rightarrow> bytes" where
  "sha256_padding l = CHR 0x80 # replicate (pad_distance (l + 1)) (CHR 0x00) @ to_be_bytes (8 * l)"

definition sha256_spec :: "bytes \<Rightarrow> string" where
  "sha256_spec m = concat (map hex8 (foldl compress (hstate sha256_new) (blocks (m @ sha256_padding (length m)))))"

section \<open>Streaming\<close>

lemma blocks_append: "64 dvd length a \<Longrightarrow> blocks (a @ b) = blocks a @ blocks b"
proof (induction a rule: blocks.induct)
  case (1 a)
  show ?case
  proof (cases "length a < 64")
    case True
    with "1.prems" have "a = []" using nat_dvd_not_less by blast
    then show ?thesis by (simp add: blocks.simps [of "[]"])
  next
    case False
    then have "64 dvd length (drop 64 a)" using "1.prems" by (simp add: dvd_diff_nat)
    with 1 False show ?thesis by (simp add: blocks.simps [of a] blocks.simps [of "a @ b"])
  qed
qed

lemma blocks_short: "length b < 64 \<Longrightarrow> blocks b = []"
  by (simp add: blocks.simps)

lemma blocks_take_full: "blocks (take (length b div 64 * 64) b) = blocks b"
proof -
  let ?k = "length b div 64 * 64"
  have k: "?k \<le> length b" using div_times_less_eq_dividend by blast
  have "blocks (take ?k b @ drop ?k b) = blocks (take ?k b) @ blocks (drop ?k b)"
    using k by (intro blocks_append) simp
  moreover have "length (drop ?k b) < 64" by (simp add: minus_div_mult_eq_mod)
  ultimately show ?thesis by (simp add: blocks_short)
qed

text \<open>What a hasher holds after the bytes \<open>m\<close>.\<close>

definition absorbed :: "bytes \<Rightarrow> sha256 \<Rightarrow> bool" where
  "absorbed m h \<longleftrightarrow>
     hstate h = foldl compress (hstate sha256_new) (blocks m)
     \<and> hbuffer h = drop (length m div 64 * 64) m
     \<and> hlength h = length m mod 2 ^ 64"

lemma absorbed_new: "absorbed [] sha256_new"
  by (simp add: absorbed_def sha256_new_def blocks_short)

lemma drop_add_append: "length a = k \<Longrightarrow> drop (k + j) (a @ b) = drop j b"
  by simp

lemma absorbed_update:
  assumes "absorbed m h"
  shows "absorbed (m @ d) (sha256_update d h)"
proof -
  let ?k = "length m div 64 * 64"
  let ?b = "drop ?k m @ d"
  have k: "?k \<le> length m" using div_times_less_eq_dividend by blast
  have md: "m @ d = take ?k m @ ?b" by simp
  have dv: "64 dvd length (take ?k m)" using k by simp
  have bl: "blocks (m @ d) = blocks m @ blocks ?b"
    unfolding md blocks_append [OF dv] by (simp only: blocks_take_full)
  have len: "length (m @ d) = ?k + length ?b" using k by simp
  then have full: "length (m @ d) div 64 * 64 = ?k + length ?b div 64 * 64"
    by (simp only: len div_mult_self3 add_mult_distrib)
  have "drop (length (m @ d) div 64 * 64) (m @ d) = drop (length ?b div 64 * 64) ?b"
    unfolding full by (subst md, rule drop_add_append) (use k in simp)
  moreover have "(hlength h + length d) mod 2 ^ 64 = length (m @ d) mod 2 ^ 64"
    using assms by (simp add: absorbed_def mod_add_left_eq)
  ultimately show ?thesis
    using assms bl by (simp add: absorbed_def sha256_update_def Let_def blocks_take_full [of ?b, simplified])
qed

lemma absorbed_chunks: "absorbed m h \<Longrightarrow> absorbed (m @ concat cs) (fold sha256_update cs h)"
proof (induction cs arbitrary: m h)
  case (Cons c cs)
  from Cons.IH [OF absorbed_update [OF Cons.prems]] show ?case by simp
qed simp

lemma pad_distance_mod: "pad_distance (n mod 64 + k) = pad_distance (n + k)"
  by (simp add: pad_distance_def mod_add_left_eq)

lemma pad_zeros_replicate: "pad_zeros n pad = pad @ replicate (pad_distance (n + length pad)) (CHR 0x00)"
proof (induction n pad rule: pad_zeros.induct)
  case (1 n pad)
  show ?case
  proof (cases "(n + length pad) mod 64 = 56")
    case True
    then show ?thesis by (simp add: pad_zeros.simps [of n pad] pad_distance_def)
  next
    case False
    moreover have "(n + length pad) mod 64 < 64" by simp
    ultimately have "pad_distance (n + length pad) = Suc (pad_distance (Suc (n + length pad)))"
      by (auto simp: pad_distance_def mod_Suc Let_def)
    with 1 False show ?thesis by (simp add: pad_zeros.simps [of n pad])
  qed
qed

lemma finish_absorbed:
  assumes "absorbed m h" "8 * length m < 2 ^ 64"
  shows "finish_hex h = sha256_spec m"
proof -
  have len: "length (hbuffer h) = length m mod 64"
    using assms(1) by (simp add: absorbed_def minus_div_mult_eq_mod)
  have "hlength h = length m" using assms by (simp add: absorbed_def)
  then have bits: "hlength h * 8 mod 2 ^ 64 = 8 * length m" using assms(2) by (simp add: mult.commute)
  have "pad_zeros (length (hbuffer h)) [CHR 0x80] @ to_be_bytes (hlength h * 8 mod 2 ^ 64) = sha256_padding (length m)"
    unfolding bits pad_zeros_replicate len using pad_distance_mod [of "length m" 1]
    by (simp add: sha256_padding_def)
  then show ?thesis
    using absorbed_update [OF assms(1), of "sha256_padding (length m)"]
    by (simp add: finish_hex_def sha256_spec_def absorbed_def Let_def)
qed

lemma padded_blocks: "64 dvd length (m @ sha256_padding (length m))"
proof -
  obtain x where x: "x = length m + 1" by simp
  have "x mod 64 < 64" by simp
  then have "(x mod 64 + pad_distance x) mod 64 = 56" by (auto simp: pad_distance_def Let_def)
  then have "(x + pad_distance x) mod 64 = 56" by (simp only: mod_add_left_eq)
  then have "((x + pad_distance x) mod 64 + 8) mod 64 = 0" by simp
  then have "(x + pad_distance x + 8) mod 64 = 0" by (simp only: mod_add_left_eq)
  then have "64 dvd x + pad_distance x + 8" by (simp only: mod_eq_0_iff_dvd)
  moreover have "length (m @ sha256_padding (length m)) = x + pad_distance x + 8"
    by (simp add: x sha256_padding_def to_be_bytes_def)
  ultimately show ?thesis by simp
qed

section \<open>Properties\<close>



end
