(* ===== verification/Windows_Paths.thy ===== *)
theory Windows_Paths
  imports Solon_Prelude
begin

text \<open>
  What the sources use of \<open>std::path\<close> on Windows.  Verbatim prefixes are left out.
\<close>

text \<open>
  \<open>Path::join\<close> on Windows: a path with a prefix replaces the directory, a rooted one keeps only its drive.
\<close>

definition is_sep :: "char \<Rightarrow> bool" where
  "is_sep c \<longleftrightarrow> c = CHR 0x5C \<or> c = CHR ''/''"

definition has_drive :: "string \<Rightarrow> bool" where
  "has_drive s \<longleftrightarrow> length s \<ge> 2 \<and> is_ascii_alphabetic (s ! 0) \<and> s ! 1 = CHR '':''"

definition join_path :: "string \<Rightarrow> string \<Rightarrow> string" where
  "join_path d f =
     (if has_drive f \<or> (length f \<ge> 2 \<and> is_sep (f ! 0) \<and> is_sep (f ! 1)) then f
      else if f \<noteq> [] \<and> is_sep (f ! 0) then (if has_drive d then take 2 d else []) @ f
      else d @ (if d = [] \<or> is_sep (last d) then [] else [CHR 0x5C]) @ f)"

end
