(* ===== verification/Image_Check.thy ===== *)
theory Image_Check
  imports Sha256 Byte_Streams Windows_Paths
begin

text \<open>
  The check of the machine's image before a start (\<open>crates/solon-service/src/paths.rs\<close>):
  the manifest, the sizes and the digests of its three files.  The files of the host and the reader
  of the manifest's JSON are parameters; messages are values of an error type, in the order the
  code tests for them.
\<close>

record image_file =
  image_name :: string
  sha256_hex :: string
  file_size :: nat
  release :: "string option"

record image_manifest =
  schema :: nat
  version :: string
  built_at :: string
  kernel_file :: image_file
  initrd_file :: image_file
  rootfs_file :: image_file
  docker_engine :: string
  kernel_cmdline :: string

record resolved_image =
  image_dir :: string
  manifest :: image_manifest

datatype image_part = KernelPart | InitrdPart | RootfsPart

datatype image_error =
    ManifestUnreadable
  | ManifestInvalid
  | UnsupportedSchema nat
  | PartMissing image_part
  | PartSize image_part nat nat
  | PartUnreadable image_part
  | PartDigest image_part

text \<open>What the host answers: the text of a file, the length in its metadata, its bytes as reads deliver them.\<close>

record host_files =
  read_to_string :: "string \<Rightarrow> string option"
  metadata_len :: "string \<Rightarrow> nat option"
  open_file :: "string \<Rightarrow> reader option"

definition image_kernel :: "resolved_image \<Rightarrow> string" where
  "image_kernel i = join_path (image_dir i) (image_name (kernel_file (manifest i)))"

definition image_initrd :: "resolved_image \<Rightarrow> string" where
  "image_initrd i = join_path (image_dir i) (image_name (initrd_file (manifest i)))"

definition image_rootfs :: "resolved_image \<Rightarrow> string" where
  "image_rootfs i = join_path (image_dir i) (image_name (rootfs_file (manifest i)))"

text \<open>\<open>sha256_file\<close>: reads of up to one mebibyte until the end of the file.\<close>

function sha256_reads :: "sha256 \<Rightarrow> reader \<Rightarrow> io_error + string" where
  "sha256_reads h r =
     (case read_some (2 ^ 20) r of
        (Inl e, _) \<Rightarrow> Inl e
      | (Inr c, r') \<Rightarrow> if c = [] then Inr (finish_hex h) else sha256_reads (sha256_update c h) r')"
  by pat_completeness auto
termination
  by (relation "measure (\<lambda>(h, r). rd_size r)") (auto dest: read_some_decreases [OF sym])

declare sha256_reads.simps [simp del]

definition sha256_file :: "host_files \<Rightarrow> string \<Rightarrow> io_error + string" where
  "sha256_file fs path =
     (case open_file fs path of
        None \<Rightarrow> Inl ReadFailed
      | Some r \<Rightarrow> sha256_reads sha256_new r)"

definition check_part :: "host_files \<Rightarrow> image_part \<Rightarrow> image_file \<Rightarrow> string \<Rightarrow> image_error option" where
  "check_part fs part f path =
     (case metadata_len fs path of
        None \<Rightarrow> Some (PartMissing part)
      | Some n \<Rightarrow>
          if n \<noteq> file_size f then Some (PartSize part n (file_size f))
          else (case sha256_file fs path of
                  Inl _ \<Rightarrow> Some (PartUnreadable part)
                | Inr digest \<Rightarrow>
                    if eq_ignore_ascii_case digest (sha256_hex f) then None else Some (PartDigest part)))"

fun first_error :: "image_error option list \<Rightarrow> image_error option" where
  "first_error [] = None"
| "first_error (Some e # es) = Some e"
| "first_error (None # es) = first_error es"

definition load_verified ::
  "(string \<Rightarrow> image_manifest option) \<Rightarrow> host_files \<Rightarrow> string \<Rightarrow> image_error + resolved_image" where
  "load_verified from_str fs d =
     (case read_to_string fs (join_path d ''manifest.json'') of
        None \<Rightarrow> Inl ManifestUnreadable
      | Some text \<Rightarrow>
          (case from_str text of
             None \<Rightarrow> Inl ManifestInvalid
           | Some m \<Rightarrow>
               if schema m \<noteq> 1 then Inl (UnsupportedSchema (schema m))
               else let img = \<lparr>image_dir = d, manifest = m\<rparr>
                    in (case first_error
                              [check_part fs KernelPart (kernel_file m) (image_kernel img),
                               check_part fs InitrdPart (initrd_file m) (image_initrd img),
                               check_part fs RootfsPart (rootfs_file m) (image_rootfs img)] of
                          Some e \<Rightarrow> Inl e
                        | None \<Rightarrow> Inr img)))"

section \<open>Lemmas\<close>

lemma sha256_reads_spec:
  "absorbed m h \<Longrightarrow> no_read_errors r \<Longrightarrow> 8 * length (m @ pending r) < 2 ^ 64 \<Longrightarrow>
     sha256_reads h r = Inr (sha256_spec (m @ pending r))"
proof (induction h r arbitrary: m rule: sha256_reads.induct)
  case (1 h r)
  obtain y r1 where rd: "read_some (2 ^ 20) r = (y, r1)" by (cases "read_some (2 ^ 20) r")
  with "1.prems"(2) obtain c where c: "y = Inr c" "no_read_errors r1" using read_some_no_errors by blast
  with rd have p: "pending r = c @ pending r1" by (simp add: read_some_pending)
  show ?case
  proof (cases "c = []")
    case True
    with rd c "1.prems"(2) have "pending r = []" by (auto dest: read_some_eof)
    with True rd c "1.prems" finish_absorbed [of m h] show ?thesis by (simp add: sha256_reads.simps [of h r])
  next
    case False
    have "sha256_reads (sha256_update c h) r1 = Inr (sha256_spec ((m @ c) @ pending r1))"
      using "1.prems" p c by (intro "1.IH" [OF rd [symmetric] c(1) False] absorbed_update) simp_all
    with False rd c p show ?thesis by (simp add: sha256_reads.simps [of h r])
  qed
qed

lemma first_error_None: "first_error es = None \<longleftrightarrow> (\<forall>e \<in> set es. e = None)"
  by (induction es rule: first_error.induct) auto

text \<open>A file of the host that can be read to its end.\<close>

definition readable :: "host_files \<Rightarrow> string \<Rightarrow> bool" where
  "readable fs path \<longleftrightarrow>
     (case open_file fs path of
        Some r \<Rightarrow> no_read_errors r \<and> 8 * length (pending r) < 2 ^ 64
      | None \<Rightarrow> False)"

definition content :: "host_files \<Rightarrow> string \<Rightarrow> bytes" where
  "content fs path = (case open_file fs path of Some r \<Rightarrow> pending r | None \<Rightarrow> [])"

lemma sha256_file_readable: "readable fs path \<Longrightarrow> sha256_file fs path = Inr (sha256_spec (content fs path))"
  using sha256_reads_spec [OF absorbed_new]
  by (auto simp: readable_def sha256_file_def content_def split: option.splits)

definition genuine :: "host_files \<Rightarrow> image_file \<Rightarrow> string \<Rightarrow> bool" where
  "genuine fs f path \<longleftrightarrow> metadata_len fs path = Some (file_size f)
     \<and> eq_ignore_ascii_case (sha256_spec (content fs path)) (sha256_hex f)"

lemma check_part_readable: "readable fs path \<Longrightarrow> check_part fs part f path = None \<longleftrightarrow> genuine fs f path"
  by (auto simp: check_part_def genuine_def sha256_file_readable split: option.splits)

section \<open>Properties\<close>


definition sample_image :: image_manifest where
  "sample_image =
     (let f = \<lparr>image_name = ''k'', sha256_hex = sha256_spec ''ab'', file_size = 2, release = None\<rparr>
      in \<lparr>schema = 1, version = ''1'', built_at = [], kernel_file = f, initrd_file = f, rootfs_file = f,
          docker_engine = [], kernel_cmdline = []\<rparr>)"

definition sample_files :: host_files where
  "sample_files = \<lparr>read_to_string = (\<lambda>p. Some ''{}''), metadata_len = (\<lambda>p. Some 2), open_file = (\<lambda>p. Some [Chunk ''ab''])\<rparr>"


end
