(* ===== verification/Service_Types.thy ===== *)
theory Service_Types
  imports Protocol
begin

text \<open>
  The data shared by the application, the service and the virtual machine:
  \<open>crates/solon-core/src/error.rs\<close> (stable error codes), \<open>vm.rs\<close> (the machine) and
  \<open>ipc.rs\<close> (commands and events on the control pipe, settings, the published state of the engine).
\<close>

section \<open>Errors\<close>

datatype error_code =
    VirtualizationDisabledInFirmware
  | UnsupportedWindowsEdition
  | WindowsFeatureMissing
  | WindowsFeatureBlockedByPolicy
  | HypervisorNotRunning
  | HostComputeServiceUnavailable
  | BlockedBySecuritySoftware
  | InsufficientPrivileges
  | VmConfigurationRejected
  | VmBootTimeout
  | AgentUnreachable
  | EngineUnreachable
  | ImageCorrupted
  | DataDiskError
  | HcsError
  | Io
  | Internal

definition all_codes :: "error_code list" where
  "all_codes =
     [VirtualizationDisabledInFirmware, UnsupportedWindowsEdition, WindowsFeatureMissing,
      WindowsFeatureBlockedByPolicy, HypervisorNotRunning, HostComputeServiceUnavailable,
      BlockedBySecuritySoftware, InsufficientPrivileges, VmConfigurationRejected, VmBootTimeout,
      AgentUnreachable, EngineUnreachable, ImageCorrupted, DataDiskError, HcsError, Io, Internal]"

record solon_error =
  err_code :: error_code
  err_message :: string
  hresult :: "32 word option"

definition solon_error_new :: "error_code \<Rightarrow> string \<Rightarrow> solon_error" where
  "solon_error_new c m = \<lparr>err_code = c, err_message = m, hresult = None\<rparr>"

definition with_hresult :: "solon_error \<Rightarrow> 32 word \<Rightarrow> solon_error" where
  "with_hresult e h = e\<lparr>hresult := Some h\<rparr>"

definition internal_error :: "string \<Rightarrow> solon_error" where
  "internal_error m = solon_error_new Internal m"

definition from_io_error :: "string \<Rightarrow> solon_error" where
  "from_io_error text = solon_error_new Io text"

definition from_json_error :: "string \<Rightarrow> solon_error" where
  "from_json_error text = solon_error_new Internal (''JSON : '' @ text)"

section \<open>The machine\<close>

datatype vm_state = VmAbsent | VmCreated | VmRunning | VmStopping | VmStopped

record network_adapter_config =
  na_endpoint_id :: string
  mac_address :: "string option"

record disk_attachment =
  disk_path :: string
  disk_read_only :: bool

record host_share =
  share_name :: string
  share_host_path :: string
  share_port :: nat
  share_read_only :: bool

record vm_config =
  vm_config_id :: string
  vm_name :: string
  vm_kernel :: string
  vm_initrd :: string
  cmdline :: string
  vm_memory_mb :: nat
  vm_processors :: nat
  disks :: "disk_attachment list"
  shares :: "host_share list"
  serial_pipe :: "string option"
  network_adapter :: "network_adapter_config option"

section \<open>The control pipe\<close>

definition pipe_name :: "string \<Rightarrow> string" where
  "pipe_name n = [CHR 0x5C, CHR 0x5C, CHR ''.'', CHR 0x5C] @ ''pipe'' @ [CHR 0x5C] @ n"

definition CONTROL_PIPE :: string where "CONTROL_PIPE = pipe_name ''solon-control''"
definition DOCKER_PIPE :: string where "DOCKER_PIPE = pipe_name ''solon''"
definition SHELL_PIPE :: string where "SHELL_PIPE = pipe_name ''solon-shell''"
definition EXEC_PIPE :: string where "EXEC_PIPE = pipe_name ''solon-exec''"

record solon_settings =
  memory_mb :: nat
  processors :: nat
  data_disk_gib :: nat
  autostart :: bool
  legacy_file_sharing :: bool
  sleep_enabled :: bool
  sleep_idle_minutes :: nat
  sleep_never :: "string list"
  resume_running :: bool
  trace_bodies :: "string list"

definition default_true :: bool where "default_true = True"
definition default_sleep_minutes :: nat where "default_sleep_minutes = 10"

definition settings_default :: solon_settings where
  "settings_default =
     \<lparr>memory_mb = 2048, processors = 4, data_disk_gib = 64, autostart = False,
      legacy_file_sharing = False, sleep_enabled = True, sleep_idle_minutes = 10, sleep_never = [],
      resume_running = True, trace_bodies = []\<rparr>"

datatype service_command =
    CmdStatus
  | CmdStart
  | CmdStop bool
  | CmdRestart
  | CmdPrerequisites
  | CmdSubscribe
  | CmdGetSettings
  | CmdSetSettings solon_settings
  | CmdVersion
  | CmdQuit
  | CmdExec string "nat option"
  | CmdEnsureShare string
  | CmdListShares
  | CmdMetrics
  | CmdScanProjects
  | CmdTraceSubscribe
  | CmdTraceClear "string option"

record ipc_request =
  ipc_id :: nat
  ipc_command :: service_command

record found_project =
  fp_dir :: string
  fp_kinds :: "string list"
  fp_files :: "string list"
  git :: bool

record share_info =
  si_drive :: string
  host_root :: string
  guest_root :: string
  guest_path :: string
  mounted_now :: bool

datatype engine_state = EngStopped | EngStarting | EngReady | EngDegraded | EngStopping | EngFailed

datatype provision_step =
    CheckingPrerequisites
  | VerifyingImage
  | PreparingDataDisk
  | CleaningOrphans
  | CreatingNetwork
  | CreatingMachine
  | Booting
  | WaitingAgent
  | ConfiguringNetwork
  | WaitingEngine
  | StepReady

record engine_snapshot =
  snap_state :: "engine_state option"
  snap_step :: "provision_step option"
  snap_error :: "solon_error option"
  snap_vm_id :: "string option"
  snap_image_version :: "string option"
  snap_docker_pipe :: "string option"
  last_boot_ms :: "nat option"
  ready_since_unix_ms :: "nat option"
  snap_guest_address :: "string option"
  published_ports :: "port_binding list"
  recovered_from_crash :: bool
  reattached :: bool
  local_domains :: bool
  local_domains_tls :: bool
  snap_sleeping :: "string list"

definition snapshot_default :: engine_snapshot where
  "snapshot_default =
     \<lparr>snap_state = None, snap_step = None, snap_error = None, snap_vm_id = None,
      snap_image_version = None, snap_docker_pipe = None, last_boot_ms = None,
      ready_since_unix_ms = None, snap_guest_address = None, published_ports = [],
      recovered_from_crash = False, reattached = False, local_domains = False,
      local_domains_tls = False, snap_sleeping = []\<rparr>"

datatype service_event =
    EvState engine_snapshot
  | EvContainer string string string
  | EvPorts "port_binding list"
  | EvLog string string
  | EvDiskPressure nat nat
  | EvResumed "string list" nat

record prereq_item =
  prereq_id :: string
  prereq_ok :: bool
  blocking :: bool
  detail :: string
  prereq_code :: "error_code option"

record prereq_report =
  report_ok :: bool
  report_items :: "prereq_item list"

lemma all_codes_complete: "c \<in> set all_codes \<and> distinct all_codes"
  by (cases c) (simp_all add: all_codes_def)

end
