(* ===== verification/Settings_Store.thy ===== *)
theory Settings_Store
  imports Service_Types Image_Check
begin

text \<open>
  Settings and state kept on disk (\<open>crates/solon-service/src/settings.rs\<close>, and the file names
  of \<open>paths.rs\<close>).  A save is the sequence of disk operations it asks for; a crash can leave
  a write half done, a rename not.  The JSON printer and reader are parameters.
\<close>

section \<open>Files\<close>

type_synonym disk = "string \<rightharpoonup> string"

datatype disk_op = WriteFile string string | RenameFile string string

fun run_op :: "disk_op \<Rightarrow> disk \<Rightarrow> disk" where
  "run_op (WriteFile p t) d = d(p \<mapsto> t)"
| "run_op (RenameFile p q) d = (d(p := None))(q := d p)"

definition run_ops :: "disk_op list \<Rightarrow> disk \<Rightarrow> disk" where
  "run_ops ops d = fold run_op ops d"

fun torn :: "disk_op \<Rightarrow> disk \<Rightarrow> disk set" where
  "torn (WriteFile p t) d = insert d {d(p \<mapsto> take k t) | k. True}"
| "torn (RenameFile p q) d = {d}"

text \<open>The disks a crash during a sequence of operations can leave.\<close>

fun crash_disks :: "disk_op list \<Rightarrow> disk \<Rightarrow> disk set" where
  "crash_disks [] d = {d}"
| "crash_disks (op # ops) d = torn op d \<union> crash_disks ops (run_op op d)"

definition base_name :: "string \<Rightarrow> string" where
  "base_name p = rev (takeWhile (\<lambda>c. \<not> is_sep c) (rev p))"

definition with_extension :: "string \<Rightarrow> string \<Rightarrow> string" where
  "with_extension p e =
     (let f = base_name p
      in if f = [] \<or> f = ''..'' then p
         else let stem = (case rsplit_once (CHR ''.'') f of Some (a, b) \<Rightarrow> if a = [] then f else a | None \<Rightarrow> f)
              in take (length p - length f) p @ stem @ ''.'' @ e)"

definition image_path :: "string \<Rightarrow> string" where "image_path root = join_path root ''image''"
definition data_disk_path :: "string \<Rightarrow> string" where "data_disk_path root = join_path root ''data.vhdx''"
definition state_file :: "string \<Rightarrow> string" where "state_file root = join_path root ''state.json''"
definition logs_dir :: "string \<Rightarrow> string" where "logs_dir root = join_path root ''logs''"
definition settings_file :: "string \<Rightarrow> string" where "settings_file root = join_path root ''settings.json''"

section \<open>Settings\<close>

definition default_processors :: "nat option \<Rightarrow> nat" where
  "default_processors available =
     (let n = (case available of Some n \<Rightarrow> n mod 2 ^ 32 | None \<Rightarrow> 4)
      in min 64 (max 2 (n - 2)))"

definition default_settings :: "nat option \<Rightarrow> solon_settings" where
  "default_settings available = settings_default\<lparr>processors := default_processors available\<rparr>"

definition load_settings :: "(string \<Rightarrow> solon_settings option) \<Rightarrow> nat option \<Rightarrow> string \<Rightarrow> disk \<Rightarrow> solon_settings" where
  "load_settings from_str available path d =
     (case d path of
        Some text \<Rightarrow> (case from_str text of Some s \<Rightarrow> s | None \<Rightarrow> default_settings available)
      | None \<Rightarrow> default_settings available)"

datatype settings_error = MemoryOutOfRange nat | ProcessorsOutOfRange nat | DiskOutOfRange nat | NoSleepDelay

definition validate_settings :: "solon_settings \<Rightarrow> settings_error + unit" where
  "validate_settings s =
     (if \<not> (1024 \<le> memory_mb s \<and> memory_mb s \<le> 1048576) then Inl (MemoryOutOfRange (memory_mb s))
      else if \<not> (1 \<le> processors s \<and> processors s \<le> 256) then Inl (ProcessorsOutOfRange (processors s))
      else if \<not> (8 \<le> data_disk_gib s \<and> data_disk_gib s \<le> 65536) then Inl (DiskOutOfRange (data_disk_gib s))
      else if sleep_idle_minutes s = 0 then Inl NoSleepDelay
      else Inr ())"

datatype save_error = Refused settings_error | Unprintable

definition save_settings ::
  "(solon_settings \<Rightarrow> string option) \<Rightarrow> string \<Rightarrow> solon_settings \<Rightarrow> save_error + disk_op list" where
  "save_settings to_text path s =
     (case validate_settings s of
        Inl e \<Rightarrow> Inl (Refused e)
      | Inr _ \<Rightarrow>
          let tmp = with_extension path ''json.tmp''
          in (case to_text s of
                None \<Rightarrow> Inl Unprintable
              | Some text \<Rightarrow> Inr [WriteFile tmp text, RenameFile tmp path]))"

section \<open>State\<close>

record persisted_state =
  ps_vm_id :: "string option"
  ps_endpoint_id :: "string option"
  ps_guest_address :: "string option"
  ps_image_version :: "string option"
  ps_shares :: "string list"
  resume_projects :: "string list"
  resume_containers :: "string list"
  clean_shutdown :: bool
  updated_unix_ms :: nat

definition persisted_default :: persisted_state where
  "persisted_default =
     \<lparr>ps_vm_id = None, ps_endpoint_id = None, ps_guest_address = None, ps_image_version = None,
      ps_shares = [], resume_projects = [], resume_containers = [], clean_shutdown = False,
      updated_unix_ms = 0\<rparr>"

definition load_state :: "(string \<Rightarrow> persisted_state option) \<Rightarrow> string \<Rightarrow> disk \<Rightarrow> persisted_state" where
  "load_state from_str path d =
     (case Option.bind (d path) from_str of Some s \<Rightarrow> s | None \<Rightarrow> persisted_default)"

definition save_state ::
  "(persisted_state \<Rightarrow> string option) \<Rightarrow> string \<Rightarrow> persisted_state \<Rightarrow> save_error + disk_op list" where
  "save_state to_text path s =
     (let tmp = with_extension path ''json.tmp''
      in (case to_text s of
            None \<Rightarrow> Inl Unprintable
          | Some text \<Rightarrow> Inr [WriteFile tmp text, RenameFile tmp path]))"

section \<open>Saving in two steps\<close>

text \<open>
  The contract both saves meet: a new text goes to another file, which then replaces the old one.
\<close>

locale two_step_save =
  fixes save :: "'v \<Rightarrow> save_error + disk_op list"
    and to_text :: "'v \<Rightarrow> string option"
    and path :: string
  assumes ops: "save v = Inr ops \<Longrightarrow>
      \<exists>tmp text. tmp \<noteq> path \<and> to_text v = Some text \<and> ops = [WriteFile tmp text, RenameFile tmp path]"
begin

lemma saved: "save v = Inr ops \<Longrightarrow> run_ops ops d path = to_text v"
  by (drule local.ops) (auto simp: run_ops_def)

lemma crash_keeps_old_or_new:
  assumes "save v = Inr ops" "d' \<in> crash_disks ops d"
  shows "d' path = d path \<or> d' path = to_text v"
  using local.ops [OF assms(1)] assms(2) by auto

end

lemma is_sep_dot: "\<not> is_sep (CHR ''.'')"
  by (simp add: is_sep_def)

lemma base_name_plain: "\<forall>c \<in> set f. \<not> is_sep c \<Longrightarrow> d = [] \<or> is_sep (last d) \<Longrightarrow> base_name (d @ f) = f"
proof -
  assume f: "\<forall>c \<in> set f. \<not> is_sep c" and d: "d = [] \<or> is_sep (last d)"
  have "takeWhile (\<lambda>c. \<not> is_sep c) (rev f) = rev f" using f by (simp add: takeWhile_eq_all_conv)
  moreover have "takeWhile (\<lambda>c. \<not> is_sep c) (rev f @ rev d) = rev f"
    using f d by (cases d rule: rev_cases) (auto simp: takeWhile_append2 takeWhile_tail)
  ultimately show ?thesis by (simp add: base_name_def)
qed

lemma with_extension_json:
  assumes "\<forall>c \<in> set f. \<not> is_sep c \<and> c \<noteq> CHR ''.''" "f \<noteq> []" "d = [] \<or> is_sep (last d)"
  shows "with_extension (d @ f @ ''.json'') e = d @ f @ ''.'' @ e"
proof -
  have b: "base_name (d @ f @ ''.json'') = f @ ''.json''"
    using assms by (intro base_name_plain) (auto simp: is_sep_def)
  have r: "rsplit_once (CHR ''.'') (f @ CHR ''.'' # ''json'') = Some (f, ''json'')"
    by (simp add: rsplit_once_Some)
  have n: "f @ ''.json'' \<noteq> ''..''" using assms(1,2) by (cases f) auto
  show ?thesis using b r n assms(2) by (simp add: with_extension_def Let_def)
qed

lemma json_file_tmp:
  assumes "\<forall>c \<in> set f. \<not> is_sep c \<and> c \<noteq> CHR ''.'' \<and> c \<noteq> CHR '':''" "f \<noteq> []"
  shows "with_extension (join_path root (f @ ''.json'')) ''json.tmp'' \<noteq> join_path root (f @ ''.json'')"
proof -
  let ?d = "root @ (if root = [] \<or> is_sep (last root) then [] else [CHR 0x5C])"
  obtain x xs where f: "f = x # xs" using assms(2) by (cases f) auto
  have no: "\<not> is_sep ((f @ ''.json'') ! 0)" using assms(1) by (simp add: f)
  have "(f @ ''.json'') ! 1 \<noteq> CHR '':''" using assms(1) by (cases xs) (auto simp: f)
  note no = no this
  then have j: "join_path root (f @ ''.json'') = ?d @ f @ ''.json''"
    using assms(2) by (auto simp: join_path_def has_drive_def)
  have "with_extension (?d @ f @ ''.json'') ''json.tmp'' = ?d @ f @ ''.'' @ ''json.tmp''"
    using assms by (intro with_extension_json) (auto simp: is_sep_def)
  with j show ?thesis by simp
qed

interpretation settings_store: two_step_save "save_settings to_text (settings_file root)" to_text "settings_file root"
  for to_text root
proof
  fix v ops assume "save_settings to_text (settings_file root) v = Inr ops"
  moreover have "with_extension (settings_file root) ''json.tmp'' \<noteq> settings_file root"
    using json_file_tmp [of "''settings''" root] by (simp add: settings_file_def is_sep_def)
  ultimately show "\<exists>tmp text. tmp \<noteq> settings_file root \<and> to_text v = Some text
      \<and> ops = [WriteFile tmp text, RenameFile tmp (settings_file root)]"
    by (auto simp: save_settings_def Let_def split: sum.splits option.splits)
qed

interpretation state_store: two_step_save "save_state to_text (state_file root)" to_text "state_file root"
  for to_text root
proof
  fix v ops assume "save_state to_text (state_file root) v = Inr ops"
  moreover have "with_extension (state_file root) ''json.tmp'' \<noteq> state_file root"
    using json_file_tmp [of "''state''" root] by (simp add: state_file_def is_sep_def)
  ultimately show "\<exists>tmp text. tmp \<noteq> state_file root \<and> to_text v = Some text
      \<and> ops = [WriteFile tmp text, RenameFile tmp (state_file root)]"
    by (auto simp: save_state_def Let_def split: option.splits)
qed

section \<open>Properties\<close>


definition sample_print :: "solon_settings \<Rightarrow> string option" where
  "sample_print s = (if s = settings_default then Some ''S'' else None)"

definition sample_print_state :: "persisted_state \<Rightarrow> string option" where
  "sample_print_state p = (if p = persisted_default then Some ''P'' else None)"


text \<open>
  The limits of the settings: a save is accepted exactly for settings with which the machine can
  start, an accepted value is never changed on the way, and the defaults of every host are accepted,
  with between 2 and 64 processors.
\<close>

theorem settings_limits:
  "(validate_settings s = Inr () \<longleftrightarrow>
      memory_mb s \<in> {1024..1048576} \<and> processors s \<in> {1..256} \<and> data_disk_gib s \<in> {8..65536}
      \<and> 0 < sleep_idle_minutes s)
   \<and> validate_settings (default_settings n) = Inr () \<and> default_processors n \<in> {2..64}"
proof -
  have p: "default_processors n \<in> {2..64}" by (auto simp: default_processors_def Let_def)
  then show ?thesis by (auto simp: validate_settings_def default_settings_def settings_default_def)
qed

end
