(* ===== verification/Fs_Protocol.thy ===== *)
theory Fs_Protocol
  imports Byte_Streams
begin

text \<open>
  The file system protocol between the machine and the host (\<open>crates/solon-core/src/fs.rs\<close>): requests,
  answers, error numbers and frames.  A frame is two 32-bit little-endian lengths, a JSON text and raw
  bytes; both ends read it with \<open>read_exact\<close>.  The JSON printer and reader are parameters.
\<close>

definition PORT_FS :: nat where "PORT_FS = 5006"
definition FS_CONNECTIONS :: nat where "FS_CONNECTIONS = 4"
definition FS_MAX_IO :: nat where "FS_MAX_IO = 1024 * 1024"

datatype fs_kind = FsFile | FsDir | FsSymlink

record fs_attr =
  kind :: fs_kind
  fsize :: nat
  mtime_ns :: int
  atime_ns :: int
  ctime_ns :: int
  readonly :: bool

datatype fs_request =
    Lookup string string
  | Getattr string
  | Readdir string
  | Read string nat nat
  | Write string nat
  | Create string
  | Mkdir string
  | Unlink string
  | Rmdir string
  | Rename string string
  | Truncate string nat
  | SetTimes string "int option" "int option"
  | Fsync string
  | Statfs string
  | Readlink string

record fs_entry =
  entry_name :: string
  entry_attr :: fs_attr

record fs_statfs =
  total_bytes :: nat
  free_bytes :: nat

datatype fs_response =
    RAttr fs_attr
  | REntries "fs_entry list"
  | RData
  | RWritten nat
  | RLink string
  | RStatfs fs_statfs
  | ROk
  | RError int

section \<open>Error numbers\<close>

datatype io_kind =
    NotFound | PermissionDenied | AlreadyExists | InvalidInput | DirectoryNotEmpty
  | IsADirectory | NotADirectory | ReadOnlyFilesystem | StorageFull | OtherKind

record io_fail =
  io_kind_of :: io_kind
  raw_os :: "int option"

fun errno_for :: "io_kind \<Rightarrow> int option \<Rightarrow> int" where
  "errno_for NotFound raw = 2"
| "errno_for PermissionDenied raw = 13"
| "errno_for AlreadyExists raw = 17"
| "errno_for InvalidInput raw = 22"
| "errno_for DirectoryNotEmpty raw = 39"
| "errno_for IsADirectory raw = 21"
| "errno_for NotADirectory raw = 20"
| "errno_for ReadOnlyFilesystem raw = 30"
| "errno_for StorageFull raw = 28"
| "errno_for OtherKind raw =
     (if raw = Some 32 \<or> raw = Some 33 then 16
      else if raw = Some 145 then 39
      else if raw = Some 267 then 20
      else 5)"

section \<open>Frames\<close>

definition to_le_bytes :: "nat \<Rightarrow> bytes" where
  "to_le_bytes n = map (\<lambda>i. char_of (n div 256 ^ i)) [0..<4]"

definition from_le_bytes :: "bytes \<Rightarrow> nat" where
  "from_le_bytes b = foldr (\<lambda>c acc. of_char c + 256 * acc) b 0"

definition encode_frame :: "('m \<Rightarrow> bytes option) \<Rightarrow> 'm \<Rightarrow> bytes \<Rightarrow> bytes" where
  "encode_frame to_vec msg data =
     (let json = (case to_vec msg of Some j \<Rightarrow> j | None \<Rightarrow> [])
      in to_le_bytes (length json mod 2 ^ 32) @ to_le_bytes (length data mod 2 ^ 32) @ json @ data)"

text \<open>
  \<open>read_exact\<close>: reads until \<open>n\<close> bytes are there; the end of the stream before that is an error.
\<close>

function read_exact :: "nat \<Rightarrow> bytes \<Rightarrow> reader \<Rightarrow> (io_error + bytes) \<times> reader" where
  "read_exact n acc r =
     (if n = 0 then (Inr acc, r)
      else (case read_some n r of
              (Inl e, r') \<Rightarrow> (Inl e, r')
            | (Inr c, r') \<Rightarrow>
                if c = [] then (Inl UnexpectedEof, r') else read_exact (n - length c) (acc @ c) r'))"
  by pat_completeness auto
termination
  by (relation "measure (\<lambda>(n, acc, r). rd_size r)") (auto dest: read_some_decreases [OF sym])

declare read_exact.simps [simp del]

text \<open>A frame as both ends read it, each with its own limits for the JSON and the raw bytes.\<close>

definition read_frame :: "nat \<Rightarrow> nat \<Rightarrow> reader \<Rightarrow> (io_error + bytes \<times> bytes) \<times> reader" where
  "read_frame json_max data_max r =
     (case read_exact 8 [] r of
        (Inl e, r1) \<Rightarrow> (Inl e, r1)
      | (Inr head, r1) \<Rightarrow>
          let json_len = from_le_bytes (take 4 head);
              data_len = from_le_bytes (drop 4 head)
          in if json_len > json_max \<or> data_len > data_max then (Inl InvalidData, r1)
             else (case read_exact json_len [] r1 of
                     (Inl e, r2) \<Rightarrow> (Inl e, r2)
                   | (Inr json, r2) \<Rightarrow>
                       (case read_exact data_len [] r2 of
                          (Inl e, r3) \<Rightarrow> (Inl e, r3)
                        | (Inr data, r3) \<Rightarrow> (Inr (json, data), r3))))"

section \<open>Lemmas\<close>

lemma length_to_le_bytes [simp]: "length (to_le_bytes n) = 4"
  by (simp add: to_le_bytes_def)

lemma from_to_le_bytes: "n < 2 ^ 32 \<Longrightarrow> from_le_bytes (to_le_bytes n) = n"
proof -
  assume n: "n < 2 ^ 32"
  have u: "[0..<4] = [0, 1, 2, 3 :: nat]" by (simp add: upt_rec)
  have "n mod 256 + 256 * (n div 256 mod 256 + 256 * (n div 65536 mod 256 + 256 * (n div 16777216 mod 256))) = n"
  proof -
    have "n div 16777216 < 256" using n by simp
    moreover have "n div 65536 = 256 * (n div 16777216) + n div 65536 mod 256"
      using mult_div_mod_eq [of 256 "n div 65536"] by (simp add: div_mult2_eq [symmetric])
    moreover have "n div 256 = 256 * (n div 65536) + n div 256 mod 256"
      using mult_div_mod_eq [of 256 "n div 256"] by (simp add: div_mult2_eq [symmetric])
    moreover have "n = 256 * (n div 256) + n mod 256" by simp
    ultimately show ?thesis by (simp add: algebra_simps)
  qed
  moreover have "n div 16777216 mod 256 = n div 16777216" using n by simp
  ultimately show ?thesis by (simp add: from_le_bytes_def to_le_bytes_def u of_char_of)
qed

lemma read_exact_reads:
  "no_read_errors r \<Longrightarrow> pending r = b @ t \<Longrightarrow>
     \<exists>r'. read_exact (length b) acc r = (Inr (acc @ b), r') \<and> no_read_errors r' \<and> pending r' = t"
proof (induction "length b" acc r arbitrary: b rule: read_exact.induct)
  case (1 acc r)
  show ?case
  proof (cases "b = []")
    case True
    with 1 show ?thesis by (simp add: read_exact.simps)
  next
    case False
    obtain y r1 where rd: "read_some (length b) r = (y, r1)" by (cases "read_some (length b) r")
    with "1.prems" obtain c where c: "y = Inr c" "no_read_errors r1" using read_some_no_errors by blast
    with rd have p: "pending r = c @ pending r1" by (simp add: read_some_pending)
    have le: "length c \<le> length b" using rd c read_some_length by blast
    have ne: "c \<noteq> []"
      using rd c "1.prems" False read_some_eof [of "length b" r r1] by auto
    have b: "b = c @ drop (length c) b" "drop (length c) b @ t = pending r1"
      using p "1.prems"(2) le by (metis append_eq_append_conv_if append_take_drop_id)+
    have "\<exists>r'. read_exact (length (drop (length c) b)) (acc @ c) r1
        = (Inr ((acc @ c) @ drop (length c) b), r') \<and> no_read_errors r' \<and> pending r' = t"
      using False rd c ne b by (intro "1.hyps") auto
    with False rd c ne b show ?thesis by (simp add: read_exact.simps [of "length b"])
  qed
qed

lemma read_frame_encode:
  assumes "to_vec m = Some json" "length json \<le> json_max" "length data \<le> data_max"
    and "json_max < 2 ^ 32" "data_max < 2 ^ 32"
    and "no_read_errors r" "pending r = encode_frame to_vec m data @ rest"
  shows "\<exists>r'. read_frame json_max data_max r = (Inr (json, data), r')
           \<and> no_read_errors r' \<and> pending r' = rest"
proof -
  let ?head = "to_le_bytes (length json) @ to_le_bytes (length data)"
  have small: "length json < 2 ^ 32" "length data < 2 ^ 32" using assms(2-5) by linarith+
  have p: "pending r = ?head @ json @ data @ rest"
    using assms(1,7) small by (simp add: encode_frame_def)
  obtain r1 where r1: "read_exact 8 [] r = (Inr ?head, r1)" "no_read_errors r1" "pending r1 = json @ data @ rest"
    using read_exact_reads [OF assms(6) p, of "[]"] by auto
  obtain r2 where r2: "read_exact (length json) [] r1 = (Inr json, r2)" "no_read_errors r2" "pending r2 = data @ rest"
    using read_exact_reads [OF r1(2,3), of "[]"] by auto
  obtain r3 where r3: "read_exact (length data) [] r2 = (Inr data, r3)" "no_read_errors r3" "pending r3 = rest"
    using read_exact_reads [OF r2(2,3), of "[]"] by auto
  have "from_le_bytes (take 4 ?head) = length json" "from_le_bytes (drop 4 ?head) = length data"
    using small by (simp_all add: from_to_le_bytes)
  with r1 r2 r3 assms(2,3) show ?thesis by (simp add: read_frame_def Let_def)
qed

section \<open>Properties\<close>

text \<open>
  C13. A frame survives the connection: however its bytes are cut into reads, the other end gets the
  JSON text and the raw bytes that were put in, and goes on with the bytes behind the frame,
  whenever the two parts respect the limits of the reader.
\<close>

theorem frame_roundtrip:
  assumes "to_vec m = Some json" "length json \<le> json_max" "length data \<le> data_max"
    and "json_max < 2 ^ 32" "data_max < 2 ^ 32"
    and "no_read_errors r" "pending r = encode_frame to_vec m data @ rest"
  shows "\<exists>r'. read_frame json_max data_max r = (Inr (json, data), r')
           \<and> no_read_errors r' \<and> pending r' = rest"
  by (rule read_frame_encode [OF assms])

theorem frame_roundtrip_witness:
  "\<exists>r'. read_frame 100 100 [Chunk (take 5 (encode_frame Some ''{}'' ''abc'')), Chunk (drop 5 (encode_frame Some ''{}'' ''abc'') @ ''x'')]
      = (Inr (''{}'', ''abc''), r') \<and> no_read_errors r' \<and> pending r' = ''x''"
proof -
  let ?f = "encode_frame Some ''{}'' ''abc''"
  have p: "pending [Chunk (take 5 ?f), Chunk (drop 5 ?f @ ''x'')] = ?f @ ''x''"
    by (simp flip: append_assoc)
  have e: "no_read_errors [Chunk (take 5 ?f), Chunk (drop 5 ?f @ ''x'')]" by simp
  show ?thesis by (rule frame_roundtrip [OF refl _ _ _ _ e p]) simp_all
qed

end
