(* ===== verification/File_Server.thy ===== *)
theory File_Server
  imports Fs_Protocol Windows_Paths
begin

text \<open>
  The file server of the service (\<open>crates/solon-service/src/fileserver.rs\<close>): it serves the
  requests of the machine on the shared drives.  The file system of Windows is a parameter: a
  record of the \<open>std::fs\<close> operations used, on an abstract state that the modifying ones return
  updated.
\<close>

definition PREFETCH_MAX_FILES :: nat where "PREFETCH_MAX_FILES = 64"
definition PREFETCH_MAX_SIZE :: nat where "PREFETCH_MAX_SIZE = 256 * 1024"

record metadata =
  md_is_dir :: bool
  md_is_symlink :: bool
  md_len :: nat
  md_modified :: "int option"
  md_accessed :: "int option"
  md_created :: "int option"
  md_readonly :: bool

record 'h host_fs =
  h_metadata :: "string \<Rightarrow> 'h \<Rightarrow> io_fail + metadata"
  h_read_dir :: "string \<Rightarrow> 'h \<Rightarrow> io_fail + (string \<times> metadata option) list"
  h_open_len :: "string \<Rightarrow> 'h \<Rightarrow> io_fail + nat"
  h_pread :: "string \<Rightarrow> nat \<Rightarrow> nat \<Rightarrow> 'h \<Rightarrow> io_fail + bytes"
  h_write_all :: "string \<Rightarrow> nat \<Rightarrow> bytes \<Rightarrow> 'h \<Rightarrow> (io_fail + unit) \<times> 'h"
  h_create_new :: "string \<Rightarrow> 'h \<Rightarrow> (io_fail + unit) \<times> 'h"
  h_create_dir :: "string \<Rightarrow> 'h \<Rightarrow> (io_fail + unit) \<times> 'h"
  h_remove_file :: "string \<Rightarrow> 'h \<Rightarrow> (io_fail + unit) \<times> 'h"
  h_remove_dir :: "string \<Rightarrow> 'h \<Rightarrow> (io_fail + unit) \<times> 'h"
  h_is_file :: "string \<Rightarrow> 'h \<Rightarrow> bool"
  h_rename :: "string \<Rightarrow> string \<Rightarrow> 'h \<Rightarrow> (io_fail + unit) \<times> 'h"
  h_set_len :: "string \<Rightarrow> nat \<Rightarrow> 'h \<Rightarrow> (io_fail + unit) \<times> 'h"
  h_open_write :: "string \<Rightarrow> 'h \<Rightarrow> io_fail + unit"
  h_set_times :: "string \<Rightarrow> int option \<Rightarrow> int option \<Rightarrow> 'h \<Rightarrow> (io_fail + unit) \<times> 'h"
  h_disk_space :: "string \<Rightarrow> 'h \<Rightarrow> (nat \<times> nat) option"
  h_read_link :: "string \<Rightarrow> 'h \<Rightarrow> io_fail + string"

section \<open>Paths\<close>

definition slashes_back :: "string \<Rightarrow> string" where
  "slashes_back s = map (\<lambda>c. if c = CHR ''/'' then CHR 0x5C else c) s"

definition host_path :: "string list \<Rightarrow> string \<Rightarrow> int + string" where
  "host_path shared rel =
     (let r = trim_matches (CHR ''/'') rel;
          (drive, rest) = (case split_once (CHR ''/'') r of Some dr \<Rightarrow> dr | None \<Rightarrow> (r, []))
      in if length drive \<noteq> 1 \<or> \<not> is_ascii_alphabetic (drive ! 0) then Inl 2
         else let d = to_ascii_lowercase drive
              in if \<not> (\<exists>x \<in> set shared. eq_ignore_ascii_case x d) then Inl 13
                 else if \<exists>s \<in> set (split_on (CHR ''/'') rest). s = ''..'' \<or> s = ''.'' then Inl 22
                 else let p = to_ascii_uppercase d @ [CHR '':'', CHR 0x5C]
                      in Inr (if rest = [] then p else join_path p (slashes_back rest)))"

section \<open>Attributes and errors\<close>

definition ns :: "int option \<Rightarrow> int" where
  "ns t = (case t of Some n \<Rightarrow> if n \<ge> 0 then sint (word_of_int n :: 64 word) else 0 | None \<Rightarrow> 0)"

definition attr_of :: "metadata \<Rightarrow> fs_attr" where
  "attr_of md =
     \<lparr>kind = (if md_is_dir md then FsDir else if md_is_symlink md then FsSymlink else FsFile),
      fsize = (if md_is_dir md then 0 else md_len md),
      mtime_ns = ns (md_modified md),
      atime_ns = ns (md_accessed md),
      ctime_ns = ns (md_created md),
      readonly = md_readonly md\<rparr>"

definition err :: "io_fail \<Rightarrow> fs_response" where
  "err e = RError (errno_for (io_kind_of e) (raw_os e))"

section \<open>Reading and writing\<close>

text \<open>The loop of \<open>read_at\<close>: short reads are continued until the wanted bytes are there or nothing comes.\<close>

function read_loop :: "'h host_fs \<Rightarrow> string \<Rightarrow> nat \<Rightarrow> nat \<Rightarrow> bytes \<Rightarrow> 'h \<Rightarrow> io_fail + bytes" where
  "read_loop fs p offset want got h =
     (if length got < want then
        (case h_pread fs p (offset + length got) (want - length got) h of
           Inl e \<Rightarrow> Inl e
         | Inr c \<Rightarrow>
             if c = [] then Inr got
             else read_loop fs p offset want (got @ take (want - length got) c) h)
      else Inr got)"
  by pat_completeness auto
termination
  by (relation "measure (\<lambda>(fs, p, offset, want, got, h). want - length got)")
     (auto simp: min_def length_greater_0_conv [symmetric] simp del: length_greater_0_conv)

declare read_loop.simps [simp del]

definition read_at :: "'h host_fs \<Rightarrow> string \<Rightarrow> nat \<Rightarrow> nat \<Rightarrow> 'h \<Rightarrow> io_fail + bytes" where
  "read_at fs p offset len h =
     (case h_open_len fs p h of
        Inl e \<Rightarrow> Inl e
      | Inr sz \<Rightarrow>
          if offset \<ge> sz then Inr []
          else read_loop fs p offset (min len (sz - offset)) [] h)"

definition write_at :: "'h host_fs \<Rightarrow> string \<Rightarrow> nat \<Rightarrow> bytes \<Rightarrow> 'h \<Rightarrow> (io_fail + nat) \<times> 'h" where
  "write_at fs p offset data h =
     (case h_write_all fs p offset data h of
        (Inl e, h') \<Rightarrow> (Inl e, h')
      | (Inr _, h') \<Rightarrow> (Inr (length data mod 2 ^ 32), h'))"

section \<open>Listing\<close>

text \<open>The loop over a directory: the entries, and the small files to warm up, as collected so far.\<close>

fun list_dir :: "string \<Rightarrow> (string \<times> metadata option) list \<Rightarrow> fs_entry list \<Rightarrow> string list \<Rightarrow> fs_entry list \<times> string list" where
  "list_dir d [] entries warm = (entries, warm)"
| "list_dir d ((n, None) # rest) entries warm = list_dir d rest entries warm"
| "list_dir d ((n, Some md) # rest) entries warm =
     list_dir d rest (entries @ [\<lparr>entry_name = n, entry_attr = attr_of md\<rparr>])
       (if \<not> md_is_dir md \<and> \<not> md_is_symlink md \<and> md_len md \<le> PREFETCH_MAX_SIZE \<and> length warm < PREFETCH_MAX_FILES
        then warm @ [join_path d n] else warm)"

section \<open>Requests\<close>

definition with_path :: "string list \<Rightarrow> string \<Rightarrow> 'h \<Rightarrow> (string \<Rightarrow> (fs_response \<times> bytes) \<times> 'h) \<Rightarrow> (fs_response \<times> bytes) \<times> 'h" where
  "with_path shared rel h f =
     (case host_path shared rel of Inl e \<Rightarrow> ((RError e, []), h) | Inr p \<Rightarrow> f p)"

definition metadata_reply :: "'h host_fs \<Rightarrow> string \<Rightarrow> 'h \<Rightarrow> fs_response" where
  "metadata_reply fs p h = (case h_metadata fs p h of Inl e \<Rightarrow> err e | Inr md \<Rightarrow> RAttr (attr_of md))"

definition unit_reply :: "(io_fail + unit) \<times> 'h \<Rightarrow> (fs_response \<times> bytes) \<times> 'h" where
  "unit_reply r = (case r of (Inl e, h) \<Rightarrow> ((err e, []), h) | (Inr _, h) \<Rightarrow> ((ROk, []), h))"

definition created_reply :: "'h host_fs \<Rightarrow> string \<Rightarrow> (io_fail + unit) \<times> 'h \<Rightarrow> (fs_response \<times> bytes) \<times> 'h" where
  "created_reply fs p r =
     (case r of (Inl e, h) \<Rightarrow> ((err e, []), h) | (Inr _, h) \<Rightarrow> ((metadata_reply fs p h, []), h))"

definition clamp_ns :: "int option \<Rightarrow> int option" where
  "clamp_ns t = map_option (\<lambda>n. max n 0) t"

definition rename_host :: "'h host_fs \<Rightarrow> string \<Rightarrow> string \<Rightarrow> 'h \<Rightarrow> (io_fail + unit) \<times> 'h" where
  "rename_host fs a b h =
     (let h1 = (if h_is_file fs b h then snd (h_remove_file fs b h) else h)
      in h_rename fs a b h1)"

definition handle_fs ::
  "'h host_fs \<Rightarrow> string list \<Rightarrow> fs_request \<Rightarrow> bytes \<Rightarrow> 'h \<Rightarrow> (fs_response \<times> bytes) \<times> 'h" where
  "handle_fs fs shared req data h =
     (case req of
        Lookup parent name \<Rightarrow>
          if CHR ''/'' \<in> set name \<or> CHR 0x5C \<in> set name \<or> name = ''..'' \<or> name = ''.''
          then ((RError 22, []), h)
          else with_path shared parent h (\<lambda>p. ((metadata_reply fs (join_path p name) h, []), h))
      | Getattr path \<Rightarrow> with_path shared path h (\<lambda>p. ((metadata_reply fs p h, []), h))
      | Readdir path \<Rightarrow> with_path shared path h (\<lambda>p.
          (case h_read_dir fs p h of
             Inl e \<Rightarrow> ((err e, []), h)
           | Inr es \<Rightarrow> ((REntries (fst (list_dir p es [] [])), []), h)))
      | Read path offset len \<Rightarrow> with_path shared path h (\<lambda>p.
          (case read_at fs p offset (min len FS_MAX_IO) h of
             Inl e \<Rightarrow> ((err e, []), h)
           | Inr b \<Rightarrow> ((RData, b), h)))
      | Write path offset \<Rightarrow> with_path shared path h (\<lambda>p.
          (case write_at fs p offset data h of
             (Inl e, h') \<Rightarrow> ((err e, []), h')
           | (Inr n, h') \<Rightarrow> ((RWritten n, []), h')))
      | Create path \<Rightarrow> with_path shared path h (\<lambda>p. created_reply fs p (h_create_new fs p h))
      | Mkdir path \<Rightarrow> with_path shared path h (\<lambda>p. created_reply fs p (h_create_dir fs p h))
      | Unlink path \<Rightarrow> with_path shared path h (\<lambda>p. unit_reply (h_remove_file fs p h))
      | Rmdir path \<Rightarrow> with_path shared path h (\<lambda>p. unit_reply (h_remove_dir fs p h))
      | Rename from to \<Rightarrow>
          (case (host_path shared from, host_path shared to) of
             (Inr a, Inr b) \<Rightarrow> unit_reply (rename_host fs a b h)
           | (Inl e, _) \<Rightarrow> ((RError e, []), h)
           | (_, Inl e) \<Rightarrow> ((RError e, []), h))
      | Truncate path sz \<Rightarrow> with_path shared path h (\<lambda>p. unit_reply (h_set_len fs p sz h))
      | SetTimes path mtime atime \<Rightarrow> with_path shared path h (\<lambda>p.
          (case h_open_write fs p h of
             Inl _ \<Rightarrow> ((ROk, []), h)
           | Inr _ \<Rightarrow> unit_reply (h_set_times fs p (clamp_ns mtime) (clamp_ns atime) h)))
      | Fsync path \<Rightarrow> with_path shared path h (\<lambda>p. ((ROk, []), h))
      | Statfs path \<Rightarrow> with_path shared path h (\<lambda>p.
          (case h_disk_space fs p h of
             Some (t, f) \<Rightarrow> ((RStatfs \<lparr>total_bytes = t, free_bytes = f\<rparr>, []), h)
           | None \<Rightarrow> ((RError 5, []), h)))
      | Readlink path \<Rightarrow> with_path shared path h (\<lambda>p.
          (case h_read_link fs p h of
             Inl e \<Rightarrow> ((err e, []), h)
           | Inr t \<Rightarrow> ((RLink (map (\<lambda>c. if c = CHR 0x5C then CHR ''/'' else c) t), []), h))))"

section \<open>Connections\<close>

text \<open>
  \<open>serve_connection\<close>: frames are answered one by one until a read or a write fails.  The drives
  shared at each request are those the engine names then.
\<close>

record fs_codec =
  req_of_json :: "bytes \<Rightarrow> fs_request option"
  json_of_resp :: "fs_response \<Rightarrow> bytes option"

definition answer_frame ::
  "fs_codec \<Rightarrow> 'h host_fs \<Rightarrow> string list \<Rightarrow> bytes \<Rightarrow> bytes \<Rightarrow> 'h \<Rightarrow> bytes \<times> 'h" where
  "answer_frame js fs shared json data h =
     (case req_of_json js json of
        None \<Rightarrow> (encode_frame (json_of_resp js) (RError 22) [], h)
      | Some req \<Rightarrow>
          (case handle_fs fs shared req data h of
             ((resp, payload), h') \<Rightarrow> (encode_frame (json_of_resp js) resp payload, h')))"

lemma read_exact_le: "read_exact n acc r = (x, r') \<Longrightarrow> rd_size r' \<le> rd_size r"
proof (induction n acc r rule: read_exact.induct)
  case (1 n acc r)
  obtain y r1 where rd: "read_some n r = (y, r1)" by (cases "read_some n r")
  then have "rd_size r1 \<le> rd_size r" by (rule read_some_le)
  with 1 rd show ?case
    by (simp add: read_exact.simps [of n acc r]) (fastforce split: if_splits sum.splits)
qed

lemma read_exact_less: "read_exact n acc r = (Inr b, r') \<Longrightarrow> 0 < n \<Longrightarrow> rd_size r' < rd_size r"
proof -
  assume st: "read_exact n acc r = (Inr b, r')" and n: "0 < n"
  obtain y r1 where rd: "read_some n r = (y, r1)" by (cases "read_some n r")
  from st n rd obtain c where c: "y = Inr c" "c \<noteq> []" "read_exact (n - length c) (acc @ c) r1 = (Inr b, r')"
    by (auto simp: read_exact.simps [of n acc r] split: sum.splits if_splits)
  then have "rd_size r1 < rd_size r" using rd read_some_decreases by blast
  with read_exact_le [OF c(3)] show ?thesis by simp
qed

lemma read_frame_less: "read_frame a b r = (Inr x, r') \<Longrightarrow> rd_size r' < rd_size r"
proof -
  assume st: "read_frame a b r = (Inr x, r')"
  obtain y1 r1 where 1: "read_exact 8 [] r = (y1, r1)" by (cases "read_exact 8 [] r")
  with st obtain hd where y1: "y1 = Inr hd" by (cases y1) (auto simp: read_frame_def)
  obtain y2 r2 where 2: "read_exact (from_le_bytes (take 4 hd)) [] r1 = (y2, r2)"
    by (cases "read_exact (from_le_bytes (take 4 hd)) [] r1")
  with st 1 y1 obtain js where y2: "y2 = Inr js" by (cases y2) (auto simp: read_frame_def Let_def split: if_splits)
  from st 1 y1 2 y2 obtain z where 3: "read_exact (from_le_bytes (drop 4 hd)) [] r2 = (z, r')"
    by (auto simp: read_frame_def Let_def split: if_splits prod.splits sum.splits)
  have "rd_size r1 < rd_size r" using 1 y1 read_exact_less by fastforce
  with read_exact_le [OF 2] read_exact_le [OF 3] show ?thesis by simp
qed

function serve_connection ::
  "fs_codec \<Rightarrow> 'h host_fs \<Rightarrow> (nat \<Rightarrow> string list) \<Rightarrow> nat \<Rightarrow> reader \<Rightarrow> writer \<Rightarrow> 'h \<Rightarrow> io_error \<times> writer \<times> 'h" where
  "serve_connection js fs shared i r w h =
     (case read_frame (2 ^ 20) (FS_MAX_IO + 16) r of
        (Inl e, r') \<Rightarrow> (e, w, h)
      | (Inr (json, data), r') \<Rightarrow>
          (case answer_frame js fs (shared i) json data h of
             (frame, h') \<Rightarrow>
               (case write_all frame w of
                  (Inl e, w') \<Rightarrow> (e, w', h')
                | (Inr _, w') \<Rightarrow> serve_connection js fs shared (Suc i) r' w' h')))"
  by pat_completeness auto
termination
  by (relation "measure (\<lambda>(js, fs, shared, i, r, w, h). rd_size r)") (auto dest: read_frame_less [OF sym])

declare serve_connection.simps [simp del]

section \<open>Files that behave\<close>

text \<open>
  What is asked of the file system of the host: \<open>content p h\<close> is the content of the regular file at
  \<open>p\<close>; its length is reported, a read inside it returns a non-empty part, perhaps a short one, and a
  write replaces the bytes at the offset, a gap being filled with zeros.
\<close>

definition overlay :: "bytes \<Rightarrow> nat \<Rightarrow> bytes \<Rightarrow> bytes" where
  "overlay c off d = take off (c @ replicate (off - length c) (CHR 0x00)) @ d @ drop (off + length d) c"

definition lawful :: "'h host_fs \<Rightarrow> (string \<Rightarrow> 'h \<Rightarrow> bytes option) \<Rightarrow> bool" where
  "lawful fs content \<longleftrightarrow>
     (\<forall>p h c. content p h = Some c \<longrightarrow> h_open_len fs p h = Inr (length c))
     \<and> (\<forall>p h c off n. content p h = Some c \<longrightarrow> off < length c \<longrightarrow> 0 < n \<longrightarrow>
          (\<exists>k. 0 < k \<and> k \<le> n \<and> h_pread fs p off n h = Inr (take k (drop off c))))
     \<and> (\<forall>p h c off d. content p h = Some c \<longrightarrow>
          (\<exists>h'. h_write_all fs p off d h = (Inr (), h') \<and> content p h' = Some (overlay c off d)
             \<and> (\<forall>q. q \<noteq> p \<longrightarrow> content q h' = content q h)))"

lemma lawful_len: "lawful fs content \<Longrightarrow> content p h = Some c \<Longrightarrow> h_open_len fs p h = Inr (length c)"
  by (simp add: lawful_def)

lemma lawful_read:
  "lawful fs content \<Longrightarrow> content p h = Some c \<Longrightarrow> off < length c \<Longrightarrow> 0 < n \<Longrightarrow>
     \<exists>k. 0 < k \<and> k \<le> n \<and> h_pread fs p off n h = Inr (take k (drop off c))"
  by (simp add: lawful_def)

lemma lawful_write:
  "lawful fs content \<Longrightarrow> content p h = Some c \<Longrightarrow>
     \<exists>h'. h_write_all fs p off d h = (Inr (), h') \<and> content p h' = Some (overlay c off d)
        \<and> (\<forall>q. q \<noteq> p \<longrightarrow> content q h' = content q h)"
  unfolding lawful_def by blast

lemma read_loop_lawful:
  assumes "lawful fs content" "content p h = Some c"
  shows "off + want \<le> length c \<Longrightarrow> got = take (length got) (drop off c) \<Longrightarrow> length got \<le> want \<Longrightarrow>
    read_loop fs p off want got h = Inr (take want (drop off c))"
proof (induction "want - length got" arbitrary: got rule: less_induct)
  case less
  show ?case
  proof (cases "length got < want")
    case False
    with less.prems have "length got = want" by simp
    with less.prems(2) show ?thesis by (simp add: read_loop.simps)
  next
    case True
    let ?n = "want - length got"
    obtain k where k: "0 < k" "k \<le> ?n" "h_pread fs p (off + length got) ?n h = Inr (take k (drop (off + length got) c))"
      using lawful_read [OF assms, of "off + length got" ?n] True less.prems(1) by auto
    let ?c = "take k (drop (off + length got) c)"
    have len: "length ?c = k" using k less.prems(1) True by simp
    have "?c \<noteq> []" using k(1) len by auto
    moreover have "take ?n ?c = ?c" using k(2) by simp
    moreover have "got @ ?c = take (length got + k) (drop off c)"
      using less.prems(2) by (metis add.commute drop_drop take_add)
    ultimately show ?thesis
      using True k len less.hyps [of "got @ ?c"] less.prems
      by (simp add: read_loop.simps [of fs p off want got])
  qed
qed

lemma read_at_lawful:
  assumes "lawful fs content" "content p h = Some c"
  shows "read_at fs p off len h = Inr (take len (drop off c))"
proof (cases "off < length c")
  case True
  have "read_loop fs p off (min len (length c - off)) [] h = Inr (take (min len (length c - off)) (drop off c))"
    using True by (intro read_loop_lawful [OF assms]) auto
  then show ?thesis using True lawful_len [OF assms] by (simp add: read_at_def min_def)
qed (use lawful_len [OF assms] in \<open>simp add: read_at_def\<close>)

lemma overlay_read: "take (length d) (drop off (overlay c off d)) = d"
  by (simp add: overlay_def)

lemma overlay_overlay:
  "overlay (overlay c off d) (off + length d) e = overlay c off (d @ e)"
  by (simp add: overlay_def min_def ac_simps) arith

section \<open>Which paths are reached\<close>

lemma split_slashes_back:
  "CHR 0x5C \<notin> set s \<Longrightarrow> split_on (CHR 0x5C) (slashes_back s) = split_on (CHR ''/'') s"
  by (induction s) (auto simp: slashes_back_def split: list.splits)

lemma to_ascii_uppercase_letter:
  "is_ascii_alphabetic c \<Longrightarrow> \<exists>u. to_ascii_uppercase (to_ascii_lowercase [c]) = [u]
     \<and> 65 \<le> code u \<and> code u \<le> 90 \<and> ascii_lower u = ascii_lower c"
  by (auto simp: is_ascii_alphabetic_def to_ascii_uppercase_def to_ascii_lowercase_def code_ascii_lower ascii_lower_def of_char_of)

lemma host_path_cases:
  assumes "host_path shared rel = Inr p"
  obtains c rest where "trim_matches (CHR ''/'') rel = [c] \<and> rest = [] \<or> trim_matches (CHR ''/'') rel = c # CHR ''/'' # rest"
    "is_ascii_alphabetic c" "\<exists>x \<in> set shared. eq_ignore_ascii_case x [ascii_lower c]"
    "\<forall>s \<in> set (split_on (CHR ''/'') rest). s \<noteq> ''..'' \<and> s \<noteq> ''.''"
    "p = (let q = to_ascii_uppercase (to_ascii_lowercase [c]) @ [CHR '':'', CHR 0x5C]
          in if rest = [] then q else join_path q (slashes_back rest))"
proof -
  let ?r = "trim_matches (CHR ''/'') rel"
  obtain drive rest where dr: "(case split_once (CHR ''/'') ?r of Some dr \<Rightarrow> dr | None \<Rightarrow> (?r, [])) = (drive, rest)"
    by (cases "case split_once (CHR ''/'') ?r of Some dr \<Rightarrow> dr | None \<Rightarrow> (?r, [])")
  from assms dr have d: "length drive = 1" "is_ascii_alphabetic (drive ! 0)"
    by (auto simp: host_path_def Let_def split: if_splits)
  then obtain c where c: "drive = [c]" by (cases drive) auto
  have shape: "?r = [c] \<and> rest = [] \<or> ?r = c # CHR ''/'' # rest"
    using dr c by (cases "split_once (CHR ''/'') ?r") (auto simp: split_once_Some)
  show thesis
    using that [OF shape] assms dr d c
    by (auto simp: host_path_def Let_def to_ascii_lowercase_def split: if_splits)
qed

section \<open>Properties\<close>

text \<open>
  C12. A path with a single drive letter, without colon, backslash or empty segment, reaches only a
  shared drive: the host path is below the root of a drive that is shared, and none of its
  components climbs.
\<close>

theorem host_path_on_shared_drive:
  assumes "host_path shared rel = Inr p"
    and "CHR '':'' \<notin> set rel" "CHR 0x5C \<notin> set rel" "\<not> sublist ''//'' rel"
  shows "\<exists>u r. p = [u, CHR '':'', CHR 0x5C] @ r \<and> is_ascii_alphabetic u
       \<and> (\<exists>x \<in> set shared. eq_ignore_ascii_case x [u])
       \<and> (\<forall>s \<in> set (split_on (CHR 0x5C) r). s \<noteq> ''..'' \<and> s \<noteq> ''.'')"
proof -
  obtain c rest where c: "trim_matches (CHR ''/'') rel = [c] \<and> rest = [] \<or> trim_matches (CHR ''/'') rel = c # CHR ''/'' # rest"
    "is_ascii_alphabetic c" "\<exists>x \<in> set shared. eq_ignore_ascii_case x [ascii_lower c]"
    "\<forall>s \<in> set (split_on (CHR ''/'') rest). s \<noteq> ''..'' \<and> s \<noteq> ''.''"
    "p = (let q = to_ascii_uppercase (to_ascii_lowercase [c]) @ [CHR '':'', CHR 0x5C]
          in if rest = [] then q else join_path q (slashes_back rest))"
    using host_path_cases [OF assms(1)] by blast
  obtain u where u: "to_ascii_uppercase (to_ascii_lowercase [c]) = [u]" "65 \<le> code u" "code u \<le> 90"
    "ascii_lower u = ascii_lower c" using to_ascii_uppercase_letter [OF c(2)] by blast
  have sub: "sublist rest rel"
    using c(1) sublist_trim_matches [of "CHR ''/''" rel]
    by (auto dest: sublist_order.order_trans [rotated] simp: sublist_Cons_right)
  then have none: "CHR '':'' \<notin> set rest" "CHR 0x5C \<notin> set rest"
    using assms(2,3) set_mono_sublist by blast+
  have hd: "rest = [] \<or> hd rest \<noteq> CHR ''/''"
  proof (rule ccontr)
    assume "\<not> ?thesis"
    then obtain t where "rest = CHR ''/'' # t" by (cases rest) auto
    with c(1) have "sublist ''//'' (trim_matches (CHR ''/'') rel)" by (auto simp: sublist_Cons_right)
    with sublist_trim_matches assms(4) show False by (blast dest: sublist_order.order_trans)
  qed
  have p: "p = [u, CHR '':'', CHR 0x5C] @ slashes_back rest"
  proof (cases rest)
    case Nil
    with c(5) u show ?thesis by (simp add: slashes_back_def)
  next
    case (Cons x xs)
    have x: "x \<noteq> CHR ''/''" "x \<noteq> CHR 0x5C" using hd none Cons by auto
    have nd: "\<not> has_drive (slashes_back rest)"
      using none Cons by (cases xs) (auto simp: has_drive_def slashes_back_def)
    have ns: "\<not> is_sep (slashes_back rest ! 0)" "slashes_back rest \<noteq> []"
      using x Cons by (auto simp: slashes_back_def is_sep_def)
    have "join_path [u, CHR '':'', CHR 0x5C] (slashes_back rest) = [u, CHR '':'', CHR 0x5C] @ slashes_back rest"
      using nd ns by (simp add: join_path_def) (simp add: is_sep_def)
    with Cons c(5) u show ?thesis by simp
  qed
  have al: "is_ascii_alphabetic u" using u by (simp add: is_ascii_alphabetic_def)
  have sh: "\<exists>x \<in> set shared. eq_ignore_ascii_case x [u]"
    using c(3) u(4) by (simp add: eq_ignore_ascii_case_def to_ascii_lowercase_def)
  show ?thesis using p al sh c(4) split_slashes_back [OF none(2)] by auto
qed

theorem host_path_on_shared_drive_witness:
  "\<exists>u r. [CHR ''C'', CHR '':'', CHR 0x5C] @ ''Users'' @ [CHR 0x5C] @ ''v'' = [u, CHR '':'', CHR 0x5C] @ r \<and> is_ascii_alphabetic u"
proof -
  have h: "host_path [''c''] ''c/Users/v'' = Inr ([CHR ''C'', CHR '':'', CHR 0x5C] @ ''Users'' @ [CHR 0x5C] @ ''v'')" by code_simp
  have n: "\<not> sublist ''//'' ''c/Users/v''" by (simp add: sublist_code)
  show ?thesis using host_path_on_shared_drive [OF h _ _ n] by auto
qed

text \<open>
  The check of the shared drives can be passed by: behind a shared drive, a path that begins
  with another drive letter and a colon replaces the root it is pushed onto, so that the server
  opens a drive that is not shared.
\<close>

theorem colon_reaches_unshared_drive:
  assumes "is_ascii_alphabetic c" "is_ascii_alphabetic x" "[c] \<in> set shared" "r \<noteq> []" "last r \<noteq> CHR ''/''"
    and "\<forall>s \<in> set (split_on (CHR ''/'') r). s \<noteq> ''..'' \<and> s \<noteq> ''.''"
  shows "host_path shared ([c, CHR ''/'', x, CHR '':'', CHR ''/''] @ r) = Inr ([x, CHR '':'', CHR 0x5C] @ slashes_back r)"
proof -
  let ?rel = "[c, CHR ''/'', x, CHR '':'', CHR ''/''] @ r"
  have letters: "c \<noteq> CHR ''/''" "x \<noteq> CHR ''/''" using assms(1,2) by (auto simp: is_ascii_alphabetic_def)
  have t: "trim_matches (CHR ''/'') ?rel = ?rel" using assms(4,5) letters by (intro trim_matches_id) auto
  have sp: "split_once (CHR ''/'') ?rel = Some ([c], [x, CHR '':'', CHR ''/''] @ r)"
    using letters by (simp add: split_once_Some)
  have sh: "\<exists>y \<in> set shared. eq_ignore_ascii_case y (to_ascii_lowercase [c])"
    using assms(3) by (auto simp: eq_ignore_ascii_case_def)
  have seg: "split_on (CHR ''/'') ([x, CHR '':'', CHR ''/''] @ r) = [x, CHR '':''] # split_on (CHR ''/'') r"
    using letters split_on_append [of "CHR ''/''" "[x, CHR '':'']" r] by simp
  have j: "join_path q (slashes_back ([x, CHR '':'', CHR ''/''] @ r)) = [x, CHR '':'', CHR 0x5C] @ slashes_back r" for q
    using assms(2) letters by (simp add: join_path_def has_drive_def slashes_back_def)
  have dots: "\<not> (\<exists>s \<in> set ([x, CHR '':''] # split_on (CHR ''/'') r). s = ''..'' \<or> s = ''.'')"
    using assms(6) by auto
  show ?thesis
    unfolding host_path_def t sp Let_def option.case prod.case seg
    using assms(1) sh dots j by simp
qed

theorem colon_reaches_unshared_drive_witness:
  "host_path [''c''] ''c/D:/secret'' = Inr ([CHR ''D'', CHR '':'', CHR 0x5C] @ ''secret'')"
  using colon_reaches_unshared_drive [of "CHR ''c''" "CHR ''D''" "[''c'']" "''secret''"]
  by (simp add: is_ascii_alphabetic_def slashes_back_def)

text \<open>
  A rename that fails can lose its target: the target file is removed before the rename is
  tried, so when the rename is refused the answer is that error and the target is gone.
\<close>

theorem failed_rename_loses_target:
  assumes "host_path shared from = Inr a" "host_path shared to = Inr b"
    and "h_is_file fs b h" "h_remove_file fs b h = (Inr (), h')" "h_rename fs a b h' = (Inl e, h')"
  shows "handle_fs fs shared (Rename from to) data h = ((err e, []), h')"
  using assms by (simp add: handle_fs_def rename_host_def unit_reply_def)

text \<open>A file system with regular files only, as a map.\<close>

definition no_file :: io_fail where "no_file = \<lparr>io_kind_of = NotFound, raw_os = Some 2\<rparr>"

definition file_md :: "bytes \<Rightarrow> metadata" where
  "file_md c = \<lparr>md_is_dir = False, md_is_symlink = False, md_len = length c, md_modified = Some 0,
     md_accessed = Some 0, md_created = Some 0, md_readonly = False\<rparr>"

definition plain_host :: "(string \<rightharpoonup> bytes) host_fs" where
  "plain_host =
     \<lparr>h_metadata = (\<lambda>p h. case h p of Some c \<Rightarrow> Inr (file_md c) | None \<Rightarrow> Inl no_file),
      h_read_dir = (\<lambda>p h. Inl no_file),
      h_open_len = (\<lambda>p h. case h p of Some c \<Rightarrow> Inr (length c) | None \<Rightarrow> Inl no_file),
      h_pread = (\<lambda>p off n h. case h p of Some c \<Rightarrow> Inr (take n (drop off c)) | None \<Rightarrow> Inl no_file),
      h_write_all = (\<lambda>p off d h. case h p of Some c \<Rightarrow> (Inr (), h(p \<mapsto> overlay c off d)) | None \<Rightarrow> (Inl no_file, h)),
      h_create_new = (\<lambda>p h. if h p = None then (Inr (), h(p \<mapsto> [])) else (Inl \<lparr>io_kind_of = AlreadyExists, raw_os = None\<rparr>, h)),
      h_create_dir = (\<lambda>p h. (Inl no_file, h)),
      h_remove_file = (\<lambda>p h. if h p = None then (Inl no_file, h) else (Inr (), h(p := None))),
      h_remove_dir = (\<lambda>p h. (Inl no_file, h)),
      h_is_file = (\<lambda>p h. h p \<noteq> None),
      h_rename = (\<lambda>a b h. if h a = None then (Inl no_file, h) else (Inr (), (h(a := None))(b := h a))),
      h_set_len = (\<lambda>p n h. (Inl no_file, h)),
      h_open_write = (\<lambda>p h. if h p = None then Inl no_file else Inr ()),
      h_set_times = (\<lambda>p m a h. (Inr (), h)),
      h_disk_space = (\<lambda>p h. None),
      h_read_link = (\<lambda>p h. Inl no_file)\<rparr>"

lemma plain_host_lawful: "lawful plain_host (\<lambda>p h. h p)"
  by (auto simp: lawful_def plain_host_def)

theorem failed_rename_loses_target_witness:
  "handle_fs plain_host [''c''] (Rename ''c/gone'' ''c/kept'') [] [''C:'' @ [CHR 0x5C] @ ''kept'' \<mapsto> ''data'']
     = ((RError 2, []), Map.empty)"
proof -
  let ?b = "''C:'' @ [CHR 0x5C] @ ''kept''"
  have a: "host_path [''c''] ''c/gone'' = Inr (''C:'' @ [CHR 0x5C] @ ''gone'')" by code_simp
  have b: "host_path [''c''] ''c/kept'' = Inr ?b" by code_simp
  have "h_is_file plain_host ?b [?b \<mapsto> ''data'']"
    "h_remove_file plain_host ?b [?b \<mapsto> ''data''] = (Inr (), Map.empty)"
    "h_rename plain_host (''C:'' @ [CHR 0x5C] @ ''gone'') ?b Map.empty = (Inl no_file, Map.empty)"
    by (simp_all add: plain_host_def)
  from failed_rename_loses_target [OF a b this, of "[]"] show ?thesis
    by (simp add: err_def no_file_def)
qed

end
