(* ===== verification/Solon_Fs.thy ===== *)
theory Solon_Fs
  imports File_Server Transitions
begin

text \<open>
  The file system client of the machine (\<open>crates/solon-agent/src/solonfs.rs\<close>): the FUSE operations on a
  shared drive, the tables of inodes, and the caches of attributes and listings.  An inode's path is
  the list of its components.  The exchange with the host (\<open>call\<close>) is a parameter, a function of the
  request, the raw bytes and the state of the other side; time is in milliseconds.
\<close>

definition TTL :: nat where "TTL = 1000"
definition CACHE_TTL :: nat where "CACHE_TTL = 1500"
definition READAHEAD :: nat where "READAHEAD = 128 * 1024"
definition BLOCK :: nat where "BLOCK = 4096"

definition ENOENT :: int where "ENOENT = 2"
definition EIO :: int where "EIO = 5"
definition EBADF :: int where "EBADF = 9"
definition EINVAL :: int where "EINVAL = 22"
definition ENOSPC :: int where "ENOSPC = 28"

type_synonym 'w host_call = "fs_request \<Rightarrow> bytes \<Rightarrow> 'w \<Rightarrow> (int + fs_response \<times> bytes) \<times> 'w"

record 'a cached =
  cvalue :: 'a
  cat :: nat

datatype file_type = Directory | Symlink | RegularFile

record file_attr =
  fa_ino :: nat
  fa_size :: nat
  fa_blocks :: nat
  fa_atime :: int
  fa_mtime :: int
  fa_ctime :: int
  fa_crtime :: int
  fa_kind :: file_type
  fa_perm :: nat
  fa_nlink :: nat
  fa_uid :: nat
  fa_gid :: nat
  fa_rdev :: nat
  fa_blksize :: nat
  fa_flags :: nat

record solon_fs =
  drive :: string
  inodes :: "nat \<rightharpoonup> string list"
  by_path :: "string list \<rightharpoonup> nat"
  next_ino :: nat
  attrs :: "nat \<rightharpoonup> fs_attr cached"
  dirs :: "nat \<rightharpoonup> (string \<times> nat) list cached"
  dir_handles :: "nat \<rightharpoonup> (nat \<times> file_type \<times> string) list"
  next_fh :: nat
  fs_uid :: nat
  fs_gid :: nat

datatype fuse_reply =
    FEntry file_attr
  | FAttr file_attr
  | FData bytes
  | FOk
  | FWritten nat
  | FOpened nat
  | FDirectory "(nat \<times> nat \<times> file_type \<times> string) list"
  | FStatfs nat nat
  | FCreated file_attr
  | FError int

section \<open>Tables and caches\<close>

definition solon_fs_new :: "string \<Rightarrow> solon_fs" where
  "solon_fs_new d =
     \<lparr>drive = d, inodes = [1 \<mapsto> []], by_path = [[] \<mapsto> 1], next_ino = 2, attrs = Map.empty,
      dirs = Map.empty, dir_handles = Map.empty, next_fh = 1, fs_uid = 0, fs_gid = 0\<rparr>"

definition rel :: "solon_fs \<Rightarrow> nat \<Rightarrow> string option" where
  "rel s ino = map_option (\<lambda>p. fold (\<lambda>c acc. acc @ ''/'' @ c) p (drive s)) (inodes s ino)"

definition ino_for :: "string list \<Rightarrow> solon_fs \<Rightarrow> nat \<times> solon_fs" where
  "ino_for p s =
     (case by_path s p of
        Some i \<Rightarrow> (i, s)
      | None \<Rightarrow>
          let i = next_ino s
          in (i, s\<lparr>next_ino := i + 1, inodes := (inodes s)(i \<mapsto> p), by_path := (by_path s)(p \<mapsto> i)\<rparr>))"

definition child_path :: "nat \<Rightarrow> string \<Rightarrow> solon_fs \<Rightarrow> string list option" where
  "child_path parent name s = map_option (\<lambda>p. p @ [name]) (inodes s parent)"

definition remember :: "nat \<Rightarrow> nat \<Rightarrow> fs_attr \<Rightarrow> solon_fs \<Rightarrow> solon_fs" where
  "remember now ino a s = s\<lparr>attrs := (attrs s)(ino \<mapsto> \<lparr>cvalue = a, cat = now\<rparr>)\<rparr>"

definition is_fresh :: "nat \<Rightarrow> 'a cached \<Rightarrow> bool" where
  "is_fresh now c \<longleftrightarrow> now - cat c < CACHE_TTL"

definition cached_attr :: "nat \<Rightarrow> nat \<Rightarrow> solon_fs \<Rightarrow> fs_attr option" where
  "cached_attr now ino s =
     (case attrs s ino of Some c \<Rightarrow> if is_fresh now c then Some (cvalue c) else None | None \<Rightarrow> None)"

definition forget_path :: "nat \<Rightarrow> solon_fs \<Rightarrow> solon_fs" where
  "forget_path ino s = s\<lparr>attrs := (attrs s)(ino := None), dirs := (dirs s)(ino := None)\<rparr>"

definition drop_dir :: "nat \<Rightarrow> solon_fs \<Rightarrow> solon_fs" where
  "drop_dir ino s = s\<lparr>dirs := (dirs s)(ino := None)\<rparr>"

definition div_ceil :: "nat \<Rightarrow> nat \<Rightarrow> nat" where
  "div_ceil a b = (a + b - 1) div b"

definition to_file_attr :: "solon_fs \<Rightarrow> nat \<Rightarrow> fs_attr \<Rightarrow> file_attr" where
  "to_file_attr s ino a =
     (let (k, perm, nlink) =
        (case kind a of
           FsDir \<Rightarrow> (Directory, 511, 2)
         | FsSymlink \<Rightarrow> (Symlink, 511, 1)
         | FsFile \<Rightarrow> (RegularFile, if readonly a then 292 else 438, 1))
      in \<lparr>fa_ino = ino, fa_size = fsize a, fa_blocks = div_ceil (fsize a) 512,
          fa_atime = max 0 (atime_ns a), fa_mtime = max 0 (mtime_ns a), fa_ctime = max 0 (ctime_ns a),
          fa_crtime = max 0 (ctime_ns a), fa_kind = k, fa_perm = perm, fa_nlink = nlink,
          fa_uid = fs_uid s, fa_gid = fs_gid s, fa_rdev = 0, fa_blksize = BLOCK, fa_flags = 0\<rparr>)"

definition fetch_attr ::
  "'w host_call \<Rightarrow> nat \<Rightarrow> nat \<Rightarrow> solon_fs \<Rightarrow> 'w \<Rightarrow> (int + fs_attr) \<times> solon_fs \<times> 'w" where
  "fetch_attr call now ino s w =
     (case cached_attr now ino s of
        Some a \<Rightarrow> (Inr a, s, w)
      | None \<Rightarrow>
          (case rel s ino of
             None \<Rightarrow> (Inl 2, s, w)
           | Some path \<Rightarrow>
               (case call (Getattr path) [] w of
                  (Inl e, w') \<Rightarrow> (Inl e, s, w')
                | (Inr (RAttr a, _), w') \<Rightarrow> (Inr a, remember now ino a s, w')
                | (Inr (RError e, _), w') \<Rightarrow> (Inl e, s, w')
                | (Inr _, w') \<Rightarrow> (Inl 5, s, w'))))"

fun adopt_entries ::
  "nat \<Rightarrow> string list \<Rightarrow> fs_entry list \<Rightarrow> solon_fs \<Rightarrow> (string \<times> nat) list \<times> solon_fs" where
  "adopt_entries now d [] s = ([], s)"
| "adopt_entries now d (e # es) s =
     (case ino_for (d @ [entry_name e]) s of
        (child, s1) \<Rightarrow>
          (case adopt_entries now d es (remember now child (entry_attr e) s1) of
             (l, s2) \<Rightarrow> ((entry_name e, child) # l, s2)))"

definition fetch_dir ::
  "'w host_call \<Rightarrow> nat \<Rightarrow> nat \<Rightarrow> solon_fs \<Rightarrow> 'w \<Rightarrow> (int + (string \<times> nat) list) \<times> solon_fs \<times> 'w" where
  "fetch_dir call now ino s w =
     (case (case dirs s ino of Some c \<Rightarrow> if is_fresh now c then Some (cvalue c) else None | None \<Rightarrow> None) of
        Some l \<Rightarrow> (Inr l, s, w)
      | None \<Rightarrow>
          (case (rel s ino, inodes s ino) of
             (Some path, Some d) \<Rightarrow>
               (case call (Readdir path) [] w of
                  (Inl e, w') \<Rightarrow> (Inl e, s, w')
                | (Inr (REntries es, _), w') \<Rightarrow>
                    (case adopt_entries now d es s of
                       (l, s') \<Rightarrow> (Inr l, s'\<lparr>dirs := (dirs s')(ino \<mapsto> \<lparr>cvalue = l, cat = now\<rparr>)\<rparr>, w'))
                | (Inr (RError e, _), w') \<Rightarrow> (Inl e, s, w')
                | (Inr _, w') \<Rightarrow> (Inl 5, s, w'))
           | _ \<Rightarrow> (Inl 2, s, w)))"

definition simple :: "'w host_call \<Rightarrow> fs_request \<Rightarrow> 'w \<Rightarrow> (int + unit) \<times> 'w" where
  "simple call req w =
     (case call req [] w of
        (Inl e, w') \<Rightarrow> (Inl e, w')
      | (Inr (ROk, _), w') \<Rightarrow> (Inr (), w')
      | (Inr (RError e, _), w') \<Rightarrow> (Inl e, w')
      | (Inr _, w') \<Rightarrow> (Inl 5, w'))"

definition name_ok :: "string \<Rightarrow> bool" where
  "name_ok n \<longleftrightarrow> n \<noteq> [] \<and> n \<noteq> ''.'' \<and> n \<noteq> ''..'' \<and> CHR ''/'' \<notin> set n \<and> CHR 0x5C \<notin> set n"

section \<open>Operations\<close>

text \<open>The answers of the host to a request that creates or looks up an entry.\<close>

definition entry_reply ::
  "(file_attr \<Rightarrow> fuse_reply) \<Rightarrow> (solon_fs \<Rightarrow> solon_fs) \<Rightarrow> nat \<Rightarrow> nat \<Rightarrow> solon_fs \<Rightarrow> (int + fs_response \<times> bytes) \<times> 'w \<Rightarrow>
     fuse_reply \<times> solon_fs \<times> 'w" where
  "entry_reply mk upd now ino s r =
     (case r of
        (Inl e, w) \<Rightarrow> (FError e, s, w)
      | (Inr (RAttr a, _), w) \<Rightarrow> (mk (to_file_attr s ino a), remember now ino a (upd s), w)
      | (Inr (RError e, _), w) \<Rightarrow> (FError e, s, w)
      | (Inr _, w) \<Rightarrow> (FError EIO, s, w))"

definition fs_lookup :: "'w host_call \<Rightarrow> nat \<Rightarrow> nat \<Rightarrow> string \<Rightarrow> solon_fs \<Rightarrow> 'w \<Rightarrow> fuse_reply \<times> solon_fs \<times> 'w" where
  "fs_lookup call now parent name s w =
     (if \<not> name_ok name then (FError ENOENT, s, w)
      else (case child_path parent name s of
              None \<Rightarrow> (FError ENOENT, s, w)
            | Some p \<Rightarrow>
                (case ino_for p s of
                   (ino, s1) \<Rightarrow>
                     (case cached_attr now ino s1 of
                        Some a \<Rightarrow> (FEntry (to_file_attr s1 ino a), s1, w)
                      | None \<Rightarrow>
                          if (case dirs s1 parent of
                                Some c \<Rightarrow> is_fresh now c \<and> \<not> (\<exists>e \<in> set (cvalue c). eq_ignore_ascii_case (fst e) name)
                              | None \<Rightarrow> False)
                          then (FError ENOENT, s1, w)
                          else (case rel s1 parent of
                                  None \<Rightarrow> (FError ENOENT, s1, w)
                                | Some parent_rel \<Rightarrow>
                                    entry_reply FEntry (\<lambda>s. s) now ino s1 (call (Lookup parent_rel name) [] w))))))"

definition attr_reply :: "nat \<Rightarrow> (int + fs_attr) \<times> solon_fs \<times> 'w \<Rightarrow> fuse_reply \<times> solon_fs \<times> 'w" where
  "attr_reply ino r =
     (case r of
        (Inr a, s, w) \<Rightarrow> (FAttr (to_file_attr s ino a), s, w)
      | (Inl e, s, w) \<Rightarrow> (FError e, s, w))"

definition fs_getattr :: "'w host_call \<Rightarrow> nat \<Rightarrow> nat \<Rightarrow> solon_fs \<Rightarrow> 'w \<Rightarrow> fuse_reply \<times> solon_fs \<times> 'w" where
  "fs_getattr call now ino s w = attr_reply ino (fetch_attr call now ino s w)"

datatype time_or_now = SpecificTime int | Now

definition to_ns :: "int \<Rightarrow> time_or_now \<Rightarrow> int" where
  "to_ns now_ns t =
     (let n = (case t of SpecificTime x \<Rightarrow> x | Now \<Rightarrow> now_ns)
      in if n \<ge> 0 then sint (word_of_int n :: 64 word) else 0)"

definition fs_setattr ::
  "'w host_call \<Rightarrow> nat \<Rightarrow> int \<Rightarrow> nat \<Rightarrow> nat option \<Rightarrow> time_or_now option \<Rightarrow> time_or_now option \<Rightarrow> solon_fs \<Rightarrow> 'w \<Rightarrow>
     fuse_reply \<times> solon_fs \<times> 'w" where
  "fs_setattr call now now_ns ino sz atime mtime s w =
     (case rel s ino of
        None \<Rightarrow> (FError ENOENT, s, w)
      | Some path \<Rightarrow>
          (case (case sz of Some n \<Rightarrow> simple call (Truncate path n) w | None \<Rightarrow> (Inr (), w)) of
             (Inl e, w1) \<Rightarrow> (FError e, s, w1)
           | (Inr _, w1) \<Rightarrow>
               (case (if atime \<noteq> None \<or> mtime \<noteq> None
                      then simple call (SetTimes path (map_option (to_ns now_ns) mtime) (map_option (to_ns now_ns) atime)) w1
                      else (Inr (), w1)) of
                  (Inl e, w2) \<Rightarrow> (FError e, s, w2)
                | (Inr _, w2) \<Rightarrow> attr_reply ino (fetch_attr call now ino (forget_path ino s) w2))))"

definition fs_readlink :: "'w host_call \<Rightarrow> nat \<Rightarrow> solon_fs \<Rightarrow> 'w \<Rightarrow> fuse_reply \<times> solon_fs \<times> 'w" where
  "fs_readlink call ino s w =
     (case rel s ino of
        None \<Rightarrow> (FError ENOENT, s, w)
      | Some path \<Rightarrow>
          (case call (Readlink path) [] w of
             (Inl e, w') \<Rightarrow> (FError e, s, w')
           | (Inr (RLink t, _), w') \<Rightarrow> (FData t, s, w')
           | (Inr (RError e, _), w') \<Rightarrow> (FError e, s, w')
           | (Inr _, w') \<Rightarrow> (FError EIO, s, w')))"

text \<open>Creating a directory or a file: the same steps with another request and reply.\<close>

definition make_entry ::
  "(file_attr \<Rightarrow> fuse_reply) \<Rightarrow> (string \<Rightarrow> fs_request) \<Rightarrow> 'w host_call \<Rightarrow> nat \<Rightarrow> nat \<Rightarrow> string \<Rightarrow> solon_fs \<Rightarrow> 'w \<Rightarrow>
     fuse_reply \<times> solon_fs \<times> 'w" where
  "make_entry mk req call now parent name s w =
     (if \<not> name_ok name then (FError EINVAL, s, w)
      else (case child_path parent name s of
              None \<Rightarrow> (FError ENOENT, s, w)
            | Some p \<Rightarrow>
                (case ino_for p s of
                   (ino, s1) \<Rightarrow>
                     (case rel s1 ino of
                        None \<Rightarrow> (FError ENOENT, s1, w)
                      | Some path \<Rightarrow> entry_reply mk (drop_dir parent) now ino s1 (call (req path) [] w)))))"

definition fs_mkdir :: "'w host_call \<Rightarrow> nat \<Rightarrow> nat \<Rightarrow> string \<Rightarrow> solon_fs \<Rightarrow> 'w \<Rightarrow> fuse_reply \<times> solon_fs \<times> 'w" where
  "fs_mkdir = make_entry FEntry Mkdir"

definition fs_create :: "'w host_call \<Rightarrow> nat \<Rightarrow> nat \<Rightarrow> string \<Rightarrow> solon_fs \<Rightarrow> 'w \<Rightarrow> fuse_reply \<times> solon_fs \<times> 'w" where
  "fs_create = make_entry FCreated Create"

text \<open>Removing a file or a directory.\<close>

definition remove_entry ::
  "(string \<Rightarrow> fs_request) \<Rightarrow> 'w host_call \<Rightarrow> nat \<Rightarrow> string \<Rightarrow> solon_fs \<Rightarrow> 'w \<Rightarrow> fuse_reply \<times> solon_fs \<times> 'w" where
  "remove_entry req call parent name s w =
     (case child_path parent name s of
        None \<Rightarrow> (FError ENOENT, s, w)
      | Some p \<Rightarrow>
          (case ino_for p s of
             (ino, s1) \<Rightarrow>
               (case rel s1 ino of
                  None \<Rightarrow> (FError ENOENT, s1, w)
                | Some path \<Rightarrow>
                    (case simple call (req path) w of
                       (Inl e, w') \<Rightarrow> (FError e, s1, w')
                     | (Inr _, w') \<Rightarrow> (FOk, drop_dir parent (forget_path ino s1), w')))))"

definition fs_unlink :: "'w host_call \<Rightarrow> nat \<Rightarrow> string \<Rightarrow> solon_fs \<Rightarrow> 'w \<Rightarrow> fuse_reply \<times> solon_fs \<times> 'w" where
  "fs_unlink = remove_entry Unlink"

definition fs_rmdir :: "'w host_call \<Rightarrow> nat \<Rightarrow> string \<Rightarrow> solon_fs \<Rightarrow> 'w \<Rightarrow> fuse_reply \<times> solon_fs \<times> 'w" where
  "fs_rmdir = remove_entry Rmdir"

text \<open>
  \<open>rename\<close>: the inode follows the file, and the entry that was at the destination is forgotten.
\<close>

definition move_path :: "string list \<Rightarrow> string list \<Rightarrow> nat \<Rightarrow> solon_fs \<Rightarrow> solon_fs" where
  "move_path from_p to_p from_ino s =
     (let b1 = (by_path s)(from_p := None);
          b2 = b1(to_p := None);
          (i2, a2) = (case b1 to_p of
                        Some old \<Rightarrow> ((inodes s)(old := None), (attrs s)(old := None))
                      | None \<Rightarrow> (inodes s, attrs s))
      in s\<lparr>inodes := i2(from_ino \<mapsto> to_p), by_path := b2(to_p \<mapsto> from_ino), attrs := a2(from_ino := None)\<rparr>)"

definition fs_rename ::
  "'w host_call \<Rightarrow> nat \<Rightarrow> string \<Rightarrow> nat \<Rightarrow> string \<Rightarrow> solon_fs \<Rightarrow> 'w \<Rightarrow> fuse_reply \<times> solon_fs \<times> 'w" where
  "fs_rename call parent name newparent newname s w =
     (if \<not> name_ok name \<or> \<not> name_ok newname then (FError EINVAL, s, w)
      else (case (child_path parent name s, child_path newparent newname s) of
              (Some from_p, Some to_p) \<Rightarrow>
                (case ino_for from_p s of
                   (from_ino, s1) \<Rightarrow>
                     (case ino_for to_p s1 of
                        (i, s2) \<Rightarrow>
                          (case (rel s1 from_ino, rel s2 i) of
                             (Some frm, Some dest) \<Rightarrow>
                               (case simple call (Rename frm dest) w of
                                  (Inl e, w') \<Rightarrow> (FError e, s2, w')
                                | (Inr _, w') \<Rightarrow>
                                    (FOk, drop_dir newparent (drop_dir parent (move_path from_p to_p from_ino s2)), w'))
                           | _ \<Rightarrow> (FError ENOENT, s2, w))))
            | _ \<Rightarrow> (FError ENOENT, s, w)))"

definition fs_open :: "solon_fs \<Rightarrow> fuse_reply \<times> solon_fs" where
  "fs_open s = (FOpened 0, s)"

definition fs_read :: "'w host_call \<Rightarrow> nat \<Rightarrow> int \<Rightarrow> nat \<Rightarrow> solon_fs \<Rightarrow> 'w \<Rightarrow> fuse_reply \<times> solon_fs \<times> 'w" where
  "fs_read call ino offset sz s w =
     (case rel s ino of
        None \<Rightarrow> (FError ENOENT, s, w)
      | Some path \<Rightarrow>
          (case call (Read path (nat (max offset 0)) (min (max sz READAHEAD) FS_MAX_IO)) [] w of
             (Inl e, w') \<Rightarrow> (FError e, s, w')
           | (Inr (RData, data), w') \<Rightarrow> (FData (take (min sz (length data)) data), s, w')
           | (Inr (RError e, _), w') \<Rightarrow> (FError e, s, w')
           | (Inr _, w') \<Rightarrow> (FError EIO, s, w')))"

text \<open>
  The loop of \<open>write\<close>: chunks of at most \<open>FS_MAX_IO\<close> bytes; the host says how many it took, and
  none without an error ends the loop.
\<close>

function write_loop :: "'w host_call \<Rightarrow> string \<Rightarrow> nat \<Rightarrow> bytes \<Rightarrow> nat \<Rightarrow> 'w \<Rightarrow> (int + nat) \<times> 'w" where
  "write_loop call path off data done w =
     (if done < length data then
        (case call (Write path (off + done)) (take (min (done + FS_MAX_IO) (length data) - done) (drop done data)) w of
           (Inl e, w') \<Rightarrow> (Inl e, w')
         | (Inr (RWritten n, _), w') \<Rightarrow>
             if n = 0 then (Inl ENOSPC, w') else write_loop call path off data (done + n) w'
         | (Inr (RError e, _), w') \<Rightarrow> (Inl e, w')
         | (Inr _, w') \<Rightarrow> (Inl EIO, w'))
      else (Inr done, w))"
  by pat_completeness auto
termination
  by (relation "measure (\<lambda>(call, path, off, data, done, w). length data - done)") auto

declare write_loop.simps [simp del]

definition fs_write :: "'w host_call \<Rightarrow> nat \<Rightarrow> int \<Rightarrow> bytes \<Rightarrow> solon_fs \<Rightarrow> 'w \<Rightarrow> fuse_reply \<times> solon_fs \<times> 'w" where
  "fs_write call ino offset data s w =
     (case rel s ino of
        None \<Rightarrow> (FError ENOENT, s, w)
      | Some path \<Rightarrow>
          (case write_loop call path (nat (max offset 0)) data 0 w of
             (Inl e, w') \<Rightarrow> (FError e, s, w')
           | (Inr done, w') \<Rightarrow> (FWritten (done mod 2 ^ 32), forget_path ino s, w')))"

definition fs_flush :: "solon_fs \<Rightarrow> fuse_reply \<times> solon_fs" where
  "fs_flush s = (FOk, s)"

definition fs_release :: "solon_fs \<Rightarrow> fuse_reply \<times> solon_fs" where
  "fs_release s = (FOk, s)"

definition fs_fsync :: "'w host_call \<Rightarrow> nat \<Rightarrow> solon_fs \<Rightarrow> 'w \<Rightarrow> fuse_reply \<times> solon_fs \<times> 'w" where
  "fs_fsync call ino s w =
     (case rel s ino of
        None \<Rightarrow> (FError ENOENT, s, w)
      | Some path \<Rightarrow>
          (case simple call (Fsync path) w of
             (Inr _, w') \<Rightarrow> (FOk, s, w')
           | (Inl e, w') \<Rightarrow> (FError e, s, w')))"

definition fs_opendir :: "solon_fs \<Rightarrow> fuse_reply \<times> solon_fs" where
  "fs_opendir s = (FOpened (next_fh s), s\<lparr>next_fh := next_fh s + 1\<rparr>)"

definition parent_ino :: "nat \<Rightarrow> solon_fs \<Rightarrow> nat" where
  "parent_ino ino s =
     (case inodes s ino of
        Some p \<Rightarrow> if p = [] then 1 else (case by_path s (butlast p) of Some i \<Rightarrow> i | None \<Rightarrow> 1)
      | None \<Rightarrow> 1)"

definition dir_entry_kind :: "solon_fs \<Rightarrow> nat \<Rightarrow> file_type" where
  "dir_entry_kind s child =
     (case attrs s child of
        Some c \<Rightarrow> (case kind (cvalue c) of FsDir \<Rightarrow> Directory | FsSymlink \<Rightarrow> Symlink | FsFile \<Rightarrow> RegularFile)
      | None \<Rightarrow> RegularFile)"

definition dir_snapshot :: "nat \<Rightarrow> (string \<times> nat) list \<Rightarrow> solon_fs \<Rightarrow> (nat \<times> file_type \<times> string) list" where
  "dir_snapshot ino l s =
     (ino, Directory, ''.'') # (parent_ino ino s, Directory, ''..'')
       # map (\<lambda>(name, child). (child, dir_entry_kind s child, name)) l"

text \<open>
  The answers of \<open>readdir\<close>: the snapshot of the handle from the offset on, each entry with the
  offset that continues behind it, as long as the buffer of the kernel takes them (\<open>fits\<close> tells,
  from the entries already there, whether one more goes in).
\<close>

fun add_entries ::
  "((nat \<times> nat \<times> file_type \<times> string) list \<Rightarrow> bool) \<Rightarrow> nat \<Rightarrow> (nat \<times> file_type \<times> string) list \<Rightarrow>
     (nat \<times> nat \<times> file_type \<times> string) list \<Rightarrow> (nat \<times> nat \<times> file_type \<times> string) list" where
  "add_entries fits i [] acc = acc"
| "add_entries fits i ((child, k, name) # es) acc =
     (let acc' = acc @ [(child, i + 1, k, name)]
      in if fits acc' then add_entries fits (i + 1) es acc' else acc)"

definition fs_readdir ::
  "((nat \<times> nat \<times> file_type \<times> string) list \<Rightarrow> bool) \<Rightarrow> 'w host_call \<Rightarrow> nat \<Rightarrow> nat \<Rightarrow> nat \<Rightarrow> int \<Rightarrow> solon_fs \<Rightarrow> 'w \<Rightarrow>
     fuse_reply \<times> solon_fs \<times> 'w" where
  "fs_readdir fits call now ino fh offset s w =
     (case (if offset = 0 \<or> dir_handles s fh = None
            then (case fetch_dir call now ino s w of
                    (Inl e, s', w') \<Rightarrow> (Inl e, s', w')
                  | (Inr l, s', w') \<Rightarrow> (Inr (), s'\<lparr>dir_handles := (dir_handles s')(fh \<mapsto> dir_snapshot ino l s')\<rparr>, w'))
            else (Inr (), s, w)) of
        (Inl e, s', w') \<Rightarrow> (FError e, s', w')
      | (Inr _, s', w') \<Rightarrow>
          (case dir_handles s' fh of
             None \<Rightarrow> (FError EBADF, s', w')
           | Some l \<Rightarrow>
               let from = nat (max offset 0)
               in (FDirectory (add_entries fits from (drop from l) []), s', w')))"

definition fs_releasedir :: "nat \<Rightarrow> solon_fs \<Rightarrow> fuse_reply \<times> solon_fs" where
  "fs_releasedir fh s = (FOk, s\<lparr>dir_handles := (dir_handles s)(fh := None)\<rparr>)"

definition fs_do_statfs :: "'w host_call \<Rightarrow> nat \<Rightarrow> solon_fs \<Rightarrow> 'w \<Rightarrow> fuse_reply \<times> solon_fs \<times> 'w" where
  "fs_do_statfs call ino s w =
     (let path = (case rel s ino of Some p \<Rightarrow> p | None \<Rightarrow> (case rel s 1 of Some p \<Rightarrow> p | None \<Rightarrow> []))
      in case call (Statfs path) [] w of
           (Inl e, w') \<Rightarrow> (FError e, s, w')
         | (Inr (RStatfs st, _), w') \<Rightarrow> (FStatfs (total_bytes st div 4096) (free_bytes st div 4096), s, w')
         | (Inr (RError e, _), w') \<Rightarrow> (FError e, s, w')
         | (Inr _, w') \<Rightarrow> (FError EIO, s, w'))"

definition fs_access :: "solon_fs \<Rightarrow> fuse_reply \<times> solon_fs" where
  "fs_access s = (FOk, s)"

section \<open>The tables of inodes\<close>

definition ino_inv :: "solon_fs \<Rightarrow> bool" where
  "ino_inv s \<longleftrightarrow>
     (\<forall>i p. inodes s i = Some p \<longleftrightarrow> by_path s p = Some i)
     \<and> inodes s 1 = Some []
     \<and> (\<forall>i p. inodes s i = Some p \<longrightarrow> i < next_ino s)
     \<and> dom (attrs s) \<subseteq> dom (inodes s)
     \<and> (\<forall>i c. dirs s i = Some c \<longrightarrow> i < next_ino s)"

lemma ino_invD:
  assumes "ino_inv s"
  shows "inodes s i = Some p \<longleftrightarrow> by_path s p = Some i" "inodes s 1 = Some []" "by_path s [] = Some 1"
    "inodes s i = Some p \<Longrightarrow> i < next_ino s" "attrs s i = Some a \<Longrightarrow> \<exists>p. inodes s i = Some p"
    "dirs s i = Some c \<Longrightarrow> i < next_ino s"
  using assms unfolding ino_inv_def by blast+

lemma new_inv: "ino_inv (solon_fs_new d)"
  by (auto simp: ino_inv_def solon_fs_new_def split: if_splits)

lemma ino_for_inv:
  assumes "ino_inv s" "ino_for p s = (i, s')"
  shows "ino_inv s'" "inodes s' i = Some p" "drive s' = drive s" "inodes s \<subseteq>\<^sub>m inodes s'"
proof -
  have fresh: "inodes s (next_ino s) = None" "attrs s (next_ino s) = None" "dirs s (next_ino s) = None"
    using assms(1) ino_invD(4) [OF assms(1), of "next_ino s"] ino_invD(5,6) [OF assms(1), of "next_ino s"]
    by (metis less_irrefl not_None_eq)+
  show "inodes s' i = Some p" "drive s' = drive s"
    using assms ino_invD(1) [OF assms(1)] by (auto simp: ino_for_def Let_def split: option.splits)
  show "inodes s \<subseteq>\<^sub>m inodes s'"
    using assms(2) fresh by (auto simp: ino_for_def Let_def map_le_def split: option.splits)
  show "ino_inv s'"
  proof (cases "by_path s p")
    case (Some j)
    with assms show ?thesis by (simp add: ino_for_def)
  next
    case None
    with assms(2) have s': "s' = s\<lparr>next_ino := next_ino s + 1, inodes := (inodes s)(next_ino s \<mapsto> p),
        by_path := (by_path s)(p \<mapsto> next_ino s)\<rparr>"
      by (auto simp: ino_for_def Let_def)
    have "next_ino s \<noteq> 1" "p \<noteq> []" using ino_invD(2,3) [OF assms(1)] fresh None by auto
    moreover have "\<And>q. by_path s q \<noteq> Some (next_ino s)" using ino_invD(1) [OF assms(1)] fresh by (metis option.distinct(1))
    moreover have "\<And>j. inodes s j \<noteq> Some p" using ino_invD(1) [OF assms(1)] None by auto
    ultimately show ?thesis
      using assms(1) unfolding ino_inv_def s' by (auto simp: less_Suc_eq)
  qed
qed

lemma cache_inv:
  assumes "ino_inv s"
  shows "inodes s i = Some p \<Longrightarrow> ino_inv (remember now i a s)"
    "ino_inv (forget_path i s)" "ino_inv (drop_dir i s)"
    "ino_inv (s\<lparr>dir_handles := H\<rparr>)" "ino_inv (s\<lparr>next_fh := n\<rparr>)"
    "inodes s i = Some p \<Longrightarrow> ino_inv (s\<lparr>dirs := (dirs s)(i \<mapsto> c)\<rparr>)"
  using assms by (auto simp: ino_inv_def remember_def forget_path_def drop_dir_def split: if_splits)

lemma table_frame [simp]:
  "inodes (remember now i a s) = inodes s" "inodes (forget_path i s) = inodes s" "inodes (drop_dir i s) = inodes s"
  "drive (remember now i a s) = drive s" "drive (forget_path i s) = drive s" "drive (drop_dir i s) = drive s"
  by (simp_all add: remember_def forget_path_def drop_dir_def)

lemma move_path_inv:
  assumes inv: "ino_inv s" and f: "inodes s i = Some p" and t: "inodes s j = Some q" and "p \<noteq> []" "q \<noteq> []"
  shows "ino_inv (move_path p q i s)"
proof (cases "p = q")
  case True
  then have "(by_path s)(p := None, q := None, q \<mapsto> i) = by_path s" "(inodes s)(i \<mapsto> q) = inodes s"
    using ino_invD(1) [OF inv, of i p] f by (auto simp: fun_eq_iff)
  with True inv show ?thesis
    by (auto simp: move_path_def Let_def ino_inv_def split: option.splits if_splits)
next
  case False
  have q: "((by_path s)(p := None)) q = Some j" using False t ino_invD(1) [OF inv] by auto
  have ne: "i \<noteq> j" "i \<noteq> 1" "j \<noteq> 1" using False f t assms(4,5) ino_invD(2) [OF inv] by auto
  have uniq: "by_path s p' = Some k \<Longrightarrow> by_path s q' = Some k \<Longrightarrow> p' = q'" for p' q' k
    using ino_invD(1) [OF inv] by (metis option.inject)
  show ?thesis
    using ino_invD [OF inv] ne f t False assms(4,5) uniq
    unfolding ino_inv_def move_path_def Let_def q option.case prod.case
    by (auto split: if_splits)
qed

lemma adopt_entries_inv:
  "ino_inv s \<Longrightarrow> adopt_entries now d es s = (l, s') \<Longrightarrow> ino_inv s' \<and> inodes s \<subseteq>\<^sub>m inodes s'"
proof (induction es arbitrary: s l)
  case (Cons e es)
  obtain child sa where ifr: "ino_for (d @ [entry_name e]) s = (child, sa)" by (cases "ino_for (d @ [entry_name e]) s")
  obtain k where ad: "adopt_entries now d es (remember now child (entry_attr e) sa) = (k, s')"
    using Cons.prems(2) ifr by (auto split: prod.splits)
  note i = ino_for_inv [OF Cons.prems(1) ifr]
  from Cons.IH [OF cache_inv(1) [OF i(1,2)] ad] i(4) show ?case by (auto intro: map_le_trans)
qed simp

lemma fetch_inv:
  assumes "ino_inv s"
  shows "fetch_attr call now i s w = (r, s', w') \<Longrightarrow> ino_inv s'"
    "fetch_dir call now i s w = (r', s', w') \<Longrightarrow> ino_inv s'"
proof -
  assume "fetch_attr call now i s w = (r, s', w')"
  with assms show "ino_inv s'"
    by (auto simp: fetch_attr_def rel_def intro: cache_inv split: option.splits prod.splits sum.splits fs_response.splits)
next
  assume f: "fetch_dir call now i s w = (r', s', w')"
  show "ino_inv s'"
  proof (cases "s' = s")
    case False
    with f obtain d es l t where d: "inodes s i = Some d" "adopt_entries now d es s = (l, t)"
      and s': "s' = t\<lparr>dirs := (dirs t)(i \<mapsto> \<lparr>cvalue = l, cat = now\<rparr>)\<rparr>"
      by (auto simp: fetch_dir_def split: option.splits prod.splits sum.splits fs_response.splits if_splits)
    from adopt_entries_inv [OF assms d(2)] d(1) have "ino_inv t" "inodes t i = Some d"
      by (auto simp: map_le_def dom_def)
    then show ?thesis unfolding s' by (rule cache_inv)
  qed (simp add: assms)
qed

inductive fs_step :: "'w host_call \<Rightarrow> solon_fs \<times> 'w \<Rightarrow> solon_fs \<times> 'w \<Rightarrow> bool" for call where
  lookup: "fs_lookup call now parent name s w = (r, s', w') \<Longrightarrow> fs_step call (s, w) (s', w')"
| getattr: "fs_getattr call now ino s w = (r, s', w') \<Longrightarrow> fs_step call (s, w) (s', w')"
| setattr: "fs_setattr call now now_ns ino sz at mt s w = (r, s', w') \<Longrightarrow> fs_step call (s, w) (s', w')"
| readlink: "fs_readlink call ino s w = (r, s', w') \<Longrightarrow> fs_step call (s, w) (s', w')"
| mkdir: "fs_mkdir call now parent name s w = (r, s', w') \<Longrightarrow> fs_step call (s, w) (s', w')"
| create: "fs_create call now parent name s w = (r, s', w') \<Longrightarrow> fs_step call (s, w) (s', w')"
| unlink: "fs_unlink call parent name s w = (r, s', w') \<Longrightarrow> fs_step call (s, w) (s', w')"
| rmdir: "fs_rmdir call parent name s w = (r, s', w') \<Longrightarrow> fs_step call (s, w) (s', w')"
| rename: "fs_rename call parent name newparent newname s w = (r, s', w') \<Longrightarrow> fs_step call (s, w) (s', w')"
| do_read: "fs_read call ino offset sz s w = (r, s', w') \<Longrightarrow> fs_step call (s, w) (s', w')"
| do_write: "fs_write call ino offset data s w = (r, s', w') \<Longrightarrow> fs_step call (s, w) (s', w')"
| fsync: "fs_fsync call ino s w = (r, s', w') \<Longrightarrow> fs_step call (s, w) (s', w')"
| statfs: "fs_do_statfs call ino s w = (r, s', w') \<Longrightarrow> fs_step call (s, w) (s', w')"
| readdir: "fs_readdir fits call now ino fh offset s w = (r, s', w') \<Longrightarrow> fs_step call (s, w) (s', w')"
| handle: "(r, s') \<in> {fs_open s, fs_flush s, fs_release s, fs_access s, fs_opendir s, fs_releasedir fh s} \<Longrightarrow>
    fs_step call (s, w) (s', w)"

lemma entry_reply_inv:
  "ino_inv s \<Longrightarrow> inodes s i = Some p \<Longrightarrow> upd \<in> {\<lambda>s. s, drop_dir d} \<Longrightarrow>
     entry_reply mk upd now i s x = (r, s', w') \<Longrightarrow> ino_inv s'"
  by (auto simp: entry_reply_def cache_inv split: prod.splits sum.splits fs_response.splits)

lemma lookup_inv:
  assumes inv: "ino_inv s" and st: "fs_lookup call now parent name s w = (r, s', w')"
  shows "ino_inv s'"
proof (cases "name_ok name \<and> child_path parent name s \<noteq> None")
  case True
  then obtain p where p: "child_path parent name s = Some p" by auto
  obtain i t where f: "ino_for p s = (i, t)" by (cases "ino_for p s")
  note t = ino_for_inv [OF inv f]
  from st True p f t show ?thesis
    by (auto simp: fs_lookup_def split: option.splits if_splits intro: entry_reply_inv [OF t(1,2)])
qed (use assms in \<open>auto simp: fs_lookup_def split: option.splits if_splits\<close>)

lemma make_entry_inv:
  assumes inv: "ino_inv s" and st: "make_entry mk req call now parent name s w = (r, s', w')"
  shows "ino_inv s'"
proof (cases "name_ok name \<and> child_path parent name s \<noteq> None")
  case True
  then obtain p where p: "child_path parent name s = Some p" by auto
  obtain i t where f: "ino_for p s = (i, t)" by (cases "ino_for p s")
  note t = ino_for_inv [OF inv f]
  from st True p f t show ?thesis
    by (auto simp: make_entry_def split: option.splits if_splits intro: entry_reply_inv [OF t(1,2), of "drop_dir parent" parent])
qed (use assms in \<open>auto simp: make_entry_def split: option.splits if_splits\<close>)

lemma remove_entry_inv:
  assumes inv: "ino_inv s" and st: "remove_entry req call parent name s w = (r, s', w')"
  shows "ino_inv s'"
proof (cases "child_path parent name s")
  case (Some p)
  obtain i t where f: "ino_for p s = (i, t)" by (cases "ino_for p s")
  note t = ino_for_inv [OF inv f]
  from st Some f t show ?thesis
    by (auto simp: remove_entry_def cache_inv split: option.splits prod.splits sum.splits)
qed (use assms in \<open>auto simp: remove_entry_def\<close>)

lemma rename_inv:
  assumes inv: "ino_inv s" and st: "fs_rename call parent name newparent newname s w = (r, s', w')"
  shows "ino_inv s'"
proof (cases "name_ok name \<and> name_ok newname \<and> child_path parent name s \<noteq> None \<and> child_path newparent newname s \<noteq> None")
  case True
  then obtain p q where p: "child_path parent name s = Some p" "child_path newparent newname s = Some q" by auto
  then have ne: "p \<noteq> []" "q \<noteq> []" by (auto simp: child_path_def)
  obtain i t where f: "ino_for p s = (i, t)" by (cases "ino_for p s")
  note t = ino_for_inv [OF inv f]
  obtain j u where g: "ino_for q t = (j, u)" by (cases "ino_for q t")
  note u = ino_for_inv [OF t(1) g]
  have "inodes u i = Some p" using t(2) u(4) by (auto simp: map_le_def dom_def)
  then have "ino_inv (move_path p q i u)" using u(1,2) ne by (intro move_path_inv)
  with st True p f g u(1) show ?thesis
    by (auto simp: fs_rename_def cache_inv split: option.splits prod.splits sum.splits)
qed (use assms in \<open>auto simp: fs_rename_def split: option.splits if_splits\<close>)

lemma readdir_inv:
  assumes inv: "ino_inv s" and st: "fs_readdir fits call now ino fh offset s w = (r, s', w')"
  shows "ino_inv s'"
proof -
  obtain y t v where f: "fetch_dir call now ino s w = (y, t, v)" by (metis prod.exhaust)
  have "ino_inv t" using fetch_inv(2) [OF inv f] .
  with st f inv show ?thesis
    by (auto simp: fs_readdir_def Let_def cache_inv split: option.splits sum.splits if_splits)
qed

lemma setattr_inv:
  assumes inv: "ino_inv s" and st: "fs_setattr call now now_ns ino sz at mt s w = (r, s', w')"
  shows "ino_inv s'"
proof (cases "s' = s")
  case False
  with st obtain v where "attr_reply ino (fetch_attr call now ino (forget_path ino s) v) = (r, s', w')"
    by (auto simp: fs_setattr_def split: option.splits prod.splits sum.splits if_splits)
  then show ?thesis
    using fetch_inv(1) [OF cache_inv(2) [OF inv]] by (fastforce simp: attr_reply_def split: prod.splits sum.splits)
qed (simp add: inv)

lemma fs_step_keeps: "fs_step call x y \<Longrightarrow> ino_inv (fst x) \<Longrightarrow> ino_inv (fst y)"
proof (induction rule: fs_step.induct)
  case (getattr now ino s w r s' w')
  then show ?case
    by (auto simp: fs_getattr_def attr_reply_def split: prod.splits sum.splits dest!: fetch_inv(1) [rotated])
next
  case (readlink ino s w r s' w')
  then show ?case by (auto simp: fs_readlink_def split: option.splits prod.splits sum.splits fs_response.splits)
next
  case (do_read ino offset sz s w r s' w')
  then show ?case by (auto simp: fs_read_def split: option.splits prod.splits sum.splits fs_response.splits)
next
  case (do_write ino offset data s w r s' w')
  then show ?case by (auto simp: fs_write_def cache_inv split: option.splits prod.splits sum.splits)
next
  case (fsync ino s w r s' w')
  then show ?case by (auto simp: fs_fsync_def split: option.splits prod.splits sum.splits)
next
  case (statfs ino s w r s' w')
  then show ?case by (auto simp: fs_do_statfs_def Let_def split: prod.splits sum.splits fs_response.splits)
next
  case (handle r s' s fh w)
  then show ?case
    by (auto simp: fs_open_def fs_flush_def fs_release_def fs_access_def fs_opendir_def fs_releasedir_def cache_inv)
qed (auto simp: fs_mkdir_def fs_create_def fs_unlink_def fs_rmdir_def
      dest: lookup_inv make_entry_inv remove_entry_inv rename_inv readdir_inv setattr_inv)

interpretation solonfs: machine "fs_step call" "\<lambda>x. ino_inv (fst x)"
  by unfold_locales (rule fs_step_keeps)

section \<open>Properties\<close>

text \<open>
  C14. Whatever the kernel asks and whatever the host answers, the two tables of a mounted drive stay
  inverse to each other: an inode names one path and a path one inode, the root keeps number 1, and a
  number not yet given out has neither path nor cached attributes nor cached listing, so a new file
  never inherits what was cached for another one.
\<close>

theorem inode_tables_consistent:
  assumes "(fs_step call)\<^sup>*\<^sup>* (solon_fs_new d, w) (s, w')"
  shows "(inodes s i = Some p \<longleftrightarrow> by_path s p = Some i) \<and> by_path s [] = Some 1
     \<and> (next_ino s \<le> i \<longrightarrow> inodes s i = None \<and> attrs s i = None \<and> dirs s i = None)"
proof -
  have inv: "ino_inv s" using solonfs.run_keeps [OF assms] by (simp add: new_inv)
  have "inodes s i = None \<and> attrs s i = None \<and> dirs s i = None" if "next_ino s \<le> i"
    using that ino_invD(4-6) [OF inv, of i] by (metis leD not_None_eq)
  with ino_invD(1,3) [OF inv] show ?thesis by blast
qed

theorem inode_tables_consistent_witness:
  "by_path (solon_fs_new ''c'') [] = Some 1
     \<and> inodes (solon_fs_new ''c'') 2 = None \<and> attrs (solon_fs_new ''c'') 2 = None \<and> dirs (solon_fs_new ''c'') 2 = None"
proof -
  have "next_ino (solon_fs_new ''c'') \<le> 2" by (simp add: solon_fs_new_def)
  then show ?thesis
    using inode_tables_consistent [of "\<lambda>_ _ w. (Inl 5, w)" "''c''" "()" "solon_fs_new ''c''" "()" 2] by simp
qed

section \<open>The service behind the exchange\<close>

text \<open>
  The exchange when nothing is lost: the request is answered by the file server of the service.
\<close>

definition host_link :: "'h host_fs \<Rightarrow> string list \<Rightarrow> 'h host_call" where
  "host_link fs shared req data h = (case handle_fs fs shared req data h of (r, h') \<Rightarrow> (Inr r, h'))"

text \<open>An exchange that counts the requests it carries.\<close>

definition counted :: "'w host_call \<Rightarrow> ('w \<times> nat) host_call" where
  "counted call req data x = (case call req data (fst x) of (r, w') \<Rightarrow> (r, w', snd x + 1))"

lemma write_loop_count:
  "write_loop (counted call) path off data pos (w, n) = (r, w', n') \<Longrightarrow> n' \<le> n + (length data - pos)"
proof (induction "length data - pos" arbitrary: pos w n rule: less_induct)
  case less
  show ?case
  proof (cases "pos < length data")
    case True
    let ?c = "call (Write path (off + pos)) (take (min (pos + FS_MAX_IO) (length data) - pos) (drop pos data)) w"
    obtain x v where c: "?c = (x, v)" by (cases ?c)
    show ?thesis
    proof (cases "\<exists>k d. x = Inr (RWritten k, d) \<and> k \<noteq> 0")
      case False
      then have "n' = n + 1"
        using less.prems True c
        by (auto simp: write_loop.simps [of _ _ _ _ pos] counted_def split: sum.splits prod.splits fs_response.splits if_splits)
      with True show ?thesis by simp
    next
      case k: True
      then obtain k d where k: "x = Inr (RWritten k, d)" "k \<noteq> 0" by blast
      have "write_loop (counted call) path off data (pos + k) (v, n + 1) = (r, w', n')"
        using less.prems True c k by (simp add: write_loop.simps [of _ _ _ _ pos] counted_def)
      from less.hyps [OF _ this] True k(2) have "n' \<le> n + 1 + (length data - (pos + k))" by linarith
      then show ?thesis using True k(2) by linarith
    qed
  qed (use less.prems in \<open>simp add: write_loop.simps\<close>)
qed

lemma link_write:
  assumes "lawful fs content" "content p h = Some c" "host_path shared path = Inr p" "length d < 2 ^ 32"
  shows "\<exists>h'. host_link fs shared (Write path off) d h = (Inr (RWritten (length d), []), h')
    \<and> content p h' = Some (overlay c off d)"
  using lawful_write [OF assms(1,2), of off d] assms(3,4)
  by (auto simp: host_link_def handle_fs_def with_path_def write_at_def)

lemma link_read:
  assumes "lawful fs content" "content p h = Some c" "host_path shared path = Inr p"
  shows "host_link fs shared (Read path off n) [] h = (Inr (RData, take (min n FS_MAX_IO) (drop off c)), h)"
  using read_at_lawful [OF assms(1,2)] assms(3) by (simp add: host_link_def handle_fs_def with_path_def)

lemma write_loop_link:
  assumes law: "lawful fs content" and hp: "host_path shared path = Inr p"
  shows "pos \<le> length data \<Longrightarrow> content p h = Some c' \<Longrightarrow> overlay c' (off + pos) (drop pos data) = overlay c off data \<Longrightarrow>
    (pos = length data \<Longrightarrow> c' = overlay c off data) \<Longrightarrow>
    \<exists>h'. write_loop (host_link fs shared) path off data pos h = (Inr (length data), h')
       \<and> content p h' = Some (overlay c off data)"
proof (induction "length data - pos" arbitrary: pos h c' rule: less_induct)
  case less
  show ?case
  proof (cases "pos < length data")
    case False
    with less.prems show ?thesis by (simp add: write_loop.simps)
  next
    case True
    let ?d = "take (min (pos + FS_MAX_IO) (length data) - pos) (drop pos data)"
    have len: "0 < length ?d" "length ?d \<le> length data - pos" "length ?d < 2 ^ 32"
      using True by (auto simp: FS_MAX_IO_def)
    obtain h1 where h1: "host_link fs shared (Write path (off + pos)) ?d h = (Inr (RWritten (length ?d), []), h1)"
      "content p h1 = Some (overlay c' (off + pos) ?d)"
      using link_write [OF law less.prems(2) hp len(3)] by blast
    let ?e = "drop (pos + length ?d) data"
    have "?d @ ?e = drop pos data"
      using append_take_drop_id [of "length ?d" "drop pos data"] len(2) by (simp add: add.commute)
    with overlay_overlay [of c' "off + pos" ?d ?e] less.prems(3)
    have eq: "overlay (overlay c' (off + pos) ?d) (off + (pos + length ?d)) ?e = overlay c off data"
      by (simp add: add.assoc)
    have full: "overlay c' (off + pos) ?d = overlay c off data" if "pos + length ?d = length data"
      using that less.prems(3) \<open>?d @ ?e = drop pos data\<close> by simp
    have "\<exists>h'. write_loop (host_link fs shared) path off data (pos + length ?d) h1 = (Inr (length data), h')
       \<and> content p h' = Some (overlay c off data)"
      using True len by (intro less.hyps [OF _ _ h1(2) eq full]) auto
    with True h1 len show ?thesis by (simp add: write_loop.simps [of _ _ _ _ pos])
  qed
qed

text \<open>
  C15. A write of the machine followed by a read: on a host whose files behave, whatever was cached,
  writing non-empty data through an inode answers with its length and puts the whole data at the
  offset of the Windows file, and a read afterwards returns the bytes of the new content, up to the
  size of one exchange.
\<close>

theorem guest_write_read:
  assumes "lawful fs content" "rel s ino = Some path" "host_path shared path = Inr p" "content p h = Some c"
    and "0 < length data" "length data < 2 ^ 32"
    and "fs_write (host_link fs shared) ino (int off) data s h = (r, s', h')"
  shows "r = FWritten (length data) \<and> content p h' = Some (overlay c off data)
     \<and> fs_read (host_link fs shared) ino (int at) n s' h'
         = (FData (take (min n FS_MAX_IO) (drop at (overlay c off data))), s', h')"
proof -
  obtain h1 where w: "write_loop (host_link fs shared) path off data 0 h = (Inr (length data), h1)"
    "content p h1 = Some (overlay c off data)"
    using write_loop_link [OF assms(1,3), of 0 data h c off c] assms(4,5) by auto
  then have "fs_write (host_link fs shared) ino (int off) data s h = (FWritten (length data), forget_path ino s, h1)"
    using assms(2,6) by (simp add: fs_write_def)
  with assms(7) have st: "r = FWritten (length data)" "s' = forget_path ino s" "h' = h1" by simp_all
  then have rel: "rel s' ino = Some path" using assms(2) by (simp add: rel_def)
  let ?len = "min (max n READAHEAD) FS_MAX_IO" and ?c = "overlay c off data"
  have "host_link fs shared (Read path at ?len) [] h1 = (Inr (RData, take ?len (drop at ?c)), h1)"
    using link_read [OF assms(1) w(2) assms(3), of at ?len] by simp
  then have "fs_read (host_link fs shared) ino (int at) n s' h1
      = (FData (take (min n (length (take ?len (drop at ?c)))) (take ?len (drop at ?c))), s', h1)"
    using rel by (simp add: fs_read_def)
  moreover have "take (min n (length (take ?len (drop at ?c)))) (take ?len (drop at ?c)) = take (min n FS_MAX_IO) (drop at ?c)"
  proof -
    have "take (min n (length x)) x = take n x" for x :: bytes by (cases "n \<le> length x") simp_all
    moreover have "min n ?len = min n FS_MAX_IO" by linarith
    ultimately show ?thesis by (metis take_take)
  qed
  ultimately show ?thesis using st w(2) by simp
qed

definition one_file_fs :: solon_fs where
  "one_file_fs = snd (ino_for [''f''] (solon_fs_new ''c''))"

theorem guest_write_read_witness:
  "\<exists>r s' h'. fs_write (host_link plain_host [''c'']) 2 (int 1) ''ew'' one_file_fs [''C:'' @ [CHR 0x5C] @ ''f'' \<mapsto> ''now''] = (r, s', h')
     \<and> r = FWritten (length ''ew'') \<and> h' (''C:'' @ [CHR 0x5C] @ ''f'') = Some (overlay ''now'' 1 ''ew'')
     \<and> fs_read (host_link plain_host [''c'']) 2 (int 0) 3 s' h'
         = (FData (take (min 3 FS_MAX_IO) (drop 0 (overlay ''now'' 1 ''ew''))), s', h')"
proof -
  let ?p = "''C:'' @ [CHR 0x5C] @ ''f''"
  obtain r s' h' where st: "fs_write (host_link plain_host [''c'']) 2 (int 1) ''ew'' one_file_fs [?p \<mapsto> ''now''] = (r, s', h')"
    by (metis prod.exhaust)
  have "rel one_file_fs 2 = Some ''c/f''" by code_simp
  moreover have "host_path [''c''] ''c/f'' = Inr ?p" by code_simp
  moreover have "[?p \<mapsto> ''now''] ?p = Some ''now''" "0 < length ''ew''" "length ''ew'' < 2 ^ 32" by simp_all
  ultimately show ?thesis using guest_write_read [OF plain_host_lawful _ _ _ _ _ st, of "''c/f''" ?p "''now''" 0 3] st
    by blast
qed

text \<open>
  C16. The write loop ends whatever the host answers, and it asks at most once per byte: a host that
  takes nothing is not asked again.
\<close>

theorem write_calls_bounded:
  assumes "fs_write (counted call) ino offset data s (w, 0) = (r, s', w', n)"
  shows "n \<le> length data"
  using assms write_loop_count [of call _ "nat (max offset 0)" data 0 w 0]
  by (auto simp: fs_write_def split: option.splits prod.splits sum.splits)

theorem write_calls_bounded_witness:
  "\<exists>r s' w' n. fs_write (counted (\<lambda>_ _ w. (Inr (RWritten 1, []), w))) 2 0 ''abc'' one_file_fs ((), 0) = (r, s', w', n) \<and> n \<le> 3"
proof -
  obtain r s' w' n where
    "fs_write (counted (\<lambda>_ _ w. (Inr (RWritten 1, []), w))) 2 0 ''abc'' one_file_fs ((), 0) = (r, s', w', n)"
    by (metis prod.exhaust)
  with write_calls_bounded [OF this] show ?thesis by auto
qed

text \<open>
  Renaming a directory leaves the inodes below it behind: when the host has renamed
  \<open>from_p\<close>, an inode of a file under it still stands for the old path, so that a file held open
  across the rename is asked for where it no longer is.
\<close>

theorem rename_leaves_children_behind:
  assumes "fs_rename call parent name newparent newname s w = (FOk, s', w')"
    and "inodes s parent = Some d" "inodes s newparent = Some e" "d @ [name] \<noteq> e @ [newname]"
    and "ino_inv s" "inodes s k = Some (d @ name # c # cs)" "e @ [newname] \<noteq> d @ name # c # cs"
  shows "rel s' k = Some (fold (\<lambda>c acc. acc @ ''/'' @ c) (d @ name # c # cs) (drive s))"
proof -
  let ?p = "d @ [name]" and ?q = "e @ [newname]"
  obtain i t where f: "ino_for ?p s = (i, t)" by (cases "ino_for ?p s")
  note t = ino_for_inv [OF assms(5) f]
  obtain j u where g: "ino_for ?q t = (j, u)" by (cases "ino_for ?q t")
  note u = ino_for_inv [OF t(1) g]
  have s': "s' = drop_dir newparent (drop_dir parent (move_path ?p ?q i u))"
    using assms(1-3) f g by (auto simp: fs_rename_def child_path_def split: if_splits option.splits prod.splits sum.splits)
  have ui: "inodes u i = Some ?p" and uk: "inodes u k = Some (d @ name # c # cs)"
    using t(2,4) u(4) assms(6) by (auto simp: map_le_def dom_def)
  then have "k \<noteq> i" "k \<noteq> j" using u(2) assms(7) by auto
  moreover have "((by_path u)(?p := None)) ?q = Some j" using u(2) ino_invD(1) [OF u(1)] assms(4) by auto
  ultimately show ?thesis using uk t(3) u(3) by (simp add: rel_def s' move_path_def Let_def)
qed

definition nested_fs :: solon_fs where
  "nested_fs = snd (ino_for [''d'', ''f''] (snd (ino_for [''d''] (solon_fs_new ''c''))))"

theorem rename_leaves_children_behind_witness:
  "\<exists>s'. fs_rename (\<lambda>_ _ w. (Inr (ROk, []), w)) 1 ''d'' 1 ''e'' nested_fs () = (FOk, s', ()) \<and> rel s' 3 = Some ''c/d/f''"
proof -
  obtain r s' w' where st: "fs_rename (\<lambda>_ _ w. (Inr (ROk, []), w)) 1 ''d'' 1 ''e'' nested_fs () = (r, s', w')"
    by (metis prod.exhaust)
  have "fst (fs_rename (\<lambda>_ _ w. (Inr (ROk, []), w)) 1 ''d'' 1 ''e'' nested_fs ()) = FOk" by code_simp
  then have r: "r = FOk" using st by simp
  have inv: "ino_inv nested_fs"
    unfolding nested_fs_def by (intro ino_for_inv(1) [OF _ surjective_pairing] new_inv)
  have k: "inodes nested_fs 1 = Some []" "inodes nested_fs 3 = Some ([] @ ''d'' # ''f'' # [])" by code_simp+
  have "drive nested_fs = ''c''" by code_simp
  with rename_leaves_children_behind [OF st [unfolded r] k(1) k(1) _ inv k(2)] st r show ?thesis by simp
qed

end
