(* ===== verification/Fs_Exchange.thy ===== *)
theory Fs_Exchange
  imports Solon_Fs
begin

text \<open>
  The exchange of a request and its answer between the machine and the service (\<open>Pool\<close> and
  \<open>call\<close> of \<open>crates/solon-agent/src/solonfs.rs\<close>) over the connections the host opened, and its
  composition with the file server.  JSON texts are produced and read by \<open>serde_json\<close>, parameters
  of the model on both sides.
\<close>

record fs_conn =
  cn_in :: reader
  cn_out :: writer

text \<open>
  \<open>Pool::take\<close>: \<open>waits\<close> lists the connections given during each wait that ends before the deadline.
\<close>

fun pool_take :: "fs_conn list \<Rightarrow> fs_conn list list \<Rightarrow> fs_conn option \<times> fs_conn list" where
  "pool_take free waits =
     (if free \<noteq> [] then (Some (last free), butlast free)
      else (case waits of [] \<Rightarrow> (None, free) | given # waits' \<Rightarrow> pool_take (free @ given) waits'))"

declare pool_take.simps [simp del]

definition pool_give :: "fs_conn \<Rightarrow> fs_conn list \<Rightarrow> fs_conn list" where
  "pool_give f free = free @ [f]"

record guest_codec =
  json_of_req :: "fs_request \<Rightarrow> bytes option"
  resp_of_json :: "bytes \<Rightarrow> fs_response option"

definition guest_exchange ::
  "guest_codec \<Rightarrow> fs_request \<Rightarrow> bytes \<Rightarrow> fs_conn \<Rightarrow> (io_error + fs_response \<times> bytes) \<times> fs_conn" where
  "guest_exchange g req data cn =
     (case write_all (encode_frame (json_of_req g) req data) (cn_out cn) of
        (Inl e, out) \<Rightarrow> (Inl e, cn\<lparr>cn_out := out\<rparr>)
      | (Inr _, out) \<Rightarrow>
          (case read_frame (16 * 1024 * 1024) FS_MAX_IO (cn_in cn) of
             (Inl e, r) \<Rightarrow> (Inl e, \<lparr>cn_in = r, cn_out = out\<rparr>)
           | (Inr (json, payload), r) \<Rightarrow>
               (case resp_of_json g json of
                  None \<Rightarrow> (Inl InvalidData, \<lparr>cn_in = r, cn_out = out\<rparr>)
                | Some resp \<Rightarrow> (Inr (resp, payload), \<lparr>cn_in = r, cn_out = out\<rparr>))))"

definition guest_call ::
  "guest_codec \<Rightarrow> fs_conn list list \<Rightarrow> fs_request \<Rightarrow> bytes \<Rightarrow> fs_conn list \<Rightarrow> (int + fs_response \<times> bytes) \<times> fs_conn list" where
  "guest_call g waits req data pool =
     (case pool_take pool waits of
        (None, pool') \<Rightarrow> (Inl 5, pool')
      | (Some cn, pool') \<Rightarrow>
          (case guest_exchange g req data cn of
             (Inr v, cn') \<Rightarrow> (Inr v, pool_give cn' pool')
           | (Inl e, _) \<Rightarrow> (Inl 5, pool')))"

section \<open>Lemmas\<close>

lemma read_loop_length:
  "length got \<le> want \<Longrightarrow> read_loop fs p off want got h = Inr b \<Longrightarrow> length b \<le> want"
proof (induction fs p off want got h rule: read_loop.induct)
  case (1 fs p off want got h)
  show ?case
  proof (cases "length got < want")
    case True
    with "1.prems"(2) obtain c where c: "h_pread fs p (off + length got) (want - length got) h = Inr c"
      by (auto simp: read_loop.simps [of fs p off want got] split: sum.splits)
    show ?thesis
    proof (cases "c = []")
      case True
      with c "1.prems" show ?thesis by (auto simp: read_loop.simps [of fs p off want got] split: if_splits)
    next
      case False
      with c "1.prems" True "1.IH" [OF True c False] show ?thesis
        by (simp add: read_loop.simps [of fs p off want got])
    qed
  qed (use "1.prems" in \<open>simp add: read_loop.simps\<close>)
qed

lemma read_at_length: "read_at fs p off n h = Inr b \<Longrightarrow> length b \<le> n"
  using read_loop_length [of "[]"] by (fastforce simp: read_at_def split: sum.splits if_splits)

lemma handle_payload_length:
  "length (snd (fst (handle_fs fs shared req data h))) \<le> FS_MAX_IO"
proof (cases req)
  case (Read path off n)
  show ?thesis
    using read_at_length [of fs _ off "min n FS_MAX_IO" h]
    by (fastforce simp: Read handle_fs_def with_path_def split: sum.splits)
qed (auto simp: handle_fs_def with_path_def created_reply_def unit_reply_def split: sum.splits prod.splits option.splits)

section \<open>Properties\<close>

text \<open>
  The raw bytes of an answer never exceed the size of one exchange, whatever length was asked:
  the machine, which refuses a longer frame, accepts every answer of the file server.
\<close>

theorem answers_within_limit:
  "length (snd (fst (handle_fs fs shared req data h))) \<le> FS_MAX_IO"
  by (rule handle_payload_length)

text \<open>
  C17. One exchange end to end: the request of the machine arrives at the service whole, however the
  channel cuts it, the service computes its answer, and the machine reads back exactly the response
  and the bytes of that answer and puts the connection back in the pool.
\<close>

theorem exchange_carries_answer:
  assumes "json_of_req g req = Some json" "req_of_json js json = Some req" "length json \<le> 2 ^ 20"
    and "length data \<le> FS_MAX_IO"
    and "handle_fs fs shared req data h = ((resp, payload), h')"
    and "json_of_resp js resp = Some answer" "resp_of_json g answer = Some resp" "length answer \<le> 16 * 1024 * 1024"
    and "no_read_errors hr" "pending hr = encode_frame (json_of_req g) req data @ later"
    and "no_read_errors gr" "pending gr = fst (answer_frame js fs shared json data h)" "open_writer out"
  shows "\<exists>hr' gr'. read_frame (2 ^ 20) (FS_MAX_IO + 16) hr = (Inr (json, data), hr') \<and> pending hr' = later
     \<and> snd (answer_frame js fs shared json data h) = h'
     \<and> guest_call g waits req data (pool @ [\<lparr>cn_in = gr, cn_out = out\<rparr>])
         = (Inr (resp, payload), pool @ [\<lparr>cn_in = gr', cn_out = out\<lparr>sent := sent out @ encode_frame (json_of_req g) req data\<rparr>\<rparr>])
     \<and> pending gr' = []"
proof -
  have "\<exists>hr'. read_frame (2 ^ 20) (FS_MAX_IO + 16) hr = (Inr (json, data), hr') \<and> no_read_errors hr' \<and> pending hr' = later"
    using assms(1,3,4,9,10) by (intro read_frame_encode) (auto simp: FS_MAX_IO_def)
  moreover have ans: "answer_frame js fs shared json data h = (encode_frame (json_of_resp js) resp payload, h')"
    using assms(2,5) by (simp add: answer_frame_def)
  moreover have "length payload \<le> FS_MAX_IO" using handle_payload_length [of fs shared req data h] assms(5) by simp
  then have "\<exists>gr'. read_frame (16 * 1024 * 1024) FS_MAX_IO gr = (Inr (answer, payload), gr') \<and> no_read_errors gr' \<and> pending gr' = []"
    using assms(6,8,11,12) ans by (intro read_frame_encode [where rest = "[]"]) (auto simp: FS_MAX_IO_def)
  ultimately show ?thesis
    using assms(7,13) by (auto simp: guest_call_def guest_exchange_def pool_take.simps pool_give_def)
qed

definition toy_guest :: guest_codec where
  "toy_guest = \<lparr>json_of_req = (\<lambda>_. Some ''q''), resp_of_json = (\<lambda>_. Some ROk)\<rparr>"

definition toy_service :: fs_codec where
  "toy_service = \<lparr>req_of_json = (\<lambda>_. Some (Fsync ''c'')), json_of_resp = (\<lambda>_. Some ''r'')\<rparr>"

theorem exchange_carries_answer_witness:
  "\<exists>hr' gr'. read_frame (2 ^ 20) (FS_MAX_IO + 16) [Chunk (encode_frame (json_of_req toy_guest) (Fsync ''c'') [])] = (Inr (''q'', []), hr')
     \<and> pending hr' = [] \<and> snd (answer_frame toy_service plain_host [''c''] ''q'' [] Map.empty) = Map.empty
     \<and> guest_call toy_guest [] (Fsync ''c'') [] ([] @ [\<lparr>cn_in = [Chunk (fst (answer_frame toy_service plain_host [''c''] ''q'' [] Map.empty))],
             cn_out = \<lparr>sent = [], accepts = None\<rparr>\<rparr>])
         = (Inr (ROk, []), [] @ [\<lparr>cn_in = gr', cn_out = \<lparr>sent = [], accepts = None\<rparr>\<lparr>sent := sent \<lparr>sent = [], accepts = None\<rparr>
              @ encode_frame (json_of_req toy_guest) (Fsync ''c'') []\<rparr>\<rparr>])
     \<and> pending gr' = []"
proof (rule exchange_carries_answer [where answer = "''r''"])
  have "host_path [''c''] ''c'' = Inr (''C:'' @ [CHR 0x5C])" by code_simp
  then show "handle_fs plain_host [''c''] (Fsync ''c'') [] Map.empty = ((ROk, []), Map.empty)"
    by (simp add: handle_fs_def with_path_def)
qed (simp_all add: toy_guest_def toy_service_def open_writer_def)

end
