(* ===== verification/Local_Domains.thy ===== *)
theory Local_Domains
  imports Protocol Fs_Protocol
begin

text \<open>
  The local domains of the service (\<open>crates/solon-service/src/domains.rs\<close>): the table of names, the
  page of an unknown name, and the block kept in the \<open>hosts\<close> file of Windows.  Texts are UTF-8
  bytes; a \<open>BTreeMap\<close> is the list of its entries in the order of the keys.
\<close>

definition SUFFIX :: string where "SUFFIX = ''solon.local''"
definition CONTAINER_NET :: string where "CONTAINER_NET = ''10.90.0.0''"
definition CONTAINER_MASK :: string where "CONTAINER_MASK = ''255.255.0.0''"

definition managed_by :: "string \<Rightarrow> bytes" where
  "managed_by who = ''(g'' @ [CHR 0xC3, CHR 0xA9] @ ''r'' @ [CHR 0xC3, CHR 0xA9] @ '' par '' @ who @ '', ne pas modifier)''"

definition HOSTS_BEGIN :: bytes where "HOSTS_BEGIN = ''# solon-begin '' @ managed_by ''Solon''"
definition HOSTS_END :: bytes where "HOSTS_END = ''# solon-end''"
definition LEGACY_HOSTS_BEGIN :: bytes where "LEGACY_HOSTS_BEGIN = ''# monodon-begin '' @ managed_by ''Monodon''"
definition LEGACY_HOSTS_END :: bytes where "LEGACY_HOSTS_END = ''# monodon-end''"

definition PREFERRED_PORTS :: "nat list" where
  "PREFERRED_PORTS = [80, 8080, 3000, 8000, 8069, 5000, 4200, 5173, 8888, 9000, 443]"

text \<open>\<open>Ipv4Addr\<close>: four numbers; its text has no leading zeros, in either direction.\<close>

type_synonym ipv4 = "nat list"

definition parse_octet :: "string \<Rightarrow> nat option" where
  "parse_octet s =
     (if s = [] \<or> 3 < length s \<or> \<not> list_all is_ascii_digit s \<or> (1 < length s \<and> hd s = CHR ''0'') then None
      else parse_uint 10 256 s)"

definition parse_ipv4 :: "string \<Rightarrow> ipv4 option" where
  "parse_ipv4 s =
     (let ps = split_on (CHR ''.'') s
      in if length ps = 4 \<and> list_all (\<lambda>p. parse_octet p \<noteq> None) ps
         then Some (map (\<lambda>p. the (parse_octet p)) ps) else None)"

definition show_ipv4 :: "ipv4 \<Rightarrow> string" where
  "show_ipv4 a = join_with ''.'' (map dec_of_nat a)"

record target =
  t_ip :: ipv4
  t_port :: nat
  t_peer :: trace_peer

type_synonym domain_map = "target btree_map"

text \<open>\<open>entry(k).or_insert_with\<close>: the entries stay sorted, an entry that is there stays.\<close>

fun or_insert :: "string \<Rightarrow> 'a \<Rightarrow> 'a btree_map \<Rightarrow> 'a btree_map" where
  "or_insert k v [] = [(k, v)]"
| "or_insert k v ((k', v') # m) =
     (if k = k' then (k', v') # m
      else if k < k' then (k, v) # (k', v') # m
      else (k', v') # or_insert k v m)"

section \<open>Names and targets\<close>

definition sanitize_byte :: "char \<Rightarrow> string" where
  "sanitize_byte c =
     (let c = ascii_lower c
      in if is_ascii_alphanumeric c then [c]
         else if c = CHR ''_'' \<or> c = CHR ''-'' \<or> c = CHR ''.'' then ''-'' else [])"

definition sanitize :: "string \<Rightarrow> string" where
  "sanitize lbl = trim_matches (CHR ''-'') (concat (map sanitize_byte (trim_start_matches (CHR ''/'') lbl)))"

definition pick_port :: "container_endpoint \<Rightarrow> nat" where
  "pick_port e =
     (case find (\<lambda>p. p \<in> set (exposed_tcp e)) PREFERRED_PORTS of
        Some p \<Rightarrow> p
      | None \<Rightarrow>
          (case exposed_tcp e of
             p # _ \<Rightarrow> p
           | [] \<Rightarrow> (case published_tcp e of p # _ \<Rightarrow> p | [] \<Rightarrow> 80)))"

definition target_of :: "container_endpoint \<Rightarrow> ipv4 \<Rightarrow> target" where
  "target_of e ip =
     \<lparr>t_ip = ip, t_port = pick_port e,
      t_peer = \<lparr>tp_ip = ep_ip e, tp_container_id = Some (take 12 (ep_id e)), tp_name = Some (ep_name e),
                tp_project = ep_compose_project e, tp_service = ep_compose_service e\<rparr>\<rparr>"

definition add_endpoint :: "container_endpoint \<Rightarrow> domain_map \<Rightarrow> domain_map" where
  "add_endpoint e m =
     (case parse_ipv4 (ep_ip e) of
        None \<Rightarrow> m
      | Some ip \<Rightarrow>
          let t = target_of e ip;
              name = sanitize (ep_name e);
              m1 = (if name \<noteq> [] then or_insert (name @ ''.'' @ SUFFIX) t m else m)
          in case (ep_compose_project e, ep_compose_service e) of
               (Some proj, Some svc) \<Rightarrow>
                 let p = sanitize proj; s = sanitize svc
                 in if p \<noteq> [] \<and> s \<noteq> [] then or_insert (s @ ''.'' @ p @ ''.'' @ SUFFIX) t m1 else m1
             | _ \<Rightarrow> m1)"

definition domains_for :: "container_endpoint list \<Rightarrow> domain_map" where
  "domains_for endpoints = fold add_endpoint endpoints []"

section \<open>The page of an unknown name\<close>

definition escape_byte :: "char \<Rightarrow> string" where
  "escape_byte c =
     (if c = CHR ''<'' then ''&lt;'' else if c = CHR ''>'' then ''&gt;''
      else if c = CHR ''&'' then ''&amp;'' else if c = CHR 0x22 then ''&quot;'' else [c])"

definition html_escape :: "string \<Rightarrow> string" where
  "html_escape s = concat (map escape_byte s)"

definition quoted :: "string \<Rightarrow> string" where "quoted s = CHR 0x22 # s @ [CHR 0x22]"

definition domain_item :: "string \<times> target \<Rightarrow> string" where
  "domain_item nt =
     (case nt of (name, t) \<Rightarrow>
        ''<li><a href='' @ quoted (''http://'' @ name @ ''/'') @ ''>'' @ name @ ''</a> <small>'' @ [CHR 0xE2, CHR 0x86, CHR 0x92]
        @ '' '' @ show_ipv4 (t_ip t) @ '':'' @ dec_of_nat (t_port t) @ ''</small></li>'')"

definition not_found_page :: "string \<Rightarrow> domain_map \<Rightarrow> string" where
  "not_found_page hst domains =
     (let h = html_escape hst;
          items = concat (map domain_item domains);
          items = (if items = [] then ''<li><em>no running container yet</em></li>'' else items)
      in ''<!doctype html><html lang='' @ quoted ''en'' @ ''><meta charset='' @ quoted ''utf-8'' @ ''><title>Solon</title>''
         @ ''<body style='' @ quoted ''font-family:Segoe UI,sans-serif;max-width:40em;margin:4em auto;color:#222'' @ ''>''
         @ ''<h1 style='' @ quoted ''font-weight:600'' @ ''>Solon</h1><p><code>'' @ h @ ''</code> does not match any container.</p>''
         @ ''<p>Available domains:</p><ul>'' @ items @ ''</ul></body></html>'')"

section \<open>The hosts file\<close>

definition markers_begin :: "bytes list" where "markers_begin = [HOSTS_BEGIN, LEGACY_HOSTS_BEGIN]"
definition markers_end :: "bytes list" where "markers_end = [HOSTS_END, LEGACY_HOSTS_END]"

text \<open>The loop over the lines; the empty element behind the last line feed is not a line.\<close>

fun hosts_loop :: "bytes list \<Rightarrow> bool \<Rightarrow> bytes \<Rightarrow> bytes" where
  "hosts_loop [] skipping kept = kept"
| "hosts_loop (raw # rest) skipping kept =
     (if rest = [] \<and> raw = [] then kept
      else let line = strip_cr raw; trimmed = trim_ascii line
           in if trimmed \<in> set markers_begin then hosts_loop rest True kept
              else if trimmed \<in> set markers_end then hosts_loop rest False kept
              else hosts_loop rest skipping (if skipping then kept else kept @ line @ CRLF))"

definition hosts_without_block :: "bytes \<Rightarrow> bytes" where
  "hosts_without_block current = hosts_loop (split_on LF current) False []"

definition hosts_next :: "string list \<Rightarrow> bytes \<Rightarrow> bytes" where
  "hosts_next names current =
     (let kept = trim_ascii_end (hosts_without_block current)
      in kept @ (if names = [] then []
                 else CRLF @ HOSTS_BEGIN @ CRLF @ concat (map (\<lambda>n. ''127.0.0.1 '' @ n @ CRLF) names) @ HOSTS_END) @ CRLF)"

text \<open>
  Reading and writing are tried up to twenty times while the file is held by another process;
  \<open>attempt k\<close> is what the \<open>k\<close>-th try gives.
\<close>

definition busy :: "io_fail \<Rightarrow> bool" where
  "busy e \<longleftrightarrow> raw_os e = Some 32 \<or> io_kind_of e = PermissionDenied"

definition hosts_failed :: io_fail where "hosts_failed = \<lparr>io_kind_of = OtherKind, raw_os = None\<rparr>"

fun read_hosts_loop :: "(nat \<Rightarrow> io_fail + bytes) \<Rightarrow> nat list \<Rightarrow> io_fail option \<Rightarrow> io_fail + bytes" where
  "read_hosts_loop attempt [] final = Inl (case final of Some e \<Rightarrow> e | None \<Rightarrow> hosts_failed)"
| "read_hosts_loop attempt (k # ks) final =
     (case attempt k of
        Inr b \<Rightarrow> Inr b
      | Inl e \<Rightarrow>
          if io_kind_of e = NotFound then Inr []
          else if busy e then read_hosts_loop attempt ks (Some e) else Inl e)"

definition read_hosts :: "(nat \<Rightarrow> io_fail + bytes) \<Rightarrow> io_fail + bytes" where
  "read_hosts attempt = read_hosts_loop attempt [0..<20] None"

fun write_hosts_loop :: "(nat \<Rightarrow> io_fail option) \<Rightarrow> nat list \<Rightarrow> io_fail option \<Rightarrow> io_fail option" where
  "write_hosts_loop attempt [] final = Some (case final of Some e \<Rightarrow> e | None \<Rightarrow> hosts_failed)"
| "write_hosts_loop attempt (k # ks) final =
     (case attempt k of
        None \<Rightarrow> None
      | Some e \<Rightarrow> if busy e then write_hosts_loop attempt ks (Some e) else Some e)"

text \<open>The result, and the content written if any.\<close>

definition write_hosts_block ::
  "(nat \<Rightarrow> io_fail + bytes) \<Rightarrow> (nat \<Rightarrow> io_fail option) \<Rightarrow> domain_map \<Rightarrow> (io_fail + unit) \<times> bytes option" where
  "write_hosts_block rd wr domains =
     (case read_hosts rd of
        Inl e \<Rightarrow> (Inl e, None)
      | Inr current \<Rightarrow>
          let nxt = hosts_next (map fst domains) current
          in if nxt = current then (Inr (), None)
             else (case write_hosts_loop wr [0..<20] None of
                     None \<Rightarrow> (Inr (), Some nxt)
                   | Some e \<Rightarrow> (Inl e, None)))"

section \<open>Lemmas\<close>

text \<open>The names a container claims.\<close>

definition names_of :: "container_endpoint \<Rightarrow> string list" where
  "names_of e =
     (let name = sanitize (ep_name e)
      in (if name \<noteq> [] then [name @ ''.'' @ SUFFIX] else [])
         @ (case (ep_compose_project e, ep_compose_service e) of
              (Some proj, Some svc) \<Rightarrow>
                if sanitize proj \<noteq> [] \<and> sanitize svc \<noteq> []
                then [sanitize svc @ ''.'' @ sanitize proj @ ''.'' @ SUFFIX] else []
            | _ \<Rightarrow> []))"

definition keys_sorted :: "'a btree_map \<Rightarrow> bool" where
  "keys_sorted m \<longleftrightarrow> sorted_wrt (<) (map fst m)"

lemma or_insert_keys: "set (map fst (or_insert k v m)) = insert k (set (map fst m))"
  by (induction k v m rule: or_insert.induct) auto

lemma or_insert_sorted: "keys_sorted m \<Longrightarrow> keys_sorted (or_insert k v m)"
proof (induction k v m rule: or_insert.induct)
  case (2 k v k' v' m)
  then show ?case
    using or_insert_keys [of k v m] by (fastforce simp: keys_sorted_def)
qed (simp add: keys_sorted_def)

lemma map_of_or_insert:
  "keys_sorted m \<Longrightarrow> map_of (or_insert k v m) x = (if x = k \<and> map_of m k = None then Some v else map_of m x)"
proof (induction k v m rule: or_insert.induct)
  case (2 k v k' v' m)
  have "k < k' \<Longrightarrow> map_of m k = None"
    using 2(2) by (fastforce simp: keys_sorted_def map_of_eq_None_iff)
  with 2 show ?case by (auto simp: keys_sorted_def)
qed simp

lemma add_endpoint_fold:
  "add_endpoint e m =
     (case parse_ipv4 (ep_ip e) of None \<Rightarrow> m
      | Some ip \<Rightarrow> fold (\<lambda>n. or_insert n (target_of e ip)) (names_of e) m)"
  by (auto simp: add_endpoint_def names_of_def Let_def split: option.splits)

lemma fold_or_insert:
  "keys_sorted m \<Longrightarrow> keys_sorted (fold (\<lambda>n. or_insert n t) ns m)
     \<and> map_of (fold (\<lambda>n. or_insert n t) ns m) x
         = (if x \<in> set ns \<and> map_of m x = None then Some t else map_of m x)"
  by (induction ns arbitrary: m) (auto simp: or_insert_sorted map_of_or_insert)

definition claims :: "string \<Rightarrow> container_endpoint \<Rightarrow> bool" where
  "claims x e \<longleftrightarrow> parse_ipv4 (ep_ip e) \<noteq> None \<and> x \<in> set (names_of e)"

definition claimed_target :: "container_endpoint \<Rightarrow> target" where
  "claimed_target e = target_of e (the (parse_ipv4 (ep_ip e)))"

lemma fold_add_endpoint:
  "keys_sorted m \<Longrightarrow> keys_sorted (fold add_endpoint es m)
     \<and> map_of (fold add_endpoint es m) x
         = (case map_of m x of Some t \<Rightarrow> Some t | None \<Rightarrow> map_option claimed_target (find (claims x) es))"
proof (induction es arbitrary: m)
  case (Cons e es)
  have *: "keys_sorted (add_endpoint e m)"
    "map_of (add_endpoint e m) x = (if claims x e \<and> map_of m x = None then Some (claimed_target e) else map_of m x)"
    using fold_or_insert [OF Cons.prems]
    by (auto simp: add_endpoint_fold claims_def claimed_target_def Cons.prems split: option.splits)
  show ?case using Cons.IH [OF *(1)] *(2) by (auto split: option.splits)
qed (simp split: option.splits)

text \<open>A label of a name: lower-case letters, digits and inner dashes.\<close>

definition dns_label :: "string \<Rightarrow> bool" where
  "dns_label l \<longleftrightarrow> l \<noteq> [] \<and> hd l \<noteq> CHR ''-'' \<and> last l \<noteq> CHR ''-''
     \<and> (\<forall>c \<in> set l. c = CHR ''-'' \<or> is_ascii_alphanumeric c \<and> ascii_lower c = c)"

lemma trim_matches_ends:
  assumes "trim_matches c s \<noteq> []"
  shows "hd (trim_matches c s) \<noteq> c" "last (trim_matches c s) \<noteq> c" "set (trim_matches c s) \<subseteq> set s"
proof -
  obtain u t where u: "u = trim_start_matches c s" and t: "t = trim_end_matches c u" by blast
  have tm: "trim_matches c s = t" by (simp add: u t trim_matches_def)
  have ne: "t \<noteq> []" using assms tm by simp
  have "prefix t u"
    using suffix_dropWhile [of "\<lambda>x. x = c" "rev u"] by (simp add: t trim_end_matches_def suffix_to_prefix)
  then obtain zs where zs: "u = t @ zs" by (auto simp: prefix_def)
  have "hd t = hd u" using ne by (simp add: zs)
  moreover have "hd u \<noteq> c"
    using hd_dropWhile [of "\<lambda>x. x = c" s] ne zs by (metis append_is_Nil_conv trim_start_matches_def u)
  ultimately show "hd (trim_matches c s) \<noteq> c" by (simp add: tm)
  show "last (trim_matches c s) \<noteq> c"
    using ne hd_dropWhile [of "\<lambda>x. x = c" "rev u"] unfolding tm t trim_end_matches_def by (simp add: last_rev)
  have "set t \<subseteq> set u" by (simp add: zs)
  moreover have "set u \<subseteq> set s" unfolding u trim_start_matches_def by (auto dest: set_dropWhileD)
  ultimately show "set (trim_matches c s) \<subseteq> set s" by (simp add: tm)
qed

lemma sanitize_label: "sanitize l \<noteq> [] \<Longrightarrow> dns_label (sanitize l)"
proof -
  assume ne: "sanitize l \<noteq> []"
  let ?s = "concat (map sanitize_byte (trim_start_matches (CHR ''/'') l))"
  have "c = CHR ''-'' \<or> is_ascii_alphanumeric c \<and> ascii_lower c = c" if "c \<in> set ?s" for c
    using that by (auto simp: sanitize_byte_def Let_def split: if_splits)
  then show ?thesis
    using ne trim_matches_ends [of "CHR ''-''" ?s] unfolding dns_label_def sanitize_def by blast
qed

lemma names_of_labels:
  "x \<in> set (names_of e) \<Longrightarrow> \<exists>ls. ls \<noteq> [] \<and> list_all dns_label ls \<and> x = join_with ''.'' (ls @ [SUFFIX])"
proof -
  assume x: "x \<in> set (names_of e)"
  have one: ?thesis if "sanitize n \<noteq> []" "x = sanitize n @ CHR ''.'' # SUFFIX" for n
    using that sanitize_label by (intro exI [of _ "[sanitize n]"]) simp
  have two: ?thesis if "sanitize p \<noteq> []" "sanitize s \<noteq> []" "x = sanitize s @ CHR ''.'' # sanitize p @ CHR ''.'' # SUFFIX" for p s
    using that sanitize_label by (intro exI [of _ "[sanitize s, sanitize p]"]) simp
  have "sanitize (ep_name e) \<noteq> [] \<and> x = sanitize (ep_name e) @ CHR ''.'' # SUFFIX
      \<or> (\<exists>p s. sanitize p \<noteq> [] \<and> sanitize s \<noteq> [] \<and> x = sanitize s @ CHR ''.'' # sanitize p @ CHR ''.'' # SUFFIX)"
    using x by (cases "ep_compose_project e"; cases "ep_compose_service e") (auto simp: names_of_def Let_def split: if_splits)
  then show ?thesis
  proof (elim disjE exE conjE)
    assume "sanitize (ep_name e) \<noteq> []" "x = sanitize (ep_name e) @ CHR ''.'' # SUFFIX"
    then show ?thesis by (rule one)
  next
    fix p s assume "sanitize p \<noteq> []" "sanitize s \<noteq> []" "x = sanitize s @ CHR ''.'' # sanitize p @ CHR ''.'' # SUFFIX"
    then show ?thesis by (rule two)
  qed
qed

section \<open>Properties\<close>

text \<open>
  C18. The table of local domains is exact: a name leads to the first running container with an
  address that claims it, by its own name or by its Compose service and project, on its likely HTTP
  port; the table is sorted without repetition; and every name in it consists of proper labels
  under \<open>solon.local\<close>.
\<close>

theorem domains_exact:
  "map_of (domains_for es) x = map_option claimed_target (find (claims x) es)
   \<and> sorted_wrt (<) (map fst (domains_for es))
   \<and> set (map fst (domains_for es)) \<subseteq> {join_with ''.'' (ls @ [SUFFIX]) | ls. ls \<noteq> [] \<and> list_all dns_label ls}"
proof -
  have *: "map_of (domains_for es) y = map_option claimed_target (find (claims y) es)" "keys_sorted (domains_for es)" for y
    using fold_add_endpoint [of "[]" es y] by (auto simp: domains_for_def keys_sorted_def)
  have "\<exists>e. n \<in> set (names_of e)" if "n \<in> set (map fst (domains_for es))" for n
  proof -
    from that obtain t where "map_of (domains_for es) n = Some t" by (metis map_of_eq_None_iff not_None_eq set_map)
    with * show ?thesis by (auto simp: find_Some_iff claims_def)
  qed
  with * names_of_labels show ?thesis unfolding keys_sorted_def by blast
qed

section \<open>The hosts file keeps what is not Solon's\<close>

definition user_line :: "bytes \<Rightarrow> bool" where
  "user_line l \<longleftrightarrow> LF \<notin> set l \<and> trim_ascii l \<notin> set markers_begin \<and> trim_ascii l \<notin> set markers_end"

lemma with_crlf_simps [simp]:
  "with_crlf [] = []" "with_crlf (l # ls) = l @ CRLF @ with_crlf ls" "with_crlf (ls @ us) = with_crlf ls @ with_crlf us"
  by (simp_all add: with_crlf_def)

lemma strip_cr_set: "set (strip_cr l) \<subseteq> set l"
  by (auto simp: strip_cr_def dest: in_set_butlastD)

lemma hosts_loop_lines:
  "(\<And>l. l \<in> set raws \<Longrightarrow> LF \<notin> set l) \<Longrightarrow> list_all user_line ls \<Longrightarrow>
     \<exists>us. list_all user_line us \<and> hosts_loop raws sk (with_crlf ls) = with_crlf us"
proof (induction raws arbitrary: sk ls)
  case (Cons raw raws)
  have lf: "LF \<notin> set (strip_cr raw)" using Cons.prems(1) [of raw] strip_cr_set by fastforce
  have keep: "\<exists>us. list_all user_line us \<and> hosts_loop raws sk' (with_crlf ls') = with_crlf us"
    if "list_all user_line ls'" for sk' ls' using Cons.IH [of ls' sk'] Cons.prems(1) that by simp
  consider (last) "raws = []" "raw = []" | (mark) "\<not> (raws = [] \<and> raw = [])" "\<not> user_line (strip_cr raw)"
    | (user) "\<not> (raws = [] \<and> raw = [])" "user_line (strip_cr raw)" by blast
  then show ?case
  proof cases
    case last
    with Cons.prems(2) show ?thesis by auto
  next
    case mark
    then have "trim_ascii (strip_cr raw) \<in> set markers_begin \<or> trim_ascii (strip_cr raw) \<in> set markers_end"
      using lf by (auto simp: user_line_def)
    then show ?thesis
      using mark(1) keep [OF Cons.prems(2), of True] keep [OF Cons.prems(2), of False]
      by (auto simp: Let_def simp del: with_crlf_simps)
  next
    case user
    have "with_crlf (ls @ [strip_cr raw]) = with_crlf ls @ strip_cr raw @ CRLF" by simp
    moreover have "trim_ascii (strip_cr raw) \<notin> set markers_begin" "trim_ascii (strip_cr raw) \<notin> set markers_end"
      using user(2) by (simp_all add: user_line_def)
    ultimately show ?thesis
      using user keep [of "ls @ [strip_cr raw]" sk] keep [OF Cons.prems(2), of True] Cons.prems(2)
      by (cases sk) (auto simp: Let_def)
  qed
qed auto

lemma trim_ascii_end_snoc:
  "trim_ascii_end (s @ [c]) = (if is_ascii_whitespace c then trim_ascii_end s else s @ [c])"
  by (simp add: trim_ascii_end_def)

lemma trim_ascii_end_Nil [simp]: "trim_ascii_end [] = []"
  by (simp add: trim_ascii_end_def)

lemma ws_crlf [simp]: "is_ascii_whitespace CR" "is_ascii_whitespace LF"
  by (simp_all add: is_ascii_whitespace_def CR_def LF_def)

lemma trim_ascii_end_crlf [simp]: "trim_ascii_end (s @ CRLF) = trim_ascii_end s"
proof -
  have "s @ CRLF = (s @ [CR]) @ [LF]" by (simp add: CRLF_def CR_def LF_def)
  then show ?thesis by (simp only: trim_ascii_end_snoc ws_crlf if_True)
qed

lemma trim_ascii_end_append:
  "trim_ascii_end (s @ t) = (if trim_ascii_end t = [] then trim_ascii_end s else s @ trim_ascii_end t)"
proof (induction t rule: rev_induct)
  case (snoc c t)
  have "s @ t @ [c] = (s @ t) @ [c]" by simp
  with snoc show ?case by (simp only: trim_ascii_end_snoc) simp
qed simp

lemma trim_ascii_end_idem [simp]: "trim_ascii_end (trim_ascii_end s) = trim_ascii_end s"
  by (induction s rule: rev_induct) (simp_all add: trim_ascii_end_snoc)

lemma trim_ascii_trim_end [simp]: "trim_ascii (trim_ascii_end s) = trim_ascii s"
proof (induction s rule: rev_induct)
  case (snoc c s)
  show ?case
  proof (cases "is_ascii_whitespace c")
    case True
    then have "trim_ascii (s @ [c]) = trim_ascii s"
      by (cases "dropWhile is_ascii_whitespace s = []")
        (simp_all add: trim_ascii_def dropWhile_append trim_ascii_end_snoc dropWhile_eq_Nil_conv [symmetric] del: dropWhile_eq_Nil_conv)
    with snoc True show ?thesis by (simp add: trim_ascii_end_snoc)
  qed (simp add: trim_ascii_end_snoc)
qed simp

lemma set_trim_ascii_end: "set (trim_ascii_end s) \<subseteq> set s"
  by (auto simp: trim_ascii_end_def dest: set_dropWhileD)

lemma user_line_trim: "user_line l \<Longrightarrow> user_line (trim_ascii_end l)"
  using set_trim_ascii_end [of l] by (auto simp: user_line_def)

lemma empty_user_line: "user_line []"
  by (simp add: user_line_def markers_begin_def markers_end_def HOSTS_BEGIN_def HOSTS_END_def LEGACY_HOSTS_BEGIN_def
      LEGACY_HOSTS_END_def trim_ascii_def)

lemma trimmed_lines:
  "list_all user_line ls \<Longrightarrow> \<exists>us. list_all user_line us \<and> trim_ascii_end (with_crlf ls) @ CRLF = with_crlf us"
proof (induction ls rule: rev_induct)
  case Nil
  show ?case by (intro exI [of _ "[[]]"]) (simp add: empty_user_line)
next
  case (snoc l ls)
  have eq: "trim_ascii_end (with_crlf (ls @ [l])) = trim_ascii_end (with_crlf ls @ l)"
    using trim_ascii_end_crlf [of "with_crlf ls @ l"] by simp
  show ?case
  proof (cases "trim_ascii_end l = []")
    case True
    with snoc eq show ?thesis by (simp add: trim_ascii_end_append)
  next
    case False
    then have "trim_ascii_end (with_crlf (ls @ [l])) @ CRLF = with_crlf (ls @ [trim_ascii_end l])"
      unfolding eq by (simp add: trim_ascii_end_append [of "with_crlf ls" l])
    moreover have "list_all user_line (ls @ [trim_ascii_end l])" using snoc.prems user_line_trim by simp
    ultimately show ?thesis by blast
  qed
qed

lemma split_lf_line: "LF \<notin> set l \<Longrightarrow> split_on LF (l @ CRLF @ t) = (l @ [CR]) # split_on LF t"
  using split_on_append [of LF "l @ [CR]" t] by (simp add: CRLF_def LF_def CR_def)

lemma strip_cr_snoc [simp]: "strip_cr (l @ [CR]) = l"
  by (simp add: strip_cr_def)

lemma hosts_loop_user:
  "list_all user_line ls \<Longrightarrow>
     hosts_loop (split_on LF (with_crlf ls @ t)) False kept = hosts_loop (split_on LF t) False (kept @ with_crlf ls)"
proof (induction ls arbitrary: kept)
  case (Cons l ls)
  then have "user_line l" "LF \<notin> set l" by (auto simp: user_line_def)
  with Cons show ?case by (simp add: split_lf_line user_line_def Let_def)
qed simp

lemma hosts_loop_skip:
  "list_all (\<lambda>l. user_line l) ls \<Longrightarrow>
     hosts_loop (split_on LF (with_crlf ls @ t)) True kept = hosts_loop (split_on LF t) True kept"
proof (induction ls)
  case (Cons l ls)
  then have "user_line l" "LF \<notin> set l" by (auto simp: user_line_def)
  with Cons show ?case by (simp add: split_lf_line user_line_def Let_def)
qed simp

lemma markers_trim [simp]:
  "trim_ascii HOSTS_BEGIN = HOSTS_BEGIN" "trim_ascii HOSTS_END = HOSTS_END" "LF \<notin> set HOSTS_BEGIN" "LF \<notin> set HOSTS_END"
  "HOSTS_END \<notin> set markers_begin" "HOSTS_BEGIN \<in> set markers_begin" "HOSTS_END \<in> set markers_end"
  by code_simp+

lemma address_line: "LF \<notin> set n \<Longrightarrow> user_line (''127.0.0.1 '' @ n)"
proof -
  assume "LF \<notin> set n"
  moreover have "hd (trim_ascii (''127.0.0.1 '' @ n)) = CHR ''1''"
  proof -
    have "dropWhile is_ascii_whitespace (''127.0.0.1 '' @ n) = ''127.0.0.1'' @ ('' '' @ n)"
      by (simp add: is_ascii_whitespace_def)
    moreover have "trim_ascii_end ''127.0.0.1'' = ''127.0.0.1''" by code_simp
    ultimately show ?thesis by (simp only: trim_ascii_def trim_ascii_end_append) simp
  qed
  then have "trim_ascii (''127.0.0.1 '' @ n) \<notin> set markers_begin \<union> set markers_end"
    by (auto simp: markers_begin_def markers_end_def HOSTS_BEGIN_def HOSTS_END_def LEGACY_HOSTS_BEGIN_def LEGACY_HOSTS_END_def)
  ultimately show ?thesis by (auto simp: user_line_def LF_def)
qed

lemma hosts_next_without:
  assumes "\<forall>n \<in> set names. LF \<notin> set n"
  shows "hosts_without_block (hosts_next names cur) = trim_ascii_end (hosts_without_block cur) @ CRLF"
proof -
  have "\<exists>ls. list_all user_line ls \<and> hosts_without_block cur = with_crlf ls"
    using hosts_loop_lines [of "split_on LF cur" "[]" False] split_on_no_sep
    by (fastforce simp: hosts_without_block_def)
  then obtain us where us: "list_all user_line us" "trim_ascii_end (hosts_without_block cur) @ CRLF = with_crlf us"
    using trimmed_lines by metis
  let ?addr = "map (\<lambda>n. ''127.0.0.1 '' @ n) names"
  have addr: "list_all user_line ?addr" using assms address_line by (auto simp: list_all_iff)
  show ?thesis
  proof (cases "names = []")
    case True
    then have "hosts_next names cur = with_crlf us @ []" using us(2) by (simp add: hosts_next_def)
    then show ?thesis
      using hosts_loop_user [OF us(1), of "[]" "[]"] us(2) by (simp add: hosts_without_block_def)
  next
    case False
    have "concat (map (\<lambda>n. ''127.0.0.1 '' @ n @ CRLF) names) = with_crlf ?addr"
      by (simp add: with_crlf_def comp_def)
    then have "hosts_next names cur = with_crlf us @ HOSTS_BEGIN @ CRLF @ with_crlf ?addr @ HOSTS_END @ CRLF @ []"
      using us(2) False by (simp add: hosts_next_def flip: append_assoc)
    then show ?thesis
      using us(2) by (simp only: hosts_without_block_def hosts_loop_user [OF us(1)])
        (simp add: split_lf_line hosts_loop_skip [OF addr] Let_def del: append_Nil2)
  qed
qed

text \<open>
  Writing the block is idempotent and touches nothing of the user's: whatever the file holds,
  writing the block for some names and then for others leaves the file as writing it for the
  others at once, so the same names again write nothing, and no name at all leaves only
  the lines outside the block.
\<close>

theorem hosts_block_idempotent:
  assumes "\<forall>n \<in> set names. LF \<notin> set n"
  shows "hosts_next names' (hosts_next names cur) = hosts_next names' cur
     \<and> trim_ascii_end (hosts_without_block (hosts_next names cur)) = trim_ascii_end (hosts_without_block cur)"
  using hosts_next_without [OF assms, of cur] by (simp add: hosts_next_def)

theorem hosts_block_idempotent_witness:
  "hosts_next [] (hosts_next [''web.solon.local''] ''127.0.0.1 a'') = hosts_next [] ''127.0.0.1 a''
     \<and> trim_ascii_end (hosts_without_block (hosts_next [''web.solon.local''] ''127.0.0.1 a'')) = trim_ascii_end (hosts_without_block ''127.0.0.1 a'')"
  by (rule hosts_block_idempotent) (simp add: LF_def)

text \<open>
  A begin marker without its end swallows the rest of the file: every line behind it is dropped,
  whoever wrote it.
\<close>

theorem unclosed_block_swallows_rest:
  assumes "list_all user_line before_it" "list_all user_line behind"
  shows "hosts_without_block (with_crlf before_it @ HOSTS_BEGIN @ CRLF @ with_crlf behind) = with_crlf before_it"
proof -
  have "hosts_loop (split_on LF (with_crlf behind @ [])) True k = k" for k
    unfolding hosts_loop_skip [OF assms(2)] by simp
  then show ?thesis
    by (simp only: hosts_without_block_def hosts_loop_user [OF assms(1)]) (simp add: split_lf_line Let_def)
qed

lemma read_hosts_loop_reads:
  "read_hosts_loop attempt ks final = Inr b \<Longrightarrow>
     \<exists>k \<in> set ks. attempt k = Inr b \<or> b = [] \<and> (\<exists>e. attempt k = Inl e \<and> io_kind_of e = NotFound)"
  by (induction attempt ks final rule: read_hosts_loop.induct) (auto split: sum.splits if_splits)


definition held_once :: "nat \<Rightarrow> io_fail + bytes" where
  "held_once k = (if k = 0 then Inl \<lparr>io_kind_of = OtherKind, raw_os = Some 32\<rparr> else Inr ''x'')"


end
