(* ===== verification/Domain_Proxy.thy ===== *)
theory Domain_Proxy
  imports Local_Domains
begin

text \<open>
  The HTTP proxy of the local domains (\<open>crates/solon-service/src/domains.rs\<close>, from \<open>read_head\<close> on):
  heads, bodies, what is kept of them for the observation of exchanges, and the two directions of a
  proxied connection.  TLS, the accept loops and the connection to the container are outside.
\<close>

section \<open>Heads\<close>

definition head_or_limit :: "bytes \<Rightarrow> nat option option" where
  "head_or_limit b =
     (case find_sub (CRLF @ CRLF) b of
        Some p \<Rightarrow> Some (Some (p + 4))
      | None \<Rightarrow> if length b > 64 * 1024 then Some None else None)"

definition read_head :: "nat option io" where
  "read_head =
     bind_io (fill_io head_or_limit 8192)
       (\<lambda>x. return_io (case x of Inl _ \<Rightarrow> None | Inr r \<Rightarrow> r))"

datatype body = BLength nat | BChunked | BUpgrade

record rewriting =
  rw_out :: string
  host_header :: string
  rw_body :: body
  rw_upgrade :: bool
  connection_upgrade :: bool

definition FORWARDED_KEYS :: "string list" where
  "FORWARDED_KEYS = [''x-forwarded-proto'', ''x-forwarded-host'', ''x-forwarded-for'', ''x-forwarded-port'',
     ''x-real-ip'', ''forwarded'']"

definition is_forwarded :: "string \<Rightarrow> bool" where
  "is_forwarded key \<longleftrightarrow> list_ex (eq_ignore_ascii_case key) FORWARDED_KEYS"

definition push_line :: "string \<Rightarrow> rewriting \<Rightarrow> rewriting" where
  "push_line line s = s\<lparr>rw_out := rw_out s @ line @ CRLF\<rparr>"

definition note_header :: "string \<Rightarrow> string \<Rightarrow> rewriting \<Rightarrow> rewriting" where
  "note_header key value s =
     (if eq_ignore_ascii_case key ''host'' then s\<lparr>host_header := value\<rparr>
      else if eq_ignore_ascii_case key ''content-length'' then
        (case parse_u64 value of
           Some n \<Rightarrow> if rw_body s \<noteq> BChunked then s\<lparr>rw_body := BLength n\<rparr> else s
         | None \<Rightarrow> s)
      else if eq_ignore_ascii_case key ''transfer-encoding'' then
        (if contains_sub ''chunked'' (to_ascii_lowercase value) then s\<lparr>rw_body := BChunked\<rparr> else s)
      else if eq_ignore_ascii_case key ''upgrade'' then s\<lparr>rw_upgrade := True\<rparr>
      else if eq_ignore_ascii_case key ''connection'' then
        (if contains_sub ''upgrade'' (to_ascii_lowercase value) then s\<lparr>connection_upgrade := True\<rparr> else s)
      else s)"

definition rewrite_line :: "string \<Rightarrow> rewriting \<Rightarrow> rewriting" where
  "rewrite_line line s =
     (if line = [] then s
      else (case split_once (CHR '':'') line of
              None \<Rightarrow> push_line line s
            | Some (k, v) \<Rightarrow>
                if is_forwarded (trim k) then s
                else push_line line (note_header (trim k) (trim v) s)))"

definition forwarded_lines :: "string \<Rightarrow> string \<Rightarrow> string list" where
  "forwarded_lines scm hst =
     [''X-Forwarded-Proto: '' @ scm]
     @ (if hst \<noteq> [] then [''X-Forwarded-Host: '' @ hst] else [])
     @ [''X-Forwarded-Port: '' @ (if scm = ''https'' then ''443'' else ''80''),
        ''X-Forwarded-For: 127.0.0.1'', ''X-Real-IP: 127.0.0.1'',
        (if hst = [] then ''Forwarded: for=127.0.0.1;proto='' @ scm
         else ''Forwarded: for=127.0.0.1;host='' @ hst @ '';proto='' @ scm)]"

definition rewrite_head :: "bytes \<Rightarrow> string \<Rightarrow> bytes \<times> body" where
  "rewrite_head head scm =
     (case split_crlf (from_utf8_lossy head) of
        request_line # lines \<Rightarrow>
          let s = fold rewrite_line lines
                    \<lparr>rw_out = request_line @ CRLF, host_header = [], rw_body = BLength 0, rw_upgrade = False,
                     connection_upgrade = False\<rparr>
          in (rw_out s @ concat (map (\<lambda>l. l @ CRLF) (forwarded_lines scm (host_header s))) @ CRLF,
              if rw_upgrade s \<and> connection_upgrade s then BUpgrade else rw_body s)
      | [] \<Rightarrow> ([], BLength 0))"

section \<open>What is kept of a body\<close>

definition BODY_CAPTURE :: nat where "BODY_CAPTURE = 4096"

record tee =
  tee_data :: bytes
  tee_cut :: bool

definition tee_default :: tee where "tee_default = \<lparr>tee_data = [], tee_cut = False\<rparr>"

definition feed :: "bytes \<Rightarrow> tee \<Rightarrow> tee" where
  "feed chunk t =
     (let room = BODY_CAPTURE - length (tee_data t)
      in if length chunk > room then t\<lparr>tee_data := tee_data t @ take room chunk, tee_cut := True\<rparr>
         else t\<lparr>tee_data := tee_data t @ chunk\<rparr>)"

definition into_body :: "string \<Rightarrow> tee \<Rightarrow> trace_body option" where
  "into_body content_type t =
     (if tee_data t \<noteq> [] then Some \<lparr>tb_text = mask_body content_type (tee_data t), truncated = tee_cut t\<rparr> else None)"

definition find_header :: "string \<Rightarrow> trace_header list \<Rightarrow> string option" where
  "find_header name hs = map_option th_value (find (\<lambda>h. eq_ignore_ascii_case (th_name h) name) hs)"

definition capturable :: "trace_header list \<Rightarrow> string option" where
  "capturable hs =
     (let encoding = trim (case find_header ''content-encoding'' hs of Some v \<Rightarrow> v | None \<Rightarrow> ''identity'')
      in if \<not> eq_ignore_ascii_case encoding ''identity'' \<and> encoding \<noteq> [] then None
         else (case find_header ''content-type'' hs of
                 None \<Rightarrow> None
               | Some ct \<Rightarrow> if is_text_content ct then Some ct else None))"

section \<open>Relaying a body\<close>

text \<open>A relaying program works on the connection and on the part of the body kept, if any is.\<close>

type_synonym 'a tee_io = "tee option \<times> conn \<Rightarrow> (io_error + 'a) \<times> tee option \<times> conn"

definition feed_opt :: "bytes \<Rightarrow> tee option \<Rightarrow> tee option" where
  "feed_opt chunk t = map_option (feed chunk) t"

function forward_loop :: "nat \<Rightarrow> tee option \<Rightarrow> conn \<Rightarrow> (io_error + unit) \<times> tee option \<times> conn" where
  "forward_loop n t s =
     (if n = 0 then (Inr (), t, s)
      else (case read_some (min 16384 n) (src s) of
              (Inl e, r) \<Rightarrow> (Inl e, t, s\<lparr>src := r\<rparr>)
            | (Inr c, r) \<Rightarrow>
                if c = [] then (Inl UnexpectedEof, t, s\<lparr>src := r\<rparr>)
                else (case write_all c (dst s) of
                        (Inl e, w) \<Rightarrow> (Inl e, feed_opt c t, s\<lparr>src := r, dst := w\<rparr>)
                      | (Inr _, w) \<Rightarrow> forward_loop (n - length c) (feed_opt c t) (s\<lparr>src := r, dst := w\<rparr>))))"
  by pat_completeness auto
termination
  by (relation "measure (\<lambda>(n, t, s). rd_size (src s))") (auto dest: read_some_decreases [OF sym])

declare forward_loop.simps [simp del]

definition forward_exact :: "nat \<Rightarrow> unit tee_io" where
  "forward_exact n ts =
     (case ts of
        (t, s) \<Rightarrow>
          let k = min (length (buf s)) n
          in if k > 0
             then (case flush_buf k s of
                     (Inl e, s') \<Rightarrow> (Inl e, feed_opt (take k (buf s)) t, s')
                   | (Inr _, s') \<Rightarrow> forward_loop (n - k) (feed_opt (take k (buf s)) t) s')
             else forward_loop n t s)"

definition line_or_limit :: "bytes \<Rightarrow> (io_error + nat) option" where
  "line_or_limit b =
     (case find_sub CRLF b of
        Some p \<Rightarrow> Some (Inr p)
      | None \<Rightarrow> if length b > 64 * 1024 then Some (Inl InvalidData) else None)"

definition take_line :: "nat \<Rightarrow> bytes io" where
  "take_line p s = (Inr (take p (buf s)), drop_buf (p + 2) s)"

definition read_line :: "bytes io" where
  "read_line =
     bind_io (fill_io line_or_limit 8192)
       (\<lambda>x. case x of
              Inl _ \<Rightarrow> fail_io UnexpectedEof
            | Inr (Inl e) \<Rightarrow> fail_io e
            | Inr (Inr p) \<Rightarrow> take_line p)"

definition write_line :: "bytes \<Rightarrow> unit io" where
  "write_line l = bind_io (write_io l) (\<lambda>_. write_io CRLF)"

definition chunk_size :: "bytes \<Rightarrow> nat option" where
  "chunk_size line = parse_hex_u64 (trim (hd (split_on (CHR '';'') (from_utf8_lossy line))))"

lemma find_sub_length: "find_sub p s = Some i \<Longrightarrow> i + length p \<le> length s"
  by (auto simp: find_sub_Some)

lemma read_line_size: "read_line s = (Inr l, s') \<Longrightarrow> stream_size s' < stream_size s"
proof -
  assume st: "read_line s = (Inr l, s')"
  then obtain p t where f: "fill_io line_or_limit 8192 s = (Inr (Inr (Inr p)), t)" and s': "s' = drop_buf (p + 2) t"
    by (auto simp: read_line_def bind_io_def take_line_def fail_io_def split: prod.splits sum.splits)
  have "find_sub CRLF (buf t) = Some p"
    using fill_io_answer [OF f] by (auto simp: line_or_limit_def split: option.splits if_splits)
  then have "p + 2 \<le> length (buf t)" using find_sub_length by (fastforce simp: CRLF_def)
  moreover have "stream_size t \<le> stream_size s" using shrinking_fill f unfolding shrinking_def by blast
  ultimately show ?thesis by (simp add: s' drop_buf_def stream_size_def)
qed

lemma write_line_size: "write_line l s = (x, s') \<Longrightarrow> stream_size s' \<le> stream_size s"
proof -
  assume "write_line l s = (x, s')"
  moreover have "shrinking (write_line l)" unfolding write_line_def by (intro shrinking_bind shrinking_write)
  ultimately show ?thesis by (simp add: shrinking_def)
qed

lemma forward_loop_size: "forward_loop n t s = (x, t', s') \<Longrightarrow> stream_size s' \<le> stream_size s"
proof (induction n t s rule: forward_loop.induct)
  case (1 n t s)
  obtain y r where rd: "read_some (min 16384 n) (src s) = (y, r)" by (cases "read_some (min 16384 n) (src s)")
  have le: "rd_size r \<le> rd_size (src s)" using rd read_some_le by blast
  show ?case
  proof (cases "n = 0 \<or> (\<exists>e. y = Inl e) \<or> y = Inr []")
    case True
    with "1.prems" rd le show ?thesis
      by (cases "n = 0") (auto simp: forward_loop.simps [of n] forward_loop.simps [of 0] stream_size_def)
  next
    case False
    then obtain c where c: "y = Inr c" "c \<noteq> []" "n \<noteq> 0" by (cases y) auto
    obtain z w where w: "write_all c (dst s) = (z, w)" by (cases "write_all c (dst s)")
    show ?thesis
    proof (cases z)
      case (Inl e)
      with "1.prems" rd le c w show ?thesis by (auto simp: forward_loop.simps [of n] stream_size_def)
    next
      case (Inr u)
      with "1.prems" rd c w have "forward_loop (n - length c) (feed_opt c t) (s\<lparr>src := r, dst := w\<rparr>) = (x, t', s')"
        by (simp add: forward_loop.simps [of n])
      from "1.IH" [OF c(3) rd [symmetric] c(1,2) w [symmetric] Inr this] le show ?thesis by (simp add: stream_size_def)
    qed
  qed
qed

lemma forward_exact_size: "forward_exact n (t, s) = (x, t', s') \<Longrightarrow> stream_size s' \<le> stream_size s"
proof -
  assume st: "forward_exact n (t, s) = (x, t', s')"
  let ?k = "min (length (buf s)) n"
  obtain y u where f: "flush_buf ?k s = (y, u)" by (cases "flush_buf ?k s")
  then have "stream_size u \<le> stream_size s" using shrinking_flush unfolding shrinking_def by blast
  with st f show ?thesis
    by (auto simp: forward_exact_def Let_def split: if_splits sum.splits dest!: forward_loop_size)
qed

function forward_trailers :: "unit io" where
  "forward_trailers s =
     (case read_line s of
        (Inl e, s1) \<Rightarrow> (Inl e, s1)
      | (Inr l, s1) \<Rightarrow>
          (case write_line l s1 of
             (Inl e, s2) \<Rightarrow> (Inl e, s2)
           | (Inr _, s2) \<Rightarrow> if l = [] then (Inr (), s2) else forward_trailers s2))"
  by pat_completeness auto
termination
  by (relation "measure stream_size") (auto dest!: read_line_size [OF sym] write_line_size [OF sym])

declare forward_trailers.simps [simp del]

lemma forward_trailers_size: "forward_trailers s = (x, s') \<Longrightarrow> x = Inr () \<Longrightarrow> stream_size s' < stream_size s"
proof (induction s rule: forward_trailers.induct)
  case (1 s)
  from "1.prems" obtain l s1 s2 where l: "read_line s = (Inr l, s1)" "write_line l s1 = (Inr (), s2)"
    and r: "(if l = [] then (Inr (), s2) else forward_trailers s2) = (x, s')"
    by (auto simp: forward_trailers.simps [of s] split: prod.splits sum.splits)
  have "stream_size s2 < stream_size s" using read_line_size [OF l(1)] write_line_size [OF l(2)] by simp
  with r "1.IH" [OF l(1) [symmetric] refl l(2) [symmetric] refl] "1.prems"(2) show ?case
    by (cases "l = []") auto
qed

text \<open>One chunk: its size, or nothing at the last one, whose trailers are relayed.\<close>

definition forward_chunk :: "nat option tee_io" where
  "forward_chunk ts =
     (case ts of
        (t, s) \<Rightarrow>
          (case read_line s of
             (Inl e, s1) \<Rightarrow> (Inl e, t, s1)
           | (Inr line, s1) \<Rightarrow>
               (case chunk_size line of
                  None \<Rightarrow> (Inl InvalidData, t, s1)
                | Some n \<Rightarrow>
                    (case write_line line s1 of
                       (Inl e, s2) \<Rightarrow> (Inl e, t, s2)
                     | (Inr _, s2) \<Rightarrow>
                         if n = 0
                         then (case forward_trailers s2 of
                                 (Inl e, s3) \<Rightarrow> (Inl e, t, s3)
                               | (Inr _, s3) \<Rightarrow> (Inr None, t, s3))
                         else (case forward_exact n (t, s2) of
                                 (Inl e, t3, s3) \<Rightarrow> (Inl e, t3, s3)
                               | (Inr _, t3, s3) \<Rightarrow>
                                   (case forward_exact 2 (None, s3) of
                                      (Inl e, _, s4) \<Rightarrow> (Inl e, t3, s4)
                                    | (Inr _, _, s4) \<Rightarrow> (Inr (Some n), t3, s4)))))))"

lemma forward_chunk_size:
  assumes "forward_chunk (t, s) = (Inr x, t', s')"
  shows "stream_size s' < stream_size s"
proof -
  from assms obtain line s1 n s2 where l: "read_line s = (Inr line, s1)" "chunk_size line = Some n" "write_line line s1 = (Inr (), s2)"
    by (auto simp: forward_chunk_def split: prod.splits sum.splits option.splits)
  have le: "stream_size s2 < stream_size s" using read_line_size [OF l(1)] write_line_size [OF l(3)] by simp
  show ?thesis
  proof (cases "n = 0")
    case True
    with assms l have "forward_trailers s2 = (Inr (), s')"
      by (auto simp: forward_chunk_def split: prod.splits sum.splits)
    with forward_trailers_size le show ?thesis by fastforce
  next
    case False
    with assms l obtain t3 s3 u where "forward_exact n (t, s2) = (Inr (), t3, s3)" "forward_exact 2 (None, s3) = (Inr (), u, s')"
      by (auto simp: forward_chunk_def split: prod.splits sum.splits)
    with forward_exact_size le show ?thesis by (meson le_less_trans order.trans)
  qed
qed

function forward_chunked :: "nat \<Rightarrow> tee option \<Rightarrow> conn \<Rightarrow> (io_error + nat) \<times> tee option \<times> conn" where
  "forward_chunked tot t s =
     (case forward_chunk (t, s) of
        (Inl e, t', s') \<Rightarrow> (Inl e, t', s')
      | (Inr None, t', s') \<Rightarrow> (Inr tot, t', s')
      | (Inr (Some n), t', s') \<Rightarrow> forward_chunked (tot + n) t' s')"
  by pat_completeness auto
termination
  by (relation "measure (\<lambda>(tot, t, s). stream_size s)") (auto dest!: forward_chunk_size [OF sym])

declare forward_chunked.simps [simp del]

lemma forward_chunked_size: "forward_chunked tot t s = (Inr n, t', s') \<Longrightarrow> stream_size s' < stream_size s"
proof (induction tot t s rule: forward_chunked.induct)
  case (1 tot t s)
  obtain x t1 s1 where c: "forward_chunk (t, s) = (x, t1, s1)" by (metis prod.exhaust)
  from "1.prems" c obtain y where y: "x = Inr y"
    by (cases x) (auto simp: forward_chunked.simps [of tot t s])
  then have "stream_size s1 < stream_size s" using c forward_chunk_size by blast
  with "1.prems" c y "1.IH" [OF c [symmetric] y _ refl] show ?case
    by (cases y) (auto simp: forward_chunked.simps [of tot t s])
qed

section \<open>Requests and responses as they are observed\<close>

record pending_req =
  pd_ts :: nat
  pd_started :: nat
  pd_method :: string
  pd_path :: string
  pd_headers :: "trace_header list"
  pd_bytes :: nat
  pd_body :: "trace_body option"

definition head_lines :: "bytes \<Rightarrow> string \<times> (string \<times> string) list" where
  "head_lines head =
     (case split_crlf (from_utf8_lossy head) of
        first # lines \<Rightarrow>
          (first, map (\<lambda>(k, v). (trim k, trim v))
             (List.map_filter (split_once (CHR '':'')) (filter (\<lambda>l. l \<noteq> []) lines)))
      | [] \<Rightarrow> ([], []))"

definition nth_word :: "nat \<Rightarrow> string \<Rightarrow> string option" where
  "nth_word i l = (let ws = split_whitespace l in if i < length ws then Some (ws ! i) else None)"

definition parse_request_head :: "bytes \<Rightarrow> string \<times> string \<times> trace_header list" where
  "parse_request_head head =
     (case head_lines head of
        (line, flds) \<Rightarrow>
          (case nth_word 0 line of Some m \<Rightarrow> m | None \<Rightarrow> [],
           mask_path (case nth_word 1 line of Some p \<Rightarrow> p | None \<Rightarrow> []),
           map (\<lambda>(k, v). masked k v) flds))"

datatype resp_body = RNone | RLength nat | RChunked | RUpgrade | RUntilClose

definition find_field :: "string \<Rightarrow> (string \<times> string) list \<Rightarrow> string option" where
  "find_field name flds = map_option snd (find (\<lambda>(k, _). eq_ignore_ascii_case k name) flds)"

definition response_body_kind :: "nat \<Rightarrow> string \<Rightarrow> (string \<times> string) list \<Rightarrow> resp_body" where
  "response_body_kind status_code mth flds =
     (if status_code = 101 then RUpgrade
      else if eq_ignore_ascii_case mth ''HEAD'' \<or> status_code = 204 \<or> status_code = 304 \<or> (100 \<le> status_code \<and> status_code < 200) then RNone
      else if (case find_field ''transfer-encoding'' flds of
                 Some v \<Rightarrow> contains_sub ''chunked'' (to_ascii_lowercase v) | None \<Rightarrow> False) then RChunked
      else (case (case find_field ''content-length'' flds of Some v \<Rightarrow> parse_u64 (trim v) | None \<Rightarrow> None) of
              Some n \<Rightarrow> RLength n
            | None \<Rightarrow> RUntilClose))"

definition parse_response_head :: "bytes \<Rightarrow> string \<Rightarrow> nat \<times> trace_header list \<times> resp_body" where
  "parse_response_head head mth =
     (case head_lines head of
        (line, flds) \<Rightarrow>
          let status_code = (case nth_word 1 line of
                        Some c \<Rightarrow> (case parse_u16 c of Some n \<Rightarrow> n | None \<Rightarrow> 0) | None \<Rightarrow> 0)
          in (status_code, map (\<lambda>(k, v). masked k v) flds, response_body_kind status_code mth flds))"

section \<open>The responses of the container\<close>

text \<open>
  The task that relays responses.  \<open>arrived\<close> lists what \<open>try_recv\<close> gives, one element for each time
  it is asked, each request with its body as kept by then; \<open>elapsed\<close> is the time since it started.
\<close>

record pump =
  p_conn :: conn
  current :: "pending_req option"
  arrived :: "pending_req option list"
  traced :: "trace_http list"

record exchange_info =
  ex_scheme :: string
  ex_host :: string
  ex_dst :: trace_peer
  ex_capture :: bool
  ex_elapsed :: "pending_req \<Rightarrow> nat"

definition recv_pending :: "pump \<Rightarrow> pending_req option \<times> pending_req option list" where
  "recv_pending p =
     (case current p of
        Some r \<Rightarrow> (Some r, arrived p)
      | None \<Rightarrow> (case arrived p of [] \<Rightarrow> (None, []) | a # rest \<Rightarrow> (a, rest)))"

definition interim :: "nat \<Rightarrow> bool" where
  "interim status_code \<longleftrightarrow> 100 \<le> status_code \<and> status_code < 200 \<and> status_code \<noteq> 101"

definition relay_response :: "resp_body \<Rightarrow> tee option \<Rightarrow> conn \<Rightarrow> (io_error + nat) \<times> tee option \<times> conn" where
  "relay_response b t s =
     (case b of
        RNone \<Rightarrow> (Inr 0, t, s)
      | RLength n \<Rightarrow>
          (case forward_exact n (t, s) of (Inl e, t', s') \<Rightarrow> (Inl e, t', s') | (Inr _, t', s') \<Rightarrow> (Inr n, t', s'))
      | RChunked \<Rightarrow> forward_chunked 0 t s
      | _ \<Rightarrow> (case bind_io (flush_buf (length (buf s))) (\<lambda>_. copy_io) s of (x, s') \<Rightarrow> (x, t, s')))"

definition observed ::
  "exchange_info \<Rightarrow> pending_req \<Rightarrow> nat \<Rightarrow> trace_header list \<Rightarrow> nat \<Rightarrow> trace_body option \<Rightarrow> trace_http" where
  "observed ex r status_code hs n kept =
     \<lparr>ts_ms = pd_ts r, scheme = ex_scheme ex, host = ex_host ex, th_method = pd_method r, th_path = pd_path r,
      status = status_code, duration_ms = ex_elapsed ex r, th_dst = ex_dst ex, request_headers = pd_headers r,
      response_headers = hs, request_bytes = pd_bytes r, response_bytes = n, request_body = pd_body r,
      response_body = kept\<rparr>"

definition ends_here :: "resp_body \<Rightarrow> bool" where
  "ends_here b \<longleftrightarrow> b = RUpgrade \<or> b = RUntilClose"

text \<open>One turn of the loop: whether it goes on, and the state.\<close>

definition pump_turn :: "exchange_info \<Rightarrow> pump \<Rightarrow> bool \<times> pump" where
  "pump_turn ex p =
     (case read_head (p_conn p) of
        (Inr (Some n), c) \<Rightarrow>
          (case recv_pending p of
             (cur, rest) \<Rightarrow>
               let mth = (case cur of Some r \<Rightarrow> pd_method r | None \<Rightarrow> ''GET'')
               in case parse_response_head (take n (buf c)) mth of
                    (status_code, hs, b) \<Rightarrow>
                      let pend = (if interim status_code then None else cur);
                          p1 = p\<lparr>current := (if interim status_code then cur else None), arrived := rest\<rparr>
                      in case flush_buf n c of
                           (Inl e, c1) \<Rightarrow> (False, p1\<lparr>p_conn := c1\<rparr>)
                         | (Inr _, c1) \<Rightarrow>
                             let ct = (if ex_capture ex then capturable hs else None)
                             in case relay_response b (map_option (\<lambda>_. tee_default) ct) c1 of
                                  (relayed, t, c2) \<Rightarrow>
                                    let len = (case relayed of Inr k \<Rightarrow> k | Inl _ \<Rightarrow> 0);
                                        kept = (case (t, ct) of (Some te, Some c) \<Rightarrow> into_body c te | _ \<Rightarrow> None);
                                        tr = (case pend of Some r \<Rightarrow> [observed ex r status_code hs len kept] | None \<Rightarrow> [])
                                    in (\<not> ends_here b \<and> (case relayed of Inr _ \<Rightarrow> True | Inl _ \<Rightarrow> False),
                                        p1\<lparr>p_conn := c2, traced := traced p @ tr\<rparr>))
      | (_, c) \<Rightarrow> (False, p\<lparr>p_conn := c\<rparr>))"

lemma read_head_Some:
  assumes "read_head s = (Inr (Some n), t)"
  shows "find_sub (CRLF @ CRLF) (buf t) = Some (n - 4)" "4 \<le> n" "n \<le> length (buf t)" "stream_size t \<le> stream_size s"
proof -
  have f: "fill_io head_or_limit 8192 s = (Inr (Inr (Some n)), t)"
    using assms by (auto simp: read_head_def bind_io_def return_io_def split: prod.splits sum.splits)
  have "\<exists>p. find_sub (CRLF @ CRLF) (buf t) = Some p \<and> n = p + 4"
    using fill_io_answer [OF f] by (auto simp: head_or_limit_def split: option.splits if_splits)
  then show "find_sub (CRLF @ CRLF) (buf t) = Some (n - 4)" "4 \<le> n" "n \<le> length (buf t)"
    using find_sub_length by (fastforce simp: CRLF_def)+
  show "stream_size t \<le> stream_size s" using shrinking_fill f unfolding shrinking_def by blast
qed

lemma flush_size: "flush_buf n s = (Inr u, s') \<Longrightarrow> n \<le> length (buf s) \<Longrightarrow> stream_size s' + n = stream_size s"
  by (auto simp: flush_buf_def write_io_def drop_buf_def stream_size_def split: prod.splits sum.splits)

lemma relay_response_size:
  assumes "relay_response b t s = (Inr n, t', s')" "\<not> ends_here b"
  shows "stream_size s' \<le> stream_size s"
  using assms forward_chunked_size [of 0 t s n t' s']
  by (cases b) (auto simp: relay_response_def ends_here_def split: prod.splits sum.splits dest: forward_exact_size)

lemma pump_turn_size:
  assumes "pump_turn ex p = (True, p')"
  shows "stream_size (p_conn p') < stream_size (p_conn p)"
proof -
  from assms obtain n c where rh: "read_head (p_conn p) = (Inr (Some n), c)"
    by (auto simp: pump_turn_def split: prod.splits sum.splits option.splits)
  note h = read_head_Some [OF rh]
  from assms rh obtain c1 b t k t' where f: "flush_buf n c = (Inr (), c1)"
    and r: "relay_response b t c1 = (Inr k, t', p_conn p')" "\<not> ends_here b"
    by (auto simp: pump_turn_def Let_def split: prod.splits sum.splits)
  from relay_response_size [OF r] flush_size [OF f h(3)] h(2,4) show ?thesis by simp
qed

function pump_loop :: "exchange_info \<Rightarrow> pump \<Rightarrow> pump" where
  "pump_loop ex p = (case pump_turn ex p of (again, p') \<Rightarrow> if again then pump_loop ex p' else p')"
  by pat_completeness auto
termination
  by (relation "measure (\<lambda>(ex, p). stream_size (p_conn p))") (auto dest!: pump_turn_size [OF sym])

declare pump_loop.simps [simp del]

section \<open>The requests of the client\<close>

text \<open>
  One request, whose head takes the first bytes of the buffer: whether another may follow, and what is
  put in the queue, with the part of the body kept.
\<close>

definition queued :: "(nat \<Rightarrow> nat) \<Rightarrow> nat \<Rightarrow> bytes \<Rightarrow> body \<Rightarrow> pending_req" where
  "queued clock i head b =
     (case parse_request_head head of
        (m, path, hs) \<Rightarrow>
          \<lparr>pd_ts = clock i, pd_started = clock i, pd_method = m, pd_path = path, pd_headers = hs,
           pd_bytes = (case b of BLength n \<Rightarrow> n | _ \<Rightarrow> 0), pd_body = None\<rparr>)"

definition relay_request :: "body \<Rightarrow> tee option \<Rightarrow> conn \<Rightarrow> (io_error + bool) \<times> tee option \<times> conn" where
  "relay_request b t s =
     (case b of
        BUpgrade \<Rightarrow>
          (case flush_buf (length (buf s)) s of
             (Inl e, s') \<Rightarrow> (Inl e, t, s')
           | (Inr _, s') \<Rightarrow> (Inr False, t, snd (copy_io s')))
      | BLength n \<Rightarrow>
          (case forward_exact n (t, s) of (Inl e, t', s') \<Rightarrow> (Inl e, t', s') | (Inr _, t', s') \<Rightarrow> (Inr True, t', s'))
      | BChunked \<Rightarrow>
          (case forward_chunked 0 t s of (Inl e, t', s') \<Rightarrow> (Inl e, t', s') | (Inr _, t', s') \<Rightarrow> (Inr True, t', s')))"

definition request_turn ::
  "string \<Rightarrow> bool \<Rightarrow> (nat \<Rightarrow> nat) \<Rightarrow> nat \<Rightarrow> nat \<Rightarrow> conn \<Rightarrow> (io_error + bool) \<times> pending_req \<times> conn" where
  "request_turn scm capture clock i head_end s =
     (let head = take head_end (buf s); s1 = drop_buf head_end s
      in case rewrite_head head scm of
           (new_head, b) \<Rightarrow>
             let q = queued clock i head b;
                 ct = (if capture then capturable (pd_headers q) else None)
             in case write_io new_head s1 of
                  (Inl e, s2) \<Rightarrow> (Inl e, q, s2)
                | (Inr _, s2) \<Rightarrow>
                    (case relay_request b (map_option (\<lambda>_. tee_default) ct) s2 of
                       (Inl e, _, s3) \<Rightarrow> (Inl e, q, s3)
                     | (Inr again, t, s3) \<Rightarrow>
                         let q' = (case (t, ct) of
                                     (Some te, Some c) \<Rightarrow> if again then q\<lparr>pd_body := into_body c te\<rparr> else q
                                   | _ \<Rightarrow> q)
                         in (Inr again, q', s3)))"

lemma write_io_size: "write_io bs s = (x, s') \<Longrightarrow> stream_size s' \<le> stream_size s"
  using shrinking_write unfolding shrinking_def by blast

lemma request_turn_size:
  assumes "request_turn scm capture clock i n s = (Inr True, q, s')" "0 < n" "n \<le> length (buf s)"
  shows "stream_size s' < stream_size s"
proof -
  have d: "stream_size (drop_buf n s) < stream_size s" using assms(2,3) by (simp add: drop_buf_def stream_size_def)
  from assms(1) obtain nh b s2 t t' where w: "write_io nh (drop_buf n s) = (Inr (), s2)"
    and r: "relay_request b t s2 = (Inr True, t', s')"
    by (auto simp: request_turn_def Let_def split: prod.splits sum.splits)
  have "stream_size s' \<le> stream_size s2"
    using r by (cases b) (auto simp: relay_request_def split: prod.splits sum.splits dest!: forward_exact_size forward_chunked_size)
  with d write_io_size [OF w] show ?thesis by simp
qed

lemma request_round:
  "read_head s = (Inr (Some n), s1) \<Longrightarrow> request_turn scm capture clock i n s1 = (Inr True, q, s2) \<Longrightarrow>
     stream_size s2 < stream_size s"
  using read_head_Some [of s n s1] request_turn_size [of scm capture clock i n s1 q s2] by simp

text \<open>
  The loop over the requests: the head at the front of the buffer, read before or completed now.
\<close>

function request_loop ::
  "string \<Rightarrow> bool \<Rightarrow> (nat \<Rightarrow> nat) \<Rightarrow> nat \<Rightarrow> conn \<Rightarrow> (io_error + unit) \<times> pending_req list \<times> conn" where
  "request_loop scm capture clock i s =
     (case read_head s of
        (Inl e, s1) \<Rightarrow> (Inl e, [], s1)
      | (Inr None, s1) \<Rightarrow> (Inr (), [], s1)
      | (Inr (Some n), s1) \<Rightarrow>
          (case request_turn scm capture clock i n s1 of
             (Inl e, q, s2) \<Rightarrow> (Inl e, [q], s2)
           | (Inr again, q, s2) \<Rightarrow>
               if again
               then (case request_loop scm capture clock (i + 1) s2 of (x, qs, s3) \<Rightarrow> (x, q # qs, s3))
               else (Inr (), [q], s2)))"
  by pat_completeness auto
termination
  by (relation "measure (\<lambda>(scm, capture, clock, i, s). stream_size s)") (auto dest: request_round [OF sym sym])

declare request_loop.simps [simp del]

section \<open>A proxied connection\<close>

fun find_host :: "string list \<Rightarrow> string option" where
  "find_host [] = None"
| "find_host (l # ls) =
     (case split_once (CHR '':'') l of
        Some (k, v) \<Rightarrow> if eq_ignore_ascii_case (trim k) ''host'' then Some (to_ascii_lowercase (trim v)) else find_host ls
      | None \<Rightarrow> find_host ls)"

definition host_of :: "bytes \<Rightarrow> string" where
  "host_of head =
     hd (split_on (CHR '':'') (case find_host (str_lines (from_utf8_lossy head)) of Some h \<Rightarrow> h | None \<Rightarrow> []))"

definition html_response :: "string \<Rightarrow> string \<Rightarrow> bytes" where
  "html_response status_line page =
     ''HTTP/1.1 '' @ status_line @ CRLF @ ''Content-Type: text/html; charset=utf-8'' @ CRLF
     @ ''Content-Length: '' @ dec_of_nat (length page) @ CRLF @ ''Connection: close'' @ CRLF @ CRLF @ page"

definition not_answering_page :: "string \<Rightarrow> target \<Rightarrow> string" where
  "not_answering_page hst t =
     ''<!doctype html><meta charset='' @ quoted ''utf-8'' @ ''><title>Solon</title><body style=''
     @ quoted ''font-family:Segoe UI,sans-serif;max-width:40em;margin:4em auto;color:#222'' @ ''><h1 style=''
     @ quoted ''font-weight:600'' @ ''>Solon</h1><p>The container behind <code>'' @ html_escape hst
     @ ''</code> is not answering on port '' @ dec_of_nat (t_port t) @ '' ('' @ show_ipv4 (t_ip t)
     @ '').</p><p>Check that it listens on that port, or publish the right one.</p></body>''"

text \<open>
  \<open>handle\<close>: the client as a reader and a writer, \<open>connect\<close> the container's side if it answers in
  time.  The relaying of responses sees requests as they are queued (\<open>arrived\<close>).
\<close>

datatype handled =
    NoRequest "io_error option"
  | Answered "io_error + unit" writer
  | Proxied "io_error + unit" "pending_req list" conn pump

definition handle ::
  "domain_map \<Rightarrow> (target \<Rightarrow> (reader \<times> writer) option) \<Rightarrow> (string option \<Rightarrow> bool) \<Rightarrow> string \<Rightarrow> (nat \<Rightarrow> nat) \<Rightarrow>
     (pending_req \<Rightarrow> nat) \<Rightarrow> pending_req option list \<Rightarrow> reader \<Rightarrow> writer \<Rightarrow> handled" where
  "handle domains connect captures scm clock elapsed arr client_rx client =
     (case read_head \<lparr>buf = [], src = client_rx, dst = client\<rparr> of
        (Inl e, _) \<Rightarrow> NoRequest (Some e)
      | (Inr None, _) \<Rightarrow> NoRequest None
      | (Inr (Some n), c) \<Rightarrow>
          let hst = host_of (take n (buf c))
          in case map_of domains hst of
               None \<Rightarrow>
                 (case write_all (html_response ''404 Not Found'' (not_found_page hst domains)) client of (x, w) \<Rightarrow> Answered x w)
             | Some t \<Rightarrow>
                 (case connect t of
                    None \<Rightarrow>
                      (case write_all (html_response ''502 Bad Gateway'' (not_answering_page hst t)) client of (x, w) \<Rightarrow> Answered x w)
                  | Some (up_rx, up) \<Rightarrow>
                      let cap = captures (tp_project (t_peer t));
                          ex = \<lparr>ex_scheme = scm, ex_host = hst, ex_dst = t_peer t, ex_capture = cap, ex_elapsed = elapsed\<rparr>
                      in case request_loop scm cap clock 0 (c\<lparr>dst := up\<rparr>) of
                           (x, qs, c') \<Rightarrow>
                             Proxied x qs c'
                               (pump_loop ex \<lparr>p_conn = \<lparr>buf = [], src = up_rx, dst = client\<rparr>, current = None, arrived = arr, traced = []\<rparr>)))"

section \<open>What is kept\<close>

text \<open>The state of a capture after some bytes.\<close>

definition captured :: "bytes \<Rightarrow> tee" where
  "captured b = \<lparr>tee_data = take BODY_CAPTURE b, tee_cut = (length b > BODY_CAPTURE)\<rparr>"

lemma feed_captured: "feed c (captured b) = captured (b @ c)"
proof (cases "length b \<le> BODY_CAPTURE")
  case True
  then show ?thesis by (auto simp: feed_def captured_def Let_def)
next
  case False
  then show ?thesis by (cases c) (auto simp: feed_def captured_def Let_def)
qed

lemma fold_feed: "fold feed cs (captured b) = captured (b @ concat cs)"
  by (induction cs arbitrary: b) (simp_all add: feed_captured)

lemma captured_Nil: "captured [] = tee_default"
  by (simp add: captured_def tee_default_def)

section \<open>Pairing of requests and responses\<close>

definition waiting :: "pump \<Rightarrow> pending_req list" where
  "waiting p = (case current p of Some r \<Rightarrow> [r] | None \<Rightarrow> []) @ List.map_filter (\<lambda>x. x) (arrived p)"

definition is_exchange_of :: "pending_req \<Rightarrow> trace_http \<Rightarrow> bool" where
  "is_exchange_of r t \<longleftrightarrow> th_method t = pd_method r \<and> th_path t = pd_path r \<and> ts_ms t = pd_ts r
     \<and> request_headers t = pd_headers r \<and> request_bytes t = pd_bytes r \<and> request_body t = pd_body r"

lemma observed_is: "is_exchange_of r (observed ex r c hs n k)"
  by (simp add: is_exchange_of_def observed_def)

lemma recv_waiting:
  "recv_pending p = (cur, rest) \<Longrightarrow>
     waiting p = (case cur of Some r \<Rightarrow> [r] | None \<Rightarrow> []) @ List.map_filter (\<lambda>x. x) rest"
  by (auto simp: recv_pending_def waiting_def List.map_filter_def split: option.splits list.splits)

lemma pump_turn_pairs:
  assumes "pump_turn ex p = (again, p')"
  shows "\<exists>done new. traced p' = traced p @ new \<and> list_all2 is_exchange_of done new
     \<and> prefix done (waiting p) \<and> (again \<longrightarrow> waiting p = done @ waiting p')"
proof (cases "traced p' = traced p \<and> \<not> again")
  case True
  then show ?thesis by (intro exI [of _ "[]"]) simp
next
  case False
  then obtain n c where rh: "read_head (p_conn p) = (Inr (Some n), c)"
    using assms by (auto simp: pump_turn_def split: prod.splits sum.splits option.splits)
  obtain cur rest where rp: "recv_pending p = (cur, rest)" by (cases "recv_pending p")
  let ?m = "case cur of Some r \<Rightarrow> pd_method r | None \<Rightarrow> ''GET''"
  obtain code hs b where ph: "parse_response_head (take n (buf c)) ?m = (code, hs, b)" by (metis prod.exhaust)
  obtain y c1 where f: "flush_buf n c = (y, c1)" by (cases "flush_buf n c")
  have y: "y = Inr ()" using False assms rh rp ph f by (cases y) (auto simp: pump_turn_def Let_def)
  let ?ct = "if ex_capture ex then capturable hs else None"
  obtain rel t c2 where rr: "relay_response b (map_option (\<lambda>_. tee_default) ?ct) c1 = (rel, t, c2)" by (metis prod.exhaust)
  let ?len = "case rel of Inr k \<Rightarrow> k | Inl _ \<Rightarrow> 0"
  let ?kept = "case t of None \<Rightarrow> None | Some te \<Rightarrow> (case ?ct of None \<Rightarrow> None | Some c \<Rightarrow> into_body c te)"
  let ?new = "case (if interim code then None else cur) of Some r \<Rightarrow> [observed ex r code hs ?len ?kept] | None \<Rightarrow> []"
  have "snd (pump_turn ex p) = p\<lparr>current := (if interim code then cur else None), arrived := rest, p_conn := c2,
      traced := traced p @ ?new\<rparr>"
    using rh rp ph f y rr by (simp add: pump_turn_def Let_def)
  then have tr: "traced p' = traced p @ ?new" and cu: "current p' = (if interim code then cur else None)" "arrived p' = rest"
    using assms by simp_all
  have w: "waiting p = (case cur of Some r \<Rightarrow> [r] | None \<Rightarrow> []) @ List.map_filter (\<lambda>x. x) rest"
    by (rule recv_waiting [OF rp])
  show ?thesis
  proof (cases "interim code \<or> cur = None")
    case True
    with tr cu w show ?thesis by (intro exI [of _ "[]"]) (auto simp: waiting_def split: option.splits)
  next
    case False
    then obtain r where "cur = Some r" by auto
    with False tr cu w show ?thesis
      by (intro exI [of _ "[r]"] exI [of _ "[observed ex r code hs ?len ?kept]"]) (simp add: waiting_def observed_is)
  qed
qed

lemma pump_loop_pairs:
  "\<exists>served new. traced (pump_loop ex p) = traced p @ new \<and> list_all2 is_exchange_of served new \<and> prefix served (waiting p)"
proof (induction ex p rule: pump_loop.induct)
  case (1 ex p)
  obtain again q where t: "pump_turn ex p = (again, q)" by (cases "pump_turn ex p")
  obtain d n where d: "traced q = traced p @ n" "list_all2 is_exchange_of d n" "prefix d (waiting p)"
    "again \<longrightarrow> waiting p = d @ waiting q"
    using pump_turn_pairs [OF t] by blast
  show ?case
  proof (cases again)
    case False
    with t d show ?thesis by (auto simp: pump_loop.simps [of ex p])
  next
    case True
    from "1.IH" [OF t [symmetric] True] obtain d' n' where
      "traced (pump_loop ex q) = traced q @ n'" "list_all2 is_exchange_of d' n'" "prefix d' (waiting q)" by blast
    with t d True show ?thesis
      by (intro exI [of _ "d @ d'"] exI [of _ "n @ n'"]) (simp add: pump_loop.simps [of ex p] list_all2_appendI)
  qed
qed


section \<open>Pages\<close>

lemma html_escape_safe: "{CHR ''<'', CHR ''>'', CHR 0x22} \<inter> set (html_escape s) = {}"
  by (induction s) (auto simp: html_escape_def escape_byte_def)

section \<open>Rewritten heads\<close>

definition forwarded_line :: "string \<Rightarrow> bool" where
  "forwarded_line l \<longleftrightarrow> (case split_once (CHR '':'') l of Some (k, v) \<Rightarrow> is_forwarded (trim k) | None \<Rightarrow> False)"

definition kept_lines :: "string list \<Rightarrow> string list" where
  "kept_lines lines = filter (\<lambda>l. l \<noteq> [] \<and> \<not> forwarded_line l) lines"

text \<open>The value of the last \<open>Host\<close> header.\<close>

definition host_value :: "string \<Rightarrow> string \<Rightarrow> string" where
  "host_value l h =
     (case split_once (CHR '':'') l of
        Some (k, v) \<Rightarrow> if eq_ignore_ascii_case (trim k) ''host'' then trim v else h
      | None \<Rightarrow> h)"

lemma note_header_out [simp]: "rw_out (note_header k v s) = rw_out s"
  by (simp add: note_header_def split: option.splits)

lemma host_not_forwarded: "eq_ignore_ascii_case k ''host'' \<Longrightarrow> \<not> is_forwarded k"
  by (auto simp: eq_ignore_ascii_case_def is_forwarded_def FORWARDED_KEYS_def to_ascii_lowercase_def ascii_lower_def)

lemma note_header_host: "host_header (note_header k v s) = (if eq_ignore_ascii_case k ''host'' then v else host_header s)"
  by (simp add: note_header_def split: option.splits)

lemma rewrite_line_eq:
  "rw_out (rewrite_line l s) = rw_out s @ with_crlf (kept_lines [l])"
  "host_header (rewrite_line l s) = host_value l (host_header s)"
  using host_not_forwarded
  by (auto simp: rewrite_line_def push_line_def kept_lines_def forwarded_line_def host_value_def with_crlf_def note_header_host
      split: option.splits)

lemma with_crlf_append [simp]: "with_crlf (a @ b) = with_crlf a @ with_crlf b"
  by (simp add: with_crlf_def)

lemma fold_rewrite_line:
  "rw_out (fold rewrite_line ls s) = rw_out s @ with_crlf (kept_lines ls)
   \<and> host_header (fold rewrite_line ls s) = fold host_value ls (host_header s)"
proof (induction ls arbitrary: s)
  case (Cons l ls)
  have "kept_lines (l # ls) = kept_lines [l] @ kept_lines ls" by (simp add: kept_lines_def)
  then have "with_crlf (kept_lines (l # ls)) = with_crlf (kept_lines [l]) @ with_crlf (kept_lines ls)" by simp
  then show ?case using Cons by (simp add: rewrite_line_eq)
qed (simp add: kept_lines_def with_crlf_def)

lemma sublist_trim: "sublist (trim s) s"
proof -
  have "sublist (trim_start s) s" unfolding trim_start_def by (intro suffix_imp_sublist trim_by_suffix)
  moreover have "sublist (trim_end u) u" for u
    using trim_by_suffix [of "map rev ws_encodings" "rev u"]
    by (metis prefix_imp_sublist rev_rev_ident suffix_to_prefix trim_end_def)
  ultimately show ?thesis unfolding trim_def by (meson sublist_order.order_trans)
qed

lemma no_crlf_append:
  "\<not> sublist CRLF a \<Longrightarrow> \<not> sublist CRLF b \<Longrightarrow> CR \<notin> set a \<or> LF \<notin> set (take 1 b) \<Longrightarrow> \<not> sublist CRLF (a @ b)"
  by (auto simp: sublist_append CRLF_def CR_def LF_def Cons_eq_append_conv append_eq_Cons_conv suffix_def prefix_def)

lemma no_crlf_plain: "CR \<notin> set a \<Longrightarrow> \<not> sublist CRLF a"
  by (auto simp: CRLF_def CR_def dest: set_mono_sublist)

lemma fold_host_value_no_crlf:
  "\<forall>l \<in> set ls. \<not> sublist CRLF l \<Longrightarrow> \<not> sublist CRLF h \<Longrightarrow> \<not> sublist CRLF (fold host_value ls h)"
proof (induction ls arbitrary: h)
  case (Cons l ls)
  have "\<not> sublist CRLF (host_value l h)"
  proof (cases "split_once (CHR '':'') l")
    case None
    with Cons.prems show ?thesis by (simp add: host_value_def)
  next
    case (Some kv)
    obtain k v where kv: "kv = (k, v)" by (cases kv)
    then have "l = k @ CHR '':'' # v" using Some by (simp add: split_once_Some)
    then have "sublist v l" unfolding sublist_def by (intro exI [of _ "k @ '':''"] exI [of _ "[]"]) simp
    then have "sublist (trim v) l" using sublist_trim [of v] by (blast dest: sublist_order.order_trans)
    then have "\<not> sublist CRLF (trim v)" using Cons.prems(1) sublist_order.order_trans by fastforce
    with Some kv Cons.prems(2) show ?thesis by (simp add: host_value_def)
  qed
  with Cons show ?case by simp
qed simp

lemma forwarded_lines_no_crlf:
  assumes "\<not> sublist CRLF h" "CR \<notin> set scm"
  shows "\<forall>l \<in> set (forwarded_lines scm h). \<not> sublist CRLF l"
proof -
  have plain: "\<not> sublist CRLF (p @ scm)" if "CR \<notin> set p" for p
    using that assms(2) by (intro no_crlf_plain) auto
  have host: "\<not> sublist CRLF (p @ h)" if "CR \<notin> set p" for p
    using no_crlf_append [OF no_crlf_plain [OF that] assms(1)] that by blast
  have both: "\<not> sublist CRLF ((p @ h) @ '';proto='' @ scm)" if "CR \<notin> set p" for p
    using no_crlf_append [OF host [OF that] plain [of "'';proto=''"]] by (simp add: LF_def CR_def)
  have const: "\<not> sublist CRLF (p @ q)" if "CR \<notin> set p" "CR \<notin> set q" for p q
    using that by (intro no_crlf_plain) auto
  show ?thesis
    using plain [of "''X-Forwarded-Proto: ''"] plain [of "''Forwarded: for=127.0.0.1;proto=''"]
      host [of "''X-Forwarded-Host: ''"] both [of "''Forwarded: for=127.0.0.1;host=''"]
      const [of "''X-Forwarded-Port: ''" "''443''"] const [of "''X-Forwarded-Port: ''" "''80''"]
      const [of "''X-Forwarded-For: ''" "''127.0.0.1''"] const [of "''X-Real-IP: ''" "''127.0.0.1''"]
    by (simp add: forwarded_lines_def CR_def)
qed

text \<open>
  C20. Only the proxy speaks about where a request comes from: the head sent to the container is the
  request line, the other lines of the client in their order, and the proxy's own forwarding
  headers; every forwarding header of the client, in any spelling, is gone, and no header can be
  smuggled in through the \<open>Host\<close> value.
\<close>

theorem forwarding_headers_are_the_proxys:
  assumes "split_crlf (from_utf8_lossy head) = request_line # lines" "CR \<notin> set scm"
  shows "split_crlf (fst (rewrite_head head scm))
     = request_line # kept_lines lines @ forwarded_lines scm (fold host_value lines []) @ [[], []]
     \<and> filter forwarded_line (kept_lines lines) = []"
proof -
  have ok: "\<forall>l \<in> set (request_line # lines). \<not> sublist CRLF l"
    using split_crlf_no_crlf [of _ "from_utf8_lossy head"] assms(1) by metis
  let ?h = "fold host_value lines []"
  have "\<not> sublist CRLF ?h" using ok by (intro fold_host_value_no_crlf) (auto simp: CRLF_def)
  then have "\<forall>l \<in> set (request_line # kept_lines lines @ forwarded_lines scm ?h). \<not> sublist CRLF l"
    using forwarded_lines_no_crlf [OF _ assms(2)] ok by (auto simp: kept_lines_def)
  moreover have "fst (rewrite_head head scm) = with_crlf (request_line # kept_lines lines @ forwarded_lines scm ?h) @ CRLF"
    using assms(1) fold_rewrite_line [of lines] by (simp add: rewrite_head_def Let_def with_crlf_def)
  ultimately have "split_crlf (fst (rewrite_head head scm)) = (request_line # kept_lines lines @ forwarded_lines scm ?h) @ [[], []]"
    by (simp only: split_with_crlf)
  moreover have "filter forwarded_line (kept_lines lines) = []" by (simp add: kept_lines_def)
  ultimately show ?thesis by simp
qed

definition forged_head :: bytes where
  "forged_head = with_crlf [''GET / HTTP/1.1'', ''Host: a.solon.local'', ''x-Forwarded-Proto : https''] @ CRLF"

theorem forwarding_headers_are_the_proxys_witness:
  "split_crlf (fst (rewrite_head forged_head ''http''))
     = ''GET / HTTP/1.1'' # kept_lines [''Host: a.solon.local'', ''x-Forwarded-Proto : https'', [], []]
        @ forwarded_lines ''http'' (fold host_value [''Host: a.solon.local'', ''x-Forwarded-Proto : https'', [], []] []) @ [[], []]
   \<and> filter forwarded_line (kept_lines [''Host: a.solon.local'', ''x-Forwarded-Proto : https'', [], []]) = []
   \<and> kept_lines [''Host: a.solon.local'', ''x-Forwarded-Proto : https'', [], []] = [''Host: a.solon.local'']"
proof -
  have 1: "split_crlf (from_utf8_lossy forged_head) = ''GET / HTTP/1.1'' # [''Host: a.solon.local'', ''x-Forwarded-Proto : https'', [], []]"
    by code_simp
  have 2: "CR \<notin> set ''http''" by (simp add: CR_def)
  have "kept_lines [''Host: a.solon.local'', ''x-Forwarded-Proto : https'', [], []] = [''Host: a.solon.local'']" by code_simp
  with forwarding_headers_are_the_proxys [OF 1 2] show ?thesis by blast
qed

end
