(* ===== verification/Domain_Relay.thy ===== *)
theory Domain_Relay
  imports Domain_Proxy
begin

text \<open>
  What the relaying programs of the domain proxy do on a connection without faults: a line, a number
  of bytes, a body in chunks.
\<close>

definition stream :: "conn \<Rightarrow> bytes" where
  "stream s = buf s @ pending (src s)"

text \<open>A program that takes \<open>i\<close> from the front of the stream and sends \<open>out\<close>.\<close>

definition moved :: "bytes \<Rightarrow> bytes \<Rightarrow> conn \<Rightarrow> conn \<Rightarrow> bool" where
  "moved i out s s' \<longleftrightarrow> healthy s' \<and> stream s = i @ stream s' \<and> dst s' = (dst s)\<lparr>sent := sent (dst s) @ out\<rparr>"

lemma moved_trans: "moved i1 o1 s t \<Longrightarrow> moved i2 o2 t u \<Longrightarrow> moved (i1 @ i2) (o1 @ o2) s u"
  by (auto simp: moved_def)

lemma line_probe_prefix:
  assumes "\<not> sublist CRLF l" "length l < 64 * 1024" "prefix b (l @ CRLF @ t)"
  shows "line_or_limit b = None \<or> line_or_limit b = Some (Inr (length l))"
proof (cases "length l + 2 \<le> length b")
  case True
  then have "prefix (l @ CRLF) b"
    using assms(3) prefix_length_prefix [of "l @ CRLF" "l @ CRLF @ t" b] by (simp add: CRLF_def)
  then obtain t' where "b = l @ CRLF @ t'" by (auto simp: prefix_def)
  then show ?thesis using find_crlf_line [OF assms(1)] by (simp add: line_or_limit_def)
next
  case False
  have "find_sub CRLF b = None"
  proof (rule ccontr)
    assume "find_sub CRLF b \<noteq> None"
    then obtain i where i: "find_sub CRLF b = Some i" by auto
    from assms(3) obtain z where "l @ CRLF @ t = b @ z" by (auto simp: prefix_def)
    then have "find_sub CRLF (l @ CRLF @ t) = Some i" using find_sub_append [OF i, of z] by simp
    then have "i = length l" using find_crlf_line [OF assms(1)] by simp
    with find_sub_Some [OF i] False show False by (simp add: CRLF_def)
  qed
  with False assms(2) show ?thesis by (simp add: line_or_limit_def)
qed

lemma read_line_reads:
  assumes "healthy s" "stream s = l @ CRLF @ t" "\<not> sublist CRLF l" "length l < 64 * 1024"
  shows "\<exists>s'. read_line s = (Inr l, s') \<and> moved (l @ CRLF) [] s s'"
proof -
  have e: "no_read_errors (src s)" using assms(1) by (simp add: healthy_def)
  have "line_or_limit (buf s @ pending (src s)) = Some (Inr (length l))"
    using assms(2) find_crlf_line [OF assms(3)] by (simp add: line_or_limit_def stream_def)
  then obtain b r where f: "fill line_or_limit 8192 (buf s) (src s) = (Inr (Inr (length l)), b, r)"
    using fill_finds [of "buf s" "src s" line_or_limit "Inr (length l)" 8192] line_probe_prefix [OF assms(3,4)] assms(2) e
    by (auto simp: stream_def)
  have con: "b @ pending r = l @ CRLF @ t" "no_read_errors r"
    using fill_conserves [OF f] fill_no_errors [OF f e] assms(2) by (simp_all add: stream_def)
  have "find_sub CRLF b = Some (length l)"
    using fill_answer [OF f] by (auto simp: line_or_limit_def split: option.splits if_splits)
  from find_sub_Some [OF this] have len: "length l + 2 \<le> length b" by (simp add: CRLF_def)
  have "take (length l) b = take (length l) (b @ pending r)" using len by simp
  then have 1: "take (length l) b = l" by (simp only: con) simp
  have "drop (length l + 2) b @ pending r = drop (length l + 2) (b @ pending r)" using len by simp
  then have 2: "drop (length l + 2) b @ pending r = t" by (simp only: con) (simp add: CRLF_def)
  show ?thesis
    using f 1 2 con assms(1,2)
    by (simp add: read_line_def bind_io_def fill_io_def take_line_def drop_buf_def moved_def stream_def healthy_def)
qed

lemma write_line_writes: "healthy s \<Longrightarrow> \<exists>s'. write_line l s = (Inr (), s') \<and> moved [] (l @ CRLF) s s'"
  by (simp add: write_line_def bind_io_def write_io_def healthy_def moved_def stream_def)

lemma feed_opt_append: "feed_opt b (feed_opt a (Some (captured x))) = Some (captured (x @ a @ b))"
  by (simp add: feed_opt_def feed_captured)

text \<open>The capture, if there is one, after some more bytes.\<close>

definition captures_more :: "tee option \<Rightarrow> bytes \<Rightarrow> tee option \<Rightarrow> bool" where
  "captures_more t b t' \<longleftrightarrow> (\<forall>x. t = Some (captured x) \<longrightarrow> t' = Some (captured (x @ b)))"

lemma captures_more_simps [simp]: "captures_more t [] t" "captures_more t b (feed_opt b t)"
  by (simp_all add: captures_more_def feed_opt_def feed_captured)

lemma feed_opt_Nil [simp]: "feed_opt [] t = t"
  by (cases t) (simp_all add: feed_opt_def feed_def Let_def)

lemma captures_more_trans: "captures_more t a u \<Longrightarrow> captures_more u b v \<Longrightarrow> captures_more t (a @ b) v"
  by (simp add: captures_more_def)

lemma forward_loop_forwards:
  "healthy s \<Longrightarrow> buf s = [] \<or> n = 0 \<Longrightarrow> pending (src s) = d @ z \<Longrightarrow> length d = n \<Longrightarrow>
     \<exists>t' s'. forward_loop n t s = (Inr (), t', s') \<and> moved d d s s' \<and> captures_more t d t'"
proof (induction n t s arbitrary: d rule: forward_loop.induct)
  case (1 n t s)
  show ?case
  proof (cases "n = 0")
    case True
    with "1.prems" show ?thesis by (simp add: forward_loop.simps moved_def healthy_def stream_def)
  next
    case False
    obtain y r where rd: "read_some (min 16384 n) (src s) = (y, r)" by (cases "read_some (min 16384 n) (src s)")
    have e: "no_read_errors (src s)" "open_writer (dst s)" using "1.prems"(1) by (auto simp: healthy_def)
    then obtain c where c: "y = Inr c" "no_read_errors r" using rd read_some_no_errors by blast
    have p: "pending (src s) = c @ pending r" using rd c read_some_pending by blast
    have le: "length c \<le> n" using rd c read_some_length by fastforce
    have ne: "c \<noteq> []" using rd c e False "1.prems"(3,4) read_some_eof [of "min 16384 n" "src s" r] by auto
    let ?s = "s\<lparr>src := r, dst := (dst s)\<lparr>sent := sent (dst s) @ c\<rparr>\<rparr>"
    have w: "write_all c (dst s) = (Inr (), (dst s)\<lparr>sent := sent (dst s) @ c\<rparr>)" using e by simp
    have d: "d = c @ drop (length c) d" "drop (length c) d @ z = pending r"
      using p "1.prems"(3,4) le by (metis append_eq_append_conv_if append_take_drop_id)+
    have h: "healthy ?s" using e c by (simp add: healthy_def)
    obtain t' s' where r: "forward_loop (n - length c) (feed_opt c t) ?s = (Inr (), t', s')"
      "moved (drop (length c) d) (drop (length c) d) ?s s'" "captures_more (feed_opt c t) (drop (length c) d) t'"
      using "1.IH" [OF False rd [symmetric] c(1) ne w [symmetric] refl h, of "drop (length c) d"] False "1.prems"(2,4) d(2)
      by auto
    have "moved c c s ?s" using h p "1.prems"(2) False by (simp add: moved_def stream_def)
    then have "moved d d s s'" using moved_trans [OF _ r(2), of c c s] d(1) by metis
    moreover have "captures_more t d t'" using captures_more_trans [OF captures_more_simps(2) r(3)] d(1) by metis
    ultimately show ?thesis using r(1) rd c ne w False by (simp add: forward_loop.simps [of n])
  qed
qed

lemma forward_exact_forwards:
  assumes "healthy s" "stream s = d @ z"
  shows "\<exists>t' s'. forward_exact (length d) (t, s) = (Inr (), t', s') \<and> moved d d s s' \<and> captures_more t d t'"
proof -
  let ?k = "min (length (buf s)) (length d)"
  let ?a = "take ?k (buf s)" and ?b = "drop ?k d"
  have ab: "?a = take ?k d" "drop ?k (buf s) @ pending (src s) = ?b @ z"
  proof -
    have "take ?k (buf s @ pending (src s)) = take ?k (d @ z)" "drop ?k (buf s @ pending (src s)) = drop ?k (d @ z)"
      using assms(2) by (simp_all add: stream_def)
    then show "?a = take ?k d" "drop ?k (buf s) @ pending (src s) = ?b @ z" by simp_all
  qed
  let ?s = "s\<lparr>dst := (dst s)\<lparr>sent := sent (dst s) @ ?a\<rparr>, buf := drop ?k (buf s)\<rparr>"
  have f: "flush_buf ?k s = (Inr (), ?s)"
    using assms(1) by (simp add: flush_buf_def write_io_def drop_buf_def healthy_def)
  have h: "healthy ?s" using assms(1) by (simp add: healthy_def)
  have "drop ?k (buf s) = [] \<or> length d - ?k = 0" by auto
  moreover have "pending (src ?s) = ?b @ drop (length ?b) (pending (src s))" if "drop ?k (buf s) = []"
    using ab(2) that by simp
  ultimately obtain t' s' where l: "forward_loop (length d - ?k) (feed_opt ?a t) ?s = (Inr (), t', s')"
    "moved ?b ?b ?s s'" "captures_more (feed_opt ?a t) ?b t'"
    using forward_loop_forwards [OF h, of "length d - ?k" ?b _ "feed_opt ?a t"] by fastforce
  have m: "moved ?a ?a s ?s" using h by (simp add: moved_def stream_def)
  have "moved d d s s'" using moved_trans [OF m l(2)] ab(1) by simp
  moreover have "captures_more t d t'" using captures_more_trans [OF captures_more_simps(2) l(3)] ab(1) by simp
  moreover have "forward_exact (length d) (t, s) = (Inr (), t', s')"
  proof (cases "?k > 0")
    case True
    with f l(1) show ?thesis by (simp add: forward_exact_def Let_def)
  next
    case False
    then have "buf s = [] \<or> d = []" by auto
    moreover have "?s = s" using False by (cases s) (auto simp: min_def split: if_splits)
    ultimately have "forward_loop (length d) t s = (Inr (), t', s')" using l(1) by auto
    with False show ?thesis by (auto simp: forward_exact_def Let_def)
  qed
  ultimately show ?thesis by blast
qed

text \<open>A body in chunks: for each chunk its size line and its data, then the size line of zero and the trailers.\<close>

definition chunk_ok :: "bytes \<times> bytes \<Rightarrow> bool" where
  "chunk_ok c \<longleftrightarrow> \<not> sublist CRLF (fst c) \<and> length (fst c) < 64 * 1024 \<and> chunk_size (fst c) = Some (length (snd c)) \<and> snd c \<noteq> []"

definition line_ok :: "bytes \<Rightarrow> bool" where
  "line_ok l \<longleftrightarrow> \<not> sublist CRLF l \<and> length l < 64 * 1024"

definition chunked_body :: "(bytes \<times> bytes) list \<Rightarrow> bytes \<Rightarrow> bytes list \<Rightarrow> bytes" where
  "chunked_body cs final trailers =
     concat (map (\<lambda>(l, d). l @ CRLF @ d @ CRLF) cs) @ final @ CRLF @ with_crlf trailers @ CRLF"

lemma moved_healthy: "moved i out s s' \<Longrightarrow> healthy s'" and moved_stream: "moved i out s s' \<Longrightarrow> stream s = i @ stream s'"
  by (simp_all add: moved_def)

lemma line_passes:
  assumes "healthy s" "stream s = l @ CRLF @ t" "line_ok l"
  shows "\<exists>s1 s2. read_line s = (Inr l, s1) \<and> write_line l s1 = (Inr (), s2) \<and> moved (l @ CRLF) (l @ CRLF) s s2"
proof -
  obtain s1 where 1: "read_line s = (Inr l, s1)" "moved (l @ CRLF) [] s s1"
    using read_line_reads [OF assms(1,2)] assms(3) by (auto simp: line_ok_def)
  obtain s2 where 2: "write_line l s1 = (Inr (), s2)" "moved [] (l @ CRLF) s1 s2"
    using write_line_writes [OF moved_healthy [OF 1(2)]] by blast
  from moved_trans [OF 1(2) 2(2)] 1(1) 2(1) show ?thesis by auto
qed

lemma forward_trailers_forwards:
  "healthy s \<Longrightarrow> stream s = with_crlf ls @ CRLF @ t \<Longrightarrow> list_all (\<lambda>l. line_ok l \<and> l \<noteq> []) ls \<Longrightarrow>
     \<exists>s'. forward_trailers s = (Inr (), s') \<and> moved (with_crlf ls @ CRLF) (with_crlf ls @ CRLF) s s'"
proof (induction ls arbitrary: s)
  case Nil
  then have "stream s = [] @ CRLF @ t" by (simp add: with_crlf_def)
  from line_passes [OF Nil.prems(1) this] show ?case
    by (force simp: forward_trailers.simps [of s] line_ok_def CRLF_def with_crlf_def)
next
  case (Cons l ls)
  then have st: "stream s = l @ CRLF @ with_crlf ls @ CRLF @ t" by (simp add: with_crlf_def)
  obtain s1 s2 where l: "read_line s = (Inr l, s1)" "write_line l s1 = (Inr (), s2)" "moved (l @ CRLF) (l @ CRLF) s s2"
    using line_passes [OF Cons.prems(1) st] Cons.prems(3) by auto
  have "stream s2 = with_crlf ls @ CRLF @ t" using moved_stream [OF l(3)] st by simp
  then obtain s' where r: "forward_trailers s2 = (Inr (), s')" "moved (with_crlf ls @ CRLF) (with_crlf ls @ CRLF) s2 s'"
    using Cons.IH [OF moved_healthy [OF l(3)]] Cons.prems(3) by auto
  have "moved (with_crlf (l # ls) @ CRLF) (with_crlf (l # ls) @ CRLF) s s'"
    using moved_trans [OF l(3) r(2)] by (simp add: with_crlf_def)
  with l(1,2) r(1) Cons.prems(3) show ?case by (simp add: forward_trailers.simps [of s])
qed

lemma forward_chunk_forwards:
  assumes "healthy s" "stream s = l @ CRLF @ d @ CRLF @ t" "chunk_ok (l, d)"
  shows "\<exists>t' s'. forward_chunk (tee, s) = (Inr (Some (length d)), t', s')
    \<and> moved (l @ CRLF @ d @ CRLF) (l @ CRLF @ d @ CRLF) s s' \<and> captures_more tee d t'"
proof -
  have ok: "line_ok l" "chunk_size l = Some (length d)" "length d \<noteq> 0" using assms(3) by (auto simp: chunk_ok_def line_ok_def)
  obtain s1 s2 where l: "read_line s = (Inr l, s1)" "write_line l s1 = (Inr (), s2)" "moved (l @ CRLF) (l @ CRLF) s s2"
    using line_passes [OF assms(1) _ ok(1)] assms(2) by blast
  have "stream s2 = d @ CRLF @ t" using moved_stream [OF l(3)] assms(2) by simp
  from forward_exact_forwards [OF moved_healthy [OF l(3)] this] obtain t' s3 where
    d: "forward_exact (length d) (tee, s2) = (Inr (), t', s3)" "moved d d s2 s3" "captures_more tee d t'" by blast
  have crlf2: "length CRLF = 2" by (simp add: CRLF_def)
  have "stream s3 = CRLF @ t" using moved_stream [OF d(2)] \<open>stream s2 = d @ CRLF @ t\<close> by simp
  from forward_exact_forwards [OF moved_healthy [OF d(2)] this, of None] obtain u s4 where
    e: "forward_exact 2 (None, s3) = (Inr (), u, s4)" "moved CRLF CRLF s3 s4" by (auto simp: crlf2)
  have "moved (l @ CRLF @ d @ CRLF) (l @ CRLF @ d @ CRLF) s s4"
    using moved_trans [OF moved_trans [OF l(3) d(2)] e(2)] by simp
  with l ok d e show ?thesis by (simp add: forward_chunk_def)
qed

lemma forward_last_chunk:
  assumes "healthy s" "stream s = l @ CRLF @ with_crlf ls @ CRLF @ t" "line_ok l" "chunk_size l = Some 0"
    and "list_all (\<lambda>l. line_ok l \<and> l \<noteq> []) ls"
  shows "\<exists>s'. forward_chunk (tee, s) = (Inr None, tee, s')
    \<and> moved (l @ CRLF @ with_crlf ls @ CRLF) (l @ CRLF @ with_crlf ls @ CRLF) s s'"
proof -
  obtain s1 s2 where l: "read_line s = (Inr l, s1)" "write_line l s1 = (Inr (), s2)" "moved (l @ CRLF) (l @ CRLF) s s2"
    using line_passes [OF assms(1,2,3)] by blast
  have "stream s2 = with_crlf ls @ CRLF @ t" using moved_stream [OF l(3)] assms(2) by simp
  from forward_trailers_forwards [OF moved_healthy [OF l(3)] this assms(5)] obtain s' where
    r: "forward_trailers s2 = (Inr (), s')" "moved (with_crlf ls @ CRLF) (with_crlf ls @ CRLF) s2 s'" by blast
  with l assms(4) moved_trans [OF l(3) r(2)] show ?thesis by (simp add: forward_chunk_def)
qed

lemma forward_chunked_forwards:
  "healthy s \<Longrightarrow> stream s = chunked_body cs final ls @ t \<Longrightarrow> list_all chunk_ok cs \<Longrightarrow>
   line_ok final \<Longrightarrow> chunk_size final = Some 0 \<Longrightarrow> list_all (\<lambda>l. line_ok l \<and> l \<noteq> []) ls \<Longrightarrow>
     \<exists>t' s'. forward_chunked tot tee s = (Inr (tot + length (concat (map snd cs))), t', s')
       \<and> moved (chunked_body cs final ls) (chunked_body cs final ls) s s' \<and> captures_more tee (concat (map snd cs)) t'"
proof (induction cs arbitrary: s tee tot)
  case Nil
  then have "stream s = final @ CRLF @ with_crlf ls @ CRLF @ t" by (simp add: chunked_body_def)
  from forward_last_chunk [OF Nil.prems(1) this Nil.prems(4-6), of tee] obtain s' where
    "forward_chunk (tee, s) = (Inr None, tee, s')"
    "moved (final @ CRLF @ with_crlf ls @ CRLF) (final @ CRLF @ with_crlf ls @ CRLF) s s'" by blast
  then show ?case by (simp add: forward_chunked.simps [of tot] chunked_body_def)
next
  case (Cons c cs)
  obtain l d where c: "c = (l, d)" by (cases c)
  let ?b = "chunked_body cs final ls"
  have b: "chunked_body (c # cs) final ls = l @ CRLF @ d @ CRLF @ ?b" by (simp add: chunked_body_def c)
  obtain ta sa where a: "forward_chunk (tee, s) = (Inr (Some (length d)), ta, sa)"
    "moved (l @ CRLF @ d @ CRLF) (l @ CRLF @ d @ CRLF) s sa" "captures_more tee d ta"
    using forward_chunk_forwards [OF Cons.prems(1), of l d "?b @ t" tee] Cons.prems(2,3) b c by auto
  have "stream sa = ?b @ t" using moved_stream [OF a(2)] Cons.prems(2) b by simp
  from Cons.IH [OF moved_healthy [OF a(2)] this, of "tot + length d" ta] Cons.prems(3-6) obtain tb sb where
    r: "forward_chunked (tot + length d) ta sa = (Inr (tot + length d + length (concat (map snd cs))), tb, sb)"
    "moved ?b ?b sa sb" "captures_more ta (concat (map snd cs)) tb" by auto
  have "moved (chunked_body (c # cs) final ls) (chunked_body (c # cs) final ls) s sb"
    using moved_trans [OF a(2) r(2)] b by simp
  moreover have "captures_more tee (concat (map snd (c # cs))) tb" using captures_more_trans [OF a(3) r(3)] c by simp
  ultimately show ?case using a(1) r(1) c by (simp add: forward_chunked.simps [of tot] add.assoc)
qed

section \<open>Properties\<close>

text \<open>
  C21. A body in chunks is relayed byte for byte, however it is cut into reads: the sizes, the
  extensions, the data and the trailers arrive as they were sent, what follows the body stays for the next
  message, the length reported is that of the data, and the capture holds the beginning of the data
  without the chunk lines.
\<close>

theorem chunked_body_relayed:
  assumes "healthy s" "stream s = chunked_body cs final trailers @ rest"
    and "list_all chunk_ok cs" "line_ok final" "chunk_size final = Some 0"
    and "list_all (\<lambda>l. line_ok l \<and> l \<noteq> []) trailers"
  shows "\<exists>s'. forward_chunked 0 (Some tee_default) s
      = (Inr (length (concat (map snd cs))),
         Some \<lparr>tee_data = take 4096 (concat (map snd cs)), tee_cut = (4096 < length (concat (map snd cs)))\<rparr>, s')
     \<and> sent (dst s') = sent (dst s) @ chunked_body cs final trailers \<and> stream s' = rest"
proof -
  obtain t' s' where f: "forward_chunked 0 (Some tee_default) s = (Inr (0 + length (concat (map snd cs))), t', s')"
    "moved (chunked_body cs final trailers) (chunked_body cs final trailers) s s'"
    "captures_more (Some tee_default) (concat (map snd cs)) t'"
    using forward_chunked_forwards [OF assms, of 0 "Some tee_default"] by blast
  from f(3) have "t' = Some (captured (concat (map snd cs)))" by (simp add: captures_more_def flip: captured_Nil)
  with f(1,2) assms(2) show ?thesis by (simp add: captured_def BODY_CAPTURE_def moved_def)
qed

theorem chunked_body_relayed_witness:
  "\<exists>s'. forward_chunked 0 (Some tee_default)
        \<lparr>buf = ''4;x'', src = [Chunk (CRLF @ ''Wi''), Chunk (''ki'' @ CRLF @ ''0'' @ CRLF @ CRLF @ ''GET'')], dst = \<lparr>sent = [], accepts = None\<rparr>\<rparr>
      = (Inr (length (concat (map snd [(''4;x'', ''Wiki'')]))),
         Some \<lparr>tee_data = take 4096 (concat (map snd [(''4;x'', ''Wiki'')])), tee_cut = (4096 < length (concat (map snd [(''4;x'', ''Wiki'')])))\<rparr>, s')
     \<and> sent (dst s') = [] @ chunked_body [(''4;x'', ''Wiki'')] ''0'' [] \<and> stream s' = ''GET''"
proof -
  let ?s = "\<lparr>buf = ''4;x'', src = [Chunk (CRLF @ ''Wi''), Chunk (''ki'' @ CRLF @ ''0'' @ CRLF @ CRLF @ ''GET'')], dst = \<lparr>sent = [], accepts = None\<rparr>\<rparr>"
  have h: "healthy ?s" by (simp add: healthy_def open_writer_def)
  have st: "stream ?s = chunked_body [(''4;x'', ''Wiki'')] ''0'' [] @ ''GET''"
    by (simp add: stream_def chunked_body_def with_crlf_def)
  have c: "list_all chunk_ok [(''4;x'', ''Wiki'')]" "line_ok ''0''" "chunk_size ''0'' = Some 0"
    unfolding chunk_ok_def line_ok_def contains_sub_sublist [symmetric] by code_simp+
  from chunked_body_relayed [OF h st c] show ?thesis by simp
qed

end
