(* ===== verification/Trace_Hub.thy ===== *)
theory Trace_Hub
  imports Protocol
begin

text \<open>
  The hub of observed exchanges (\<open>crates/solon-service/src/trace.rs\<close>): a bounded history, the last
  state of the probes, the projects whose bodies are captured, and the collector that follows the agent.
  What is broadcast is the list of events sent.
\<close>

definition HISTORY :: nat where "HISTORY = 20000"
definition CHANNEL :: nat where "CHANNEL = 1024"

record trace_hub =
  broadcasted :: "trace_event list"
  recent :: "trace_event list"
  probe_status :: trace_event
  body_projects :: "string set"

definition unavailable :: "string \<Rightarrow> trace_event" where
  "unavailable det = Status False det"

definition trace_hub_new :: trace_hub where
  "trace_hub_new =
     \<lparr>broadcasted = [], recent = [],
      probe_status = unavailable (''moteur arr'' @ [CHR 0xC3, CHR 0xAA] @ ''t'' @ [CHR 0xC3, CHR 0xA9]), body_projects = {}\<rparr>"

fun is_status :: "trace_event \<Rightarrow> bool" where
  "is_status (Status a d) = True"
| "is_status _ = False"

definition hub_push :: "trace_event \<Rightarrow> trace_hub \<Rightarrow> trace_hub" where
  "hub_push ev h =
     (let h1 = (if is_status ev then h\<lparr>probe_status := ev\<rparr>
                else h\<lparr>recent := (if length (recent h) = HISTORY then tl (recent h) else recent h) @ [ev]\<rparr>)
      in h1\<lparr>broadcasted := broadcasted h1 @ [ev]\<rparr>)"

definition backlog :: "trace_hub \<Rightarrow> trace_event list" where
  "backlog h = probe_status h # recent h"

definition hub_clear :: "string option \<Rightarrow> trace_hub \<Rightarrow> trace_hub" where
  "hub_clear proj h =
     (case proj of
        None \<Rightarrow> h\<lparr>recent := []\<rparr>
      | Some p \<Rightarrow> h\<lparr>recent := filter (\<lambda>e. project e \<noteq> Some p) (recent h)\<rparr>)"

definition set_body_projects :: "string list \<Rightarrow> trace_hub \<Rightarrow> trace_hub" where
  "set_body_projects ps h = h\<lparr>body_projects := set ps\<rparr>"

definition captures_bodies :: "string option \<Rightarrow> trace_hub \<Rightarrow> bool" where
  "captures_bodies proj h = (case proj of Some p \<Rightarrow> p \<in> body_projects h | None \<Rightarrow> False)"

definition set_unavailable :: "string \<Rightarrow> trace_hub \<Rightarrow> trace_hub" where
  "set_unavailable reason h = hub_push (unavailable reason) h"

text \<open>
  The collector: the connection, then what \<open>next\<close> gives one after the other, an event, the end or an
  error.
\<close>

datatype next_event = NextEvent trace_event | StreamClosed | StreamError string

fun collect :: "next_event list \<Rightarrow> trace_hub \<Rightarrow> trace_hub" where
  "collect [] h = h"
| "collect (NextEvent ev # rest) h = collect rest (hub_push ev h)"
| "collect (StreamClosed # rest) h = set_unavailable (''flux ferm'' @ [CHR 0xC3, CHR 0xA9] @ '' par l'' @ [CHR 0x27] @ ''agent'') h"
| "collect (StreamError e # rest) h = set_unavailable e h"

definition spawn_collector :: "string + next_event list \<Rightarrow> trace_hub \<Rightarrow> trace_hub" where
  "spawn_collector conn h = (case conn of Inl e \<Rightarrow> set_unavailable e h | Inr evs \<Rightarrow> collect evs h)"

section \<open>Lemmas\<close>

definition last_n :: "nat \<Rightarrow> 'a list \<Rightarrow> 'a list" where
  "last_n n xs = drop (length xs - n) xs"

lemma last_n_snoc:
  "0 < n \<Longrightarrow> last_n n (xs @ [x]) = (if length (last_n n xs) = n then tl (last_n n xs) else last_n n xs) @ [x]"
  by (cases "n \<le> length xs") (auto simp: last_n_def Suc_diff_le drop_Suc tl_drop)

lemma recent_pushes:
  "recent (fold hub_push evs h) = last_n HISTORY (recent h @ filter (\<lambda>e. \<not> is_status e) evs)
   \<and> probe_status (fold hub_push evs h) = last (probe_status h # filter is_status evs)
   \<and> broadcasted (fold hub_push evs h) = broadcasted h @ evs"
  if "length (recent h) \<le> HISTORY"
proof (induction evs rule: rev_induct)
  case Nil
  with that show ?case by (simp add: last_n_def)
next
  case (snoc ev evs)
  have "0 < HISTORY" by (simp add: HISTORY_def)
  with snoc show ?case
    using last_n_snoc [of HISTORY "recent h @ filter (\<lambda>e. \<not> is_status e) evs" ev]
    by (auto simp: hub_push_def Let_def)
qed

section \<open>Properties\<close>

text \<open>
  C23. The hub refines an unbounded log: whatever events come after a start, a new subscriber gets the
  last state of the probes and then exactly the last 20000 other events in their order, never more; what is
  broadcast is everything, in order; and a cleared project leaves the events of the others.
\<close>

theorem hub_shows_latest:
  "backlog (fold hub_push evs trace_hub_new)
     = last (probe_status trace_hub_new # filter is_status evs)
       # last_n 20000 (filter (\<lambda>e. \<not> is_status e) evs)
   \<and> broadcasted (fold hub_push evs trace_hub_new) = evs
   \<and> length (backlog (fold hub_push evs trace_hub_new)) \<le> 20001
   \<and> recent (hub_clear (Some p) (fold hub_push evs trace_hub_new))
       = filter (\<lambda>e. project e \<noteq> Some p) (last_n 20000 (filter (\<lambda>e. \<not> is_status e) evs))"
  using recent_pushes [of trace_hub_new evs]
  by (simp add: backlog_def hub_clear_def trace_hub_new_def HISTORY_def last_n_def)

end
