(* ===== verification/Guest_Network.thy ===== *)
theory Guest_Network
  imports Service_Types Json_Values Local_Domains Sha256
begin

text \<open>
  The network of the machine (\<open>crates/solon-service/src/network.rs\<close>): the range of addresses is chosen
  among candidates that no network of the host uses, then the network and its endpoint are created.  The
  calls of the Host Network Service and of the IP helper are the fields of \<open>hcn_api\<close>; a call that is
  made twice is numbered.
\<close>

definition NETWORK_NAME :: string where "NETWORK_NAME = ''Solon''"
definition NETWORK_ID :: string where "NETWORK_ID = ''50100000-0000-4000-8000-000000000001''"

definition CANDIDATE_PREFIXES :: "string list" where
  "CANDIDATE_PREFIXES = [''172.30.0'', ''172.30.1'', ''172.31.200'', ''192.168.190'', ''192.168.213'', ''10.250.250'']"

section \<open>Calls of Windows\<close>

record hcn_failure =
  hcn_code :: "32 word"
  hcn_message :: string
  hcn_record :: "string option"

record host_adapter =
  oper_status :: nat
  unicast_addresses :: "ipv4 list"
  dns_addresses :: "ipv4 list"

record hcn_api =
  hcn_enumerate :: "nat \<Rightarrow> hcn_failure + string option"
  hcn_open :: "string \<Rightarrow> hcn_failure + unit"
  hcn_query :: "string \<Rightarrow> hcn_failure + string option"
  hcn_delete :: "hcn_failure + unit"
  hcn_create_network :: "json \<Rightarrow> hcn_failure + unit"
  hcn_create_endpoint :: "json \<Rightarrow> hcn_failure + unit"
  hcn_endpoint_properties :: "hcn_failure + string option"
  guid_try_from :: "string \<Rightarrow> string + unit"
  new_guid :: string
  adapters_address :: "(nat \<times> host_adapter list) list"
  adapters_dns :: "(nat \<times> host_adapter list) list"
  parse_ids :: "string \<Rightarrow> string + string list"
  parse_json :: "string \<Rightarrow> string + json"
  no_range_text :: "string list \<Rightarrow> string"

definition hcn_err :: "string \<Rightarrow> hcn_failure \<Rightarrow> solon_error" where
  "hcn_err ctx e =
     (let msg = ctx @ '' : '' @ hcn_message e @ '' (0x'' @ to_ascii_uppercase (hex8 (hcn_code e)) @ '')'';
          msg = (case hcn_record e of
                   Some r \<Rightarrow> if trim r \<noteq> [] then msg @ '' '' @ [CHR 0xE2, CHR 0x80, CHR 0x94] @ '' '' @ r else msg
                 | None \<Rightarrow> msg)
      in with_hresult (solon_error_new HcsError msg) (hcn_code e))"

section \<open>What the machine is told\<close>

record guest_network =
  network_id :: string
  gn_endpoint_id :: string
  gn_mac_address :: string
  gn_address :: ipv4
  gn_prefix_len :: nat
  gn_gateway :: ipv4
  gn_dns :: "string list"

definition to_config :: "guest_network \<Rightarrow> network_config" where
  "to_config g =
     \<lparr>interface = ''eth0'', address = show_ipv4 (gn_address g), prefix_len = gn_prefix_len g,
      gateway = show_ipv4 (gn_gateway g), dns = gn_dns g, mtu = Some 1400, search_domains = []\<rparr>"

section \<open>Ranges in use\<close>

definition prefix_of_cidr :: "string \<Rightarrow> string option" where
  "prefix_of_cidr s = map_option fst (rsplit_once (CHR ''.'') (hd (split_on (CHR ''/'') s)))"

definition is_prefix_key :: "string \<Rightarrow> bool" where
  "is_prefix_key k \<longleftrightarrow> k = ''AddressPrefix'' \<or> k = ''IpAddressPrefix''"

text \<open>One entry of an object: a range is noted, anything else is looked into later.\<close>

fun visit_entry :: "string \<times> json \<Rightarrow> json list \<times> string list \<Rightarrow> json list \<times> string list" where
  "visit_entry (k, JString s) (stack, out) =
     (if is_prefix_key k then (stack, out @ (case prefix_of_cidr s of Some p \<Rightarrow> [p] | None \<Rightarrow> []))
      else (JString s # stack, out))"
| "visit_entry (k, v) (stack, out) = (v # stack, out)"

fun json_weight :: "json \<Rightarrow> nat" where
  "json_weight (JObject kvs) = Suc (sum_list (map (\<lambda>kv. json_weight (snd kv)) kvs))"
| "json_weight (JArray vs) = Suc (sum_list (map json_weight vs))"
| "json_weight v = 1"

lemma visit_entry_weight:
  "sum_list (map json_weight (fst (visit_entry kv (stack, out)))) \<le> json_weight (snd kv) + sum_list (map json_weight stack)"
  by (cases "(kv, (stack, out))" rule: visit_entry.cases) auto

lemma visit_entries_weight:
  "sum_list (map json_weight (fst (fold visit_entry kvs (stack, out))))
     \<le> sum_list (map (\<lambda>kv. json_weight (snd kv)) kvs) + sum_list (map json_weight stack)"
proof (induction kvs arbitrary: stack out)
  case (Cons kv kvs)
  obtain st o' where v: "visit_entry kv (stack, out) = (st, o')" by fastforce
  show ?case using Cons [of st o'] visit_entry_weight [of kv stack out] by (simp add: v)
qed simp

lemma visit_entries_less:
  "(stack', out') = fold visit_entry kvs (stack, out) \<Longrightarrow>
     sum_list (map json_weight stack') < Suc (sum_list (map (\<lambda>kv. json_weight (snd kv)) kvs) + sum_list (map json_weight stack))"
  using visit_entries_weight [of kvs stack out] by (metis fst_conv less_Suc_eq_le)

function walk_prefixes :: "json list \<Rightarrow> string list \<Rightarrow> string list" where
  "walk_prefixes [] out = out"
| "walk_prefixes (v # stack) out =
     (case v of
        JObject kvs \<Rightarrow> (case fold visit_entry kvs (stack, out) of (stack', out') \<Rightarrow> walk_prefixes stack' out')
      | JArray vs \<Rightarrow> walk_prefixes (rev vs @ stack) out
      | _ \<Rightarrow> walk_prefixes stack out)"
  by pat_completeness auto
termination
  by (relation "measure (\<lambda>(stack, out). sum_list (map json_weight stack))")
    (auto simp: rev_map [symmetric] sum_list_rev split: prod.split dest: visit_entries_less [OF sym])

definition extract_prefixes :: "json \<Rightarrow> string list" where
  "extract_prefixes props = walk_prefixes [props] []"

definition enumerate_networks :: "hcn_api \<Rightarrow> nat \<Rightarrow> solon_error + string list" where
  "enumerate_networks api n =
     (case hcn_enumerate api n of
        Inl e \<Rightarrow> Inl (hcn_err ''HcnEnumerateNetworks'' e)
      | Inr doc \<Rightarrow>
          (case parse_ids api (case doc of Some t \<Rightarrow> t | None \<Rightarrow> ''[]'') of
             Inl e \<Rightarrow> Inl (internal_error (''liste HNS illisible : '' @ e))
           | Inr ids \<Rightarrow> Inr ids))"

definition network_properties :: "hcn_api \<Rightarrow> string \<Rightarrow> solon_error + json" where
  "network_properties api i =
     (case guid_try_from api i of
        Inl e \<Rightarrow> Inl (internal_error (''GUID HNS '' @ i @ '' : '' @ e))
      | Inr _ \<Rightarrow>
          (case hcn_open api i of
             Inl e \<Rightarrow> Inl (hcn_err ''HcnOpenNetwork'' e)
           | Inr _ \<Rightarrow>
               (case hcn_query api i of
                  Inl e \<Rightarrow> Inl (hcn_err ''HcnQueryNetworkProperties'' e)
                | Inr doc \<Rightarrow>
                    (case parse_json api (case doc of Some t \<Rightarrow> t | None \<Rightarrow> ''{}'') of
                       Inl e \<Rightarrow> Inl (internal_error (''propri'' @ [CHR 0xC3, CHR 0xA9] @ ''t'' @ [CHR 0xC3, CHR 0xA9] @ ''s HNS illisibles : '' @ e))
                     | Inr v \<Rightarrow> Inr v))))"

text \<open>
  The three attempts with a growing buffer: 111 asks for a larger one, and a buffer that was never
  filled has no adapter.
\<close>

fun query_adapters :: "(nat \<times> host_adapter list) list \<Rightarrow> host_adapter list" where
  "query_adapters [] = []"
| "query_adapters ((rc, found) # rest) =
     (if rc = 111 then query_adapters rest else if rc \<noteq> 0 then [] else found)"

definition host_adapter_prefixes :: "hcn_api \<Rightarrow> string list" where
  "host_adapter_prefixes api =
     concat (map (\<lambda>a. map (\<lambda>ip. join_with ''.'' (map dec_of_nat (take 3 ip))) (unicast_addresses a))
       (query_adapters (take 3 (adapters_address api))))"

definition keep_dns :: "ipv4 \<Rightarrow> string list \<Rightarrow> string list" where
  "keep_dns addr out =
     (let ip = show_ipv4 addr
      in if ip \<notin> set out \<and> \<not> prefix ''127.'' ip \<and> \<not> prefix ''172.30.'' ip then out @ [ip] else out)"

definition host_dns_servers :: "hcn_api \<Rightarrow> string list" where
  "host_dns_servers api =
     fold (\<lambda>a out. if oper_status a = 1 then fold keep_dns (dns_addresses a) out else out)
       (query_adapters (take 3 (adapters_dns api))) []"

definition used_prefixes :: "hcn_api \<Rightarrow> nat \<Rightarrow> string list" where
  "used_prefixes api n =
     (case enumerate_networks api n of
        Inl _ \<Rightarrow> []
      | Inr ids \<Rightarrow> concat (map (\<lambda>i. case network_properties api i of Inl _ \<Rightarrow> [] | Inr props \<Rightarrow> extract_prefixes props) ids))
     @ host_adapter_prefixes api"

definition network_exists :: "hcn_api \<Rightarrow> nat \<Rightarrow> bool" where
  "network_exists api n =
     (case enumerate_networks api n of
        Inl _ \<Rightarrow> False
      | Inr ids \<Rightarrow> list_ex (\<lambda>x. to_ascii_lowercase x = to_ascii_lowercase NETWORK_ID) ids)"

definition delete_network :: "hcn_api \<Rightarrow> nat \<Rightarrow> solon_error + unit" where
  "delete_network api n =
     (if \<not> network_exists api n then Inr ()
      else (case hcn_delete api of Inl e \<Rightarrow> Inl (hcn_err ''HcnDeleteNetwork'' e) | Inr u \<Rightarrow> Inr u))"

definition choose_prefix :: "hcn_api \<Rightarrow> nat \<Rightarrow> solon_error + string" where
  "choose_prefix api n =
     (let used = used_prefixes api n
      in (case find (\<lambda>p. p \<notin> set used) CANDIDATE_PREFIXES of
            Some p \<Rightarrow> Inr p
          | None \<Rightarrow> Inl (solon_error_new HcsError (no_range_text api used))))"

section \<open>The network and its endpoint\<close>

definition network_settings :: "string \<Rightarrow> json" where
  "network_settings p =
     JObject [(''Name'', JString NETWORK_NAME), (''Type'', JString ''ICS''), (''Flags'', JNumber ''9''),
       (''IsolateSwitch'', JBool True), (''IPv6'', JBool False),
       (''Subnets'', JArray [JObject
          [(''AddressPrefix'', JString (p @ ''.0/24'')), (''GatewayAddress'', JString (p @ ''.1'')),
           (''IpSubnets'', JArray [JObject [(''IpAddressPrefix'', JString (p @ ''.0/24''))]])]])]"

definition endpoint_settings :: "ipv4 \<Rightarrow> ipv4 \<Rightarrow> json" where
  "endpoint_settings guest gw =
     JObject [(''VirtualNetwork'', JString NETWORK_ID), (''IPAddress'', JString (show_ipv4 guest)),
       (''PrefixLength'', JNumber ''24''), (''GatewayAddress'', JString (show_ipv4 gw))]"

definition as_str :: "json option \<Rightarrow> string option" where
  "as_str v = (case v of Some (JString s) \<Rightarrow> Some s | _ \<Rightarrow> None)"

definition ensure_network_and_endpoint :: "hcn_api \<Rightarrow> solon_error + guest_network" where
  "ensure_network_and_endpoint api =
     (case delete_network api 0 of
        Inl e \<Rightarrow> Inl e
      | Inr _ \<Rightarrow>
     (case choose_prefix api 1 of
        Inl e \<Rightarrow> Inl e
      | Inr p \<Rightarrow>
          let gw = the (parse_ipv4 (p @ ''.1''));
              guest = the (parse_ipv4 (p @ ''.2''))
          in
     (case hcn_create_network api (network_settings p) of
        Inl e \<Rightarrow> Inl (hcn_err ''HcnCreateNetwork'' e)
      | Inr _ \<Rightarrow>
     (case hcn_create_endpoint api (endpoint_settings guest gw) of
        Inl e \<Rightarrow> Inl (hcn_err ''HcnCreateEndpoint'' e)
      | Inr _ \<Rightarrow>
     (case hcn_endpoint_properties api of
        Inl e \<Rightarrow> Inl (hcn_err ''HcnQueryEndpointProperties'' e)
      | Inr doc \<Rightarrow>
          let props = (case parse_json api (case doc of Some t \<Rightarrow> t | None \<Rightarrow> ''{}'') of Inl _ \<Rightarrow> JNull | Inr v \<Rightarrow> v);
              mac = (case as_str (obj_get ''MacAddress'' props) of Some m \<Rightarrow> m | None \<Rightarrow> []);
              addr = (case Option.bind (as_str (obj_get ''IPAddress'' props)) parse_ipv4 of Some a \<Rightarrow> a | None \<Rightarrow> guest);
              servers = host_dns_servers api
          in Inr \<lparr>network_id = NETWORK_ID, gn_endpoint_id = to_ascii_lowercase (new_guid api), gn_mac_address = mac,
                  gn_address = addr, gn_prefix_len = 24, gn_gateway = gw,
                  gn_dns = (if servers = [] then [''1.1.1.1'', ''8.8.8.8''] else servers)\<rparr>)))))"

definition delete_endpoint :: "hcn_api \<Rightarrow> (string \<Rightarrow> hcn_failure + unit) \<Rightarrow> string \<Rightarrow> solon_error + unit" where
  "delete_endpoint api hcn_delete_endpoint i =
     (case guid_try_from api i of
        Inl e \<Rightarrow> Inl (internal_error (''GUID endpoint '' @ i @ '' : '' @ e))
      | Inr _ \<Rightarrow> (case hcn_delete_endpoint i of Inl e \<Rightarrow> Inl (hcn_err ''HcnDeleteEndpoint'' e) | Inr u \<Rightarrow> Inr u))"

section \<open>Lemmas\<close>

text \<open>The ranges of a document by recursion over it.\<close>

fun string_prefix :: "json \<Rightarrow> string set option" where
  "string_prefix (JString s) = Some (set_option (prefix_of_cidr s))"
| "string_prefix _ = None"

fun prefixes_in :: "json \<Rightarrow> string set" where
  "prefixes_in (JObject kvs) =
     (\<Union>kv \<in> set kvs.
        (if is_prefix_key (fst kv) \<and> string_prefix (snd kv) \<noteq> None then the (string_prefix (snd kv)) else prefixes_in (snd kv)))"
| "prefixes_in (JArray vs) = (\<Union>v \<in> set vs. prefixes_in v)"
| "prefixes_in v = {}"

definition entry_prefixes :: "string \<times> json \<Rightarrow> string set" where
  "entry_prefixes kv =
     (if is_prefix_key (fst kv) \<and> string_prefix (snd kv) \<noteq> None then the (string_prefix (snd kv)) else prefixes_in (snd kv))"

lemma prefixes_in_object: "prefixes_in (JObject kvs) = (\<Union>kv \<in> set kvs. entry_prefixes kv)"
  by (simp add: entry_prefixes_def)

definition walk_result :: "json list \<times> string list \<Rightarrow> string set" where
  "walk_result so = set (snd so) \<union> (\<Union>v \<in> set (fst so). prefixes_in v)"

lemma visit_entry_result: "walk_result (visit_entry kv so) = walk_result so \<union> entry_prefixes kv"
  by (cases "(kv, so)" rule: visit_entry.cases)
    (auto simp: walk_result_def entry_prefixes_def split: option.split)

lemma visit_entries_result:
  "walk_result (fold visit_entry kvs so) = walk_result so \<union> (\<Union>kv \<in> set kvs. entry_prefixes kv)"
  by (induction kvs arbitrary: so) (auto simp: visit_entry_result)

lemma walk_prefixes_result: "set (walk_prefixes stack out) = walk_result (stack, out)"
proof (induction stack out rule: walk_prefixes.induct)
  case (1 out)
  show ?case by (simp add: walk_result_def)
next
  case (2 v stack out)
  show ?case
  proof (cases v)
    case (JObject kvs)
    obtain st o' where f: "fold visit_entry kvs (stack, out) = (st, o')" by fastforce
    have "walk_result (st, o') = walk_result (stack, out) \<union> prefixes_in v"
      using visit_entries_result [of kvs "(stack, out)"] f JObject by (simp only: prefixes_in_object)
    then show ?thesis using 2(6) [OF JObject f [symmetric]] f JObject
      by (simp del: prefixes_in.simps) (auto simp: walk_result_def simp del: prefixes_in.simps)
  next
    case (JArray vs)
    then show ?thesis using 2(5) [OF JArray] by (auto simp: walk_result_def)
  qed (use 2 in \<open>auto simp: walk_result_def\<close>)
qed

lemma set_extract_prefixes: "set (extract_prefixes v) = prefixes_in v"
  by (simp only: extract_prefixes_def walk_prefixes_result) (simp add: walk_result_def)

lemma candidate_addresses:
  "p \<in> set CANDIDATE_PREFIXES \<Longrightarrow>
     \<exists>a b c. parse_ipv4 (p @ ''.1'') = Some [a, b, c, 1] \<and> parse_ipv4 (p @ ''.2'') = Some [a, b, c, 2]"
  by (auto simp: CANDIDATE_PREFIXES_def parse_ipv4_def Let_def parse_octet_def parse_uint_def is_ascii_digit_def digit_value_def)

lemma choose_prefix_free:
  assumes "choose_prefix api n = Inr p"
  shows "p \<in> set CANDIDATE_PREFIXES" and "p \<notin> set (used_prefixes api n)"
  using assms by (auto simp: choose_prefix_def Let_def find_Some_iff split: option.splits)

definition listed_networks :: "hcn_api \<Rightarrow> nat \<Rightarrow> json set" where
  "listed_networks api n =
     {props. \<exists>ids. enumerate_networks api n = Inr ids \<and> (\<exists>i \<in> set ids. network_properties api i = Inr props)}"

lemma set_used_prefixes:
  "set (used_prefixes api n) = \<Union> (prefixes_in ` listed_networks api n) \<union> set (host_adapter_prefixes api)"
proof (cases "enumerate_networks api n")
  case (Inr ids)
  have "set (case network_properties api i of Inl _ \<Rightarrow> [] | Inr props \<Rightarrow> extract_prefixes props)
      = \<Union> (prefixes_in ` {props. network_properties api i = Inr props})" for i
    by (cases "network_properties api i") (auto simp: set_extract_prefixes)
  with Inr show ?thesis by (auto simp: used_prefixes_def listed_networks_def)
qed (simp add: used_prefixes_def listed_networks_def)

lemma ensure_network_result:
  assumes "ensure_network_and_endpoint api = Inr g"
  shows "\<exists>p. choose_prefix api 1 = Inr p \<and> gn_gateway g = the (parse_ipv4 (p @ ''.1'')) \<and> gn_prefix_len g = 24
     \<and> gn_dns g \<noteq> [] \<and> (hcn_endpoint_properties api = Inr None \<and> parse_json api ''{}'' = Inr (JObject [])
          \<longrightarrow> gn_address g = the (parse_ipv4 (p @ ''.2'')))"
proof -
  from assms obtain p where "choose_prefix api 1 = Inr p"
    by (auto simp: ensure_network_and_endpoint_def split: sum.splits)
  then show ?thesis using assms
    by (auto simp: ensure_network_and_endpoint_def Let_def as_str_def split: sum.splits if_splits)
qed

section \<open>Properties\<close>


definition quiet_host :: hcn_api where
  "quiet_host =
     \<lparr>hcn_enumerate = \<lambda>n. Inr (Some ''ids''), hcn_open = \<lambda>i. Inr (), hcn_query = \<lambda>i. Inr (Some ''doc''), hcn_delete = Inr (),
      hcn_create_network = \<lambda>j. Inr (), hcn_create_endpoint = \<lambda>j. Inr (), hcn_endpoint_properties = Inr None,
      guid_try_from = \<lambda>s. Inr (), new_guid = ''7'', adapters_address = [(0, [])], adapters_dns = [(0, [])],
      parse_ids = \<lambda>t. Inr [''n1''],
      parse_json = \<lambda>t. Inr (if t = ''doc'' then JObject [(''Subnets'', JArray [JObject [(''AddressPrefix'', JString ''172.30.0.0/16'')]])]
                           else JObject []),
      no_range_text = \<lambda>u. []\<rparr>"

lemma quiet_host_used: "used_prefixes quiet_host n = [''172.30.0'']"
  by (simp add: used_prefixes_def enumerate_networks_def network_properties_def quiet_host_def extract_prefixes_def
      is_prefix_key_def prefix_of_cidr_def rsplit_once_def host_adapter_prefixes_def)

lemma quiet_host_choice: "choose_prefix quiet_host n = Inr ''172.30.1''"
  by (simp add: choose_prefix_def quiet_host_used CANDIDATE_PREFIXES_def)

lemma quiet_host_network:
  "ensure_network_and_endpoint quiet_host
     = Inr \<lparr>network_id = NETWORK_ID, gn_endpoint_id = ''7'', gn_mac_address = [], gn_address = [172, 30, 1, 2],
            gn_prefix_len = 24, gn_gateway = [172, 30, 1, 1], gn_dns = [''1.1.1.1'', ''8.8.8.8'']\<rparr>"
  unfolding ensure_network_and_endpoint_def quiet_host_choice
  by (simp add: delete_network_def network_exists_def enumerate_networks_def NETWORK_ID_def to_ascii_lowercase_def ascii_lower_def
      quiet_host_def as_str_def host_dns_servers_def parse_ipv4_def parse_octet_def parse_uint_def is_ascii_digit_def digit_value_def)

lemma quiet_host_in_use: "\<Union> (prefixes_in ` listed_networks quiet_host n) = {''172.30.0''}"
  using set_used_prefixes [of quiet_host n] unfolding quiet_host_used
  by (simp add: host_adapter_prefixes_def) (simp add: quiet_host_def)


text \<open>
  Only the first three numbers of a range are compared: next to a network that holds all of
  172.30.0.0/16, the candidate 172.30.1 inside it is chosen.
\<close>

theorem wider_range_overlooked:
  "listed_networks quiet_host 1 = {JObject [(''Subnets'', JArray [JObject [(''AddressPrefix'', JString ''172.30.0.0/16'')]])]}
   \<and> choose_prefix quiet_host 1 = Inr ''172.30.1''"
  by (simp add: quiet_host_choice) (auto simp: listed_networks_def enumerate_networks_def network_properties_def quiet_host_def)

end
