(* ===== verification/Engine_Parts.thy ===== *)
theory Engine_Parts
  imports Guest_Network Settings_Store Sleeper Port_Relays Trace_Hub Host_Paths
begin

text \<open>
  The data of the engine and the functions beside its methods (\<open>crates/solon-service/src/engine.rs\<close>):
  the drives mounted at boot, the kernel command line, the description of the machine, the
  list of what runs, quoting for the shell and the lines of the console.
\<close>

definition CONSOLE_PIPE :: string where "CONSOLE_PIPE = pipe_name ''solon-console''"

section \<open>State\<close>

record engine_config =
  cfg_root :: string
  cfg_image_dir :: string
  cfg_settings :: solon_settings

text \<open>The tasks of a machine, by what they do.\<close>

datatype engine_task =
    SleepLoop | SleepWatch | HttpProxy | TlsProxy | EventLoop | TraceCollector | ExitWatcher
  | FileServing | ExecRelay | ShellRelay | ConsoleLogger

text \<open>The map of shares is an association list: its order stands for the order the hash map is walked.\<close>

record running_vm =
  run_vm :: string
  run_guid :: string
  run_network :: guest_network
  run_tasks :: "engine_task list"
  run_ports :: port_relays
  run_shares :: "(string \<times> host_share) list"

text \<open>What the engine asks of Windows, of the agent and of the \<open>hosts\<close> file, in order.\<close>

datatype host_call =
    TerminateOrphans
  | DeleteNetwork
  | CreateMachine vm_config
  | StartMachine string
  | TerminateMachine string
  | AgentCall agent_command
  | EnsureRoute ipv4
  | RemoveRoute
  | HostsBlock domain_map
  | AddShare host_share
  | RemoveShare host_share

text \<open>
  \<open>eng_pending\<close> is the machine \<open>start\<close> has attached and not yet published, \<open>eng_due\<close> and
  \<open>eng_resuming\<close> the restarts of containers whose task waits to read the state and to run its script.
  \<open>eng_state_file\<close> is the state as \<open>load_state\<close> reads it.
\<close>

record engine =
  eng_cfg :: engine_config
  eng_snapshot :: engine_snapshot
  eng_events :: "service_event list"
  eng_running :: "running_vm option"
  eng_pending :: "running_vm option"
  eng_stopping :: bool
  eng_domains :: domain_map
  eng_sleeper :: sleep_state
  eng_sleep_settings :: sleep_settings
  eng_endpoints :: "container_endpoint list"
  eng_trace :: trace_hub
  eng_state_file :: persisted_state
  eng_calls :: "host_call list"
  eng_due :: nat
  eng_resuming :: "(string list \<times> string list) list"

section \<open>Functions\<close>

definition sleep_settings_of :: "solon_settings \<Rightarrow> sleep_settings" where
  "sleep_settings_of s =
     \<lparr>enabled = sleep_enabled s, idle = max 1 (sleep_idle_minutes s) * 60 * 1000, never = set (sleep_never s)\<rparr>"

definition shell_quote :: "string \<Rightarrow> string" where
  "shell_quote s =
     [CHR 0x27] @ concat (map (\<lambda>c. if c = CHR 0x27 then [CHR 0x27, CHR 0x5C, CHR 0x27, CHR 0x27] else [c]) s) @ [CHR 0x27]"

definition drive_root :: "string \<Rightarrow> string" where
  "drive_root drive = to_ascii_uppercase drive @ [CHR '':'', CHR 0x5C]"

definition boot_share :: "nat \<Rightarrow> string \<Rightarrow> host_share" where
  "boot_share i drive =
     \<lparr>share_name = drive, share_host_path = drive_root drive, share_port = 9100 + i, share_read_only = False\<rparr>"

definition boot_shares :: "(string \<Rightarrow> bool) \<Rightarrow> string list \<Rightarrow> host_share list" where
  "boot_shares present drives =
     map (\<lambda>(i, drive). boot_share i drive) (enumerate 0 (filter (\<lambda>d. present (drive_root d)) drives))"

definition share_text :: "host_share \<Rightarrow> string" where
  "share_text sh = share_name sh @ '':'' @ dec_of_nat (share_port sh)"

definition machine_cmdline :: "string \<Rightarrow> host_share list \<Rightarrow> bool \<Rightarrow> string" where
  "machine_cmdline base bs nine_p =
     base @ (if bs \<noteq> [] then '' solon.shares='' @ join_with '','' (map share_text bs) else [])
          @ (if nine_p then '' solon.fs=9p'' else [])"

definition machine_config ::
  "string \<Rightarrow> resolved_image \<Rightarrow> solon_settings \<Rightarrow> bool \<Rightarrow> string \<Rightarrow> guest_network \<Rightarrow> host_share list \<Rightarrow> vm_config" where
  "machine_config root img stg home vm_id net bs =
     \<lparr>vm_config_id = vm_id, vm_name = ''solon'', vm_kernel = image_kernel img, vm_initrd = image_initrd img,
      cmdline = machine_cmdline (kernel_cmdline (manifest img)) bs (legacy_file_sharing stg \<and> \<not> home),
      vm_memory_mb = memory_mb stg, vm_processors = processors stg,
      disks = [\<lparr>disk_path = image_rootfs img, disk_read_only = True\<rparr>,
               \<lparr>disk_path = data_disk_path root, disk_read_only = False\<rparr>],
      shares = bs, serial_pipe = Some CONSOLE_PIPE,
      network_adapter = Some \<lparr>na_endpoint_id = gn_endpoint_id net,
        mac_address = (if gn_mac_address net = [] then None else Some (gn_mac_address net))\<rparr>\<rparr>"

text \<open>The first free port from 9100 on.\<close>

lemma fewer_above: "p \<in> set used \<Longrightarrow> card {q \<in> set used. Suc p \<le> q} < card {q \<in> set used. p \<le> q}"
  by (rule psubset_card_mono, simp, rule psubsetI, force, rule notI) (metis (mono_tags, lifting) mem_Collect_eq not_less_eq_eq order_refl)

function first_free :: "nat list \<Rightarrow> nat \<Rightarrow> nat" where
  "first_free used p = (if p \<in> set used then first_free used (Suc p) else p)"
  by pat_completeness auto
termination
  by (relation "measure (\<lambda>(used, p). card {q \<in> set used. p \<le> q})") (auto intro: fewer_above)

declare first_free.simps [simp del]

section \<open>What runs\<close>

definition ps_command :: string where
  "ps_command =
     ''docker ps --no-trunc --format '' @ [CHR 0x27] @ ''{{.ID}}'' @ [CHR 0x09] @ ''{{.Label ''
     @ [CHR 0x22] @ ''com.docker.compose.project'' @ [CHR 0x22] @ ''}}'' @ [CHR 0x27]"

definition note_project :: "string \<Rightarrow> string list \<Rightarrow> string list" where
  "note_project p ps = (if p \<in> set ps then ps else ps @ [p])"

definition note_line :: "string \<Rightarrow> string list \<times> string list \<Rightarrow> string list \<times> string list" where
  "note_line line acc =
     (let parts = split_on (CHR 0x09) line;
          i = trim (hd parts);
          proj = trim (if tl parts = [] then [] else hd (tl parts))
      in if i = [] then acc
         else if proj = [] then (fst acc, snd acc @ [i])
         else (note_project proj (fst acc), snd acc))"

definition parse_running :: "string \<Rightarrow> string list \<times> string list" where
  "parse_running out = fold note_line (str_lines out) ([], [])"

definition running_now :: "solon_error + exec_result \<Rightarrow> string list \<times> string list" where
  "running_now answer = (case answer of Inl _ \<Rightarrow> ([], []) | Inr r \<Rightarrow> parse_running (stdout r))"

text \<open>The fall-back on the last list the agent announced.\<close>

definition note_endpoint_runs :: "container_endpoint \<Rightarrow> string list \<times> string list \<Rightarrow> string list \<times> string list" where
  "note_endpoint_runs ep acc =
     (case ep_compose_project ep of
        Some p \<Rightarrow> (note_project p (fst acc), snd acc)
      | None \<Rightarrow> (fst acc, snd acc @ [ep_id ep]))"

section \<open>Restarting what ran\<close>

definition echoed :: "string \<Rightarrow> string" where "echoed s = [CHR 0x22] @ s @ [CHR 0x22]"

definition project_script :: "string \<Rightarrow> string" where
  "project_script p =
     (let q = shell_quote p
      in ''docker compose -p '' @ q @ '' start >/dev/null 2>&1 || docker start $(docker ps -aq --filter label=com.docker.compose.project=''
         @ q @ '') >/dev/null 2>&1 && echo '' @ echoed (''project '' @ q @ '' started'') @ '' || echo ''
         @ echoed (''project '' @ q @ '' failed'') @ [LF])"

definition containers_script :: "string list \<Rightarrow> string" where
  "containers_script cs =
     ''docker start '' @ join_with '' '' (map shell_quote cs) @ '' >/dev/null 2>&1 && echo ''
     @ echoed ''containers started'' @ '' || echo '' @ echoed ''containers failed'' @ [LF]"

definition resume_script :: "string list \<Rightarrow> string list \<Rightarrow> string" where
  "resume_script ps cs = concat (map project_script ps) @ (if cs \<noteq> [] then containers_script cs else [])"

definition resumed_event :: "string list \<Rightarrow> string list \<Rightarrow> string \<Rightarrow> service_event option" where
  "resumed_event ps cs out =
     (let started = filter (\<lambda>p. contains_sub (''project '' @ [CHR 0x27] @ p @ [CHR 0x27] @ '' started'') out) ps;
          all_cs = contains_sub ''containers started'' out
      in if started \<noteq> [] \<or> (cs \<noteq> [] \<and> all_cs)
         then Some (EvResumed started (if all_cs then length cs else 0)) else None)"

section \<open>The console\<close>

text \<open>The lines of the serial console: cut at line feeds over reads, and the level each is logged at.\<close>

definition important_line :: "string \<Rightarrow> bool" where
  "important_line t \<longleftrightarrow> contains_sub ''[solon-agent'' t \<or> contains_sub ''SOLON-'' t
     \<or> contains_sub ''level=error'' t \<or> contains_sub ''level=fatal'' t"

definition trim_line_end :: "string \<Rightarrow> string" where
  "trim_line_end s = rev (dropWhile (\<lambda>c. c = CR \<or> c = LF) (rev s))"

function drain_lines :: "bytes \<Rightarrow> (bool \<times> string) list \<Rightarrow> bytes \<times> (bool \<times> string) list" where
  "drain_lines pend logged =
     (case find_byte (\<lambda>c. c = LF) pend of
        None \<Rightarrow> (pend, logged)
      | Some pos \<Rightarrow>
          let line = take (Suc pos) pend; text = trim_line_end (from_utf8_lossy line)
          in drain_lines (drop (Suc pos) pend) (logged @ [(important_line text, text)]))"
  by pat_completeness auto
termination
  by (relation "measure (\<lambda>(pend, logged). length pend)") (auto simp: find_byte_Some)

fun console_log :: "bytes list \<Rightarrow> bytes \<Rightarrow> (bool \<times> string) list \<Rightarrow> (bool \<times> string) list" where
  "console_log [] pend logged = logged"
| "console_log (chunk # rest) pend logged =
     (if chunk = [] then logged
      else (case drain_lines (pend @ chunk) logged of (pend', logged') \<Rightarrow> console_log rest pend' logged'))"

section \<open>Quoting read by a shell\<close>

text \<open>
  How a POSIX shell reads the words of a command: blanks part them, a single quote takes all up to the
  next one, a backslash takes the next character; any character with another meaning is refused.
\<close>

definition shell_plain :: "char \<Rightarrow> bool" where
  "shell_plain c \<longleftrightarrow> is_ascii_alphanumeric c \<or> c \<in> set ''_-./:,+@''"

function (sequential) sh_words :: "string option \<Rightarrow> string \<Rightarrow> string list option"
  and sh_quoted :: "string \<Rightarrow> string \<Rightarrow> string list option" where
  "sh_words w [] = Some (case w of None \<Rightarrow> [] | Some x \<Rightarrow> [x])"
| "sh_words w (c # s) =
     (let cur = (case w of None \<Rightarrow> [] | Some x \<Rightarrow> x)
      in if c = CHR '' '' then (case w of None \<Rightarrow> sh_words None s | Some x \<Rightarrow> map_option (Cons x) (sh_words None s))
         else if c = CHR 0x27 then sh_quoted cur s
         else if c = CHR 0x5C then (if s = [] then None else sh_words (Some (cur @ [hd s])) (tl s))
         else if shell_plain c then sh_words (Some (cur @ [c])) s
         else None)"
| "sh_quoted w [] = None"
| "sh_quoted w (c # s) = (if c = CHR 0x27 then sh_words (Some w) s else sh_quoted (w @ [c]) s)"
  by pat_completeness auto
termination
  by (relation "measure (\<lambda>x. case x of Inl (w, s) \<Rightarrow> length s | Inr (w, s) \<Rightarrow> length s)") auto

definition quote_body :: "string \<Rightarrow> string" where
  "quote_body s = concat (map (\<lambda>c. if c = CHR 0x27 then [CHR 0x27, CHR 0x5C, CHR 0x27, CHR 0x27] else [c]) s)"

lemma sh_quoted_body: "sh_quoted w (quote_body s @ CHR 0x27 # t) = sh_words (Some (w @ s)) t"
  by (induction s arbitrary: w) (auto simp: quote_body_def)

lemma sh_words_quoted: "sh_words None (shell_quote s @ t) = sh_words (Some s) t"
  using sh_quoted_body [of "[]" s t] by (simp add: shell_quote_def quote_body_def)

text \<open>
  Names and identifiers that are quoted for the script of the machine are read by the shell as exactly those
  words, whatever characters they hold: none can end its word or begin a command.
\<close>

theorem quoted_words_read_back: "sh_words None (join_with '' '' (map shell_quote ws)) = Some ws"
proof (induction ws)
  case (Cons w ws)
  show ?case
  proof (cases ws)
    case Nil
    then show ?thesis using sh_words_quoted [of w "[]"] by simp
  next
    case (Cons v vs)
    then show ?thesis using Cons.IH sh_words_quoted [of w "'' '' @ join_with '' '' (map shell_quote ws)"]
      by (simp add: join_with_Cons)
  qed
qed simp

text \<open>
  In the messages of the script the quoted name stands inside double quotes, where single quotes
  do not protect it: the text of a command substitution reaches the shell.
\<close>

theorem echoed_name_unprotected:
  "sublist (echoed (''project '' @ [CHR 0x27] @ ''$(reboot)'' @ [CHR 0x27] @ '' started'')) (project_script ''$(reboot)'')"
proof -
  have q: "echoed (''project '' @ [CHR 0x27] @ ''$(reboot)'' @ [CHR 0x27] @ '' started'')
      = echoed (''project '' @ shell_quote ''$(reboot)'' @ '' started'')" by (simp add: shell_quote_def)
  have s: "sublist x (a @ q @ b @ q @ c @ x @ d)" for x a b c d q :: string
    using sublist_appendI [of x "a @ q @ b @ q @ c" d] by simp
  show ?thesis unfolding q project_script_def Let_def by (rule s)
qed

end
