(* ===== verification/Engine.thy ===== *)
theory Engine
  imports Engine_Parts
begin

text \<open>
  The engine (\<open>crates/solon-service/src/engine.rs\<close>): starting the machine through its steps, supervision,
  stopping, sharing drives, restarting what ran.  What Windows, the agent and the disk answer is
  an argument; what is asked of them is noted in \<open>eng_calls\<close>.  A step of the machine at the end is what a task
  does between two points where others can come in.
\<close>

section \<open>Publishing the state\<close>

definition engine_new :: "engine_config \<Rightarrow> persisted_state \<Rightarrow> engine" where
  "engine_new cfg file_state =
     \<lparr>eng_cfg = cfg, eng_snapshot = snapshot_default\<lparr>snap_state := Some EngStopped\<rparr>, eng_events = [],
      eng_running = None, eng_pending = None, eng_stopping = False, eng_domains = [],
      eng_sleeper = default_sleep_state, eng_sleep_settings = sleep_settings_of (cfg_settings cfg), eng_endpoints = [],
      eng_trace = set_body_projects (trace_bodies (cfg_settings cfg)) trace_hub_new,
      eng_state_file = file_state, eng_calls = [], eng_due = 0, eng_resuming = []\<rparr>"

definition apply_sleep_settings :: "solon_settings \<Rightarrow> engine \<Rightarrow> engine" where
  "apply_sleep_settings s e = e\<lparr>eng_sleep_settings := sleep_settings_of s\<rparr>"

definition emit :: "service_event \<Rightarrow> engine \<Rightarrow> engine" where
  "emit ev e = e\<lparr>eng_events := eng_events e @ [ev]\<rparr>"

definition send_modify :: "(engine_snapshot \<Rightarrow> engine_snapshot) \<Rightarrow> engine \<Rightarrow> engine" where
  "send_modify f e = e\<lparr>eng_snapshot := f (eng_snapshot e)\<rparr>"

definition eng_set :: "(engine_snapshot \<Rightarrow> engine_snapshot) \<Rightarrow> engine \<Rightarrow> engine" where
  "eng_set f e = emit (EvState (f (eng_snapshot e))) (send_modify f e)"

definition note_call :: "host_call \<Rightarrow> engine \<Rightarrow> engine" where
  "note_call c e = e\<lparr>eng_calls := eng_calls e @ [c]\<rparr>"

definition shared_drives :: "engine \<Rightarrow> string list" where
  "shared_drives e = (case eng_running e of Some r \<Rightarrow> map fst (run_shares r) | None \<Rightarrow> [])"

definition is_stopped :: "engine \<Rightarrow> bool" where
  "is_stopped e \<longleftrightarrow> eng_running e = None"

definition update_domains :: "container_endpoint list \<Rightarrow> engine \<Rightarrow> engine" where
  "update_domains eps e =
     note_call (HostsBlock (domains_for eps)) (e\<lparr>eng_endpoints := eps, eng_domains := domains_for eps\<rparr>)"

definition eng_at_step :: "provision_step \<Rightarrow> engine \<Rightarrow> engine" where
  "eng_at_step stp e = eng_set (\<lambda>s. s\<lparr>snap_state := Some EngStarting, snap_step := Some stp, snap_error := None\<rparr>) e"

section \<open>Answers\<close>

text \<open>
  A blocking task gives its result or, when it panicked, the text of the join error.  The events of a boot
  are those before the deadline of ninety seconds; at the end of the list it has passed.
\<close>

datatype boot_event = Got agent_event | EventsEnded | EventsFailed solon_error

record host_env =
  env_ensure_dirs :: "string + unit"
  env_settings :: solon_settings
  env_prereq :: "string + prereq_report"
  env_open :: "string \<Rightarrow> bool"
  env_runtime_id :: "string \<Rightarrow> solon_error + string"
  env_guid :: "string \<Rightarrow> string + string"
  env_connect :: "string \<Rightarrow> solon_error + unit"
  env_ping :: "solon_error + unit"
  env_image :: "string \<Rightarrow> string + (string + resolved_image)"
  env_disk :: "string \<Rightarrow> nat \<Rightarrow> string + (solon_error + bool)"
  env_orphans :: "string + (solon_error + string list)"
  env_new_vm_id :: string
  env_network :: "string + (solon_error + guest_network)"
  env_exists :: "string \<Rightarrow> bool"
  env_home_edition :: bool
  env_create :: "vm_config \<Rightarrow> string + (solon_error + unit)"
  env_save :: "string + unit"
  env_start :: "string + (solon_error + unit)"
  env_health :: "solon_error + health_report"
  env_configure :: "solon_error + unit"
  env_events :: "solon_error + boot_event list"
  env_http_bound :: bool
  env_ca_loaded :: bool
  env_tls_bound :: bool
  env_now_ms :: nat
  env_boot_ms :: nat

definition joined :: "string + (solon_error + 'a) \<Rightarrow> solon_error + 'a" where
  "joined r = (case r of Inl t \<Rightarrow> Inl (internal_error t) | Inr x \<Rightarrow> x)"

definition io_result :: "string + 'a \<Rightarrow> solon_error + 'a" where
  "io_result r = (case r of Inl t \<Rightarrow> Inl (from_io_error t) | Inr x \<Rightarrow> Inr x)"

text \<open>The question mark: an error ends the method with the state reached so far.\<close>

definition attempt ::
  "solon_error + 'a \<Rightarrow> engine \<Rightarrow> ('a \<Rightarrow> engine \<times> (solon_error + 'b)) \<Rightarrow> engine \<times> (solon_error + 'b)" where
  "attempt r e k = (case r of Inl err \<Rightarrow> (e, Inl err) | Inr x \<Rightarrow> k x)"

definition prereq_result :: "host_env \<Rightarrow> solon_error + unit" where
  "prereq_result env =
     (case env_prereq env of
        Inl t \<Rightarrow> Inl (internal_error t)
      | Inr rep \<Rightarrow>
          if report_ok rep then Inr ()
          else (let cd = (case find (\<lambda>i. \<not> prereq_ok i \<and> blocking i) (report_items rep) of
                            Some i \<Rightarrow> ((case prereq_code i of Some c \<Rightarrow> c | None \<Rightarrow> Internal), detail i)
                          | None \<Rightarrow> (Internal, []))
                in Inl (solon_error_new (fst cd)
                     (''pr'' @ [CHR 0xC3, CHR 0xA9] @ ''requis manquant : '' @ snd cd))))"

definition image_result :: "host_env \<Rightarrow> string \<Rightarrow> solon_error + resolved_image" where
  "image_result env dir =
     (case env_image env dir of
        Inl t \<Rightarrow> Inl (internal_error t)
      | Inr (Inl t) \<Rightarrow> Inl (solon_error_new ImageCorrupted t)
      | Inr (Inr img) \<Rightarrow> Inr img)"

section \<open>Attaching to a machine\<close>

fun await_ready :: "boot_event list \<Rightarrow> port_binding list \<Rightarrow> solon_error + port_binding list" where
  "await_ready [] pbs =
     Inl (solon_error_new EngineUnreachable (''dockerd n'' @ [CHR 0x27] @ ''a pas d'' @ [CHR 0xC3, CHR 0xA9] @ ''marr''
       @ [CHR 0xC3, CHR 0xA9] @ '' dans le d'' @ [CHR 0xC3, CHR 0xA9] @ ''lai''))"
| "await_ready (Got (EngineReady t) # evs) pbs = Inr pbs"
| "await_ready (Got (PortsChanged bs) # evs) pbs = await_ready evs bs"
| "await_ready (Got ev # evs) pbs = await_ready evs pbs"
| "await_ready (EventsEnded # evs) pbs =
     Inl (solon_error_new AgentUnreachable (''flux d'' @ [CHR 0x27] @ [CHR 0xC3, CHR 0xA9] @ ''v'' @ [CHR 0xC3, CHR 0xA9]
       @ ''nements ferm'' @ [CHR 0xC3, CHR 0xA9] @ '' par l'' @ [CHR 0x27] @ ''agent''))"
| "await_ready (EventsFailed err # evs) pbs = Inl err"

definition bare_network :: "string option \<Rightarrow> guest_network" where
  "bare_network endpoint_id =
     \<lparr>network_id = [], gn_endpoint_id = (case endpoint_id of Some i \<Rightarrow> i | None \<Rightarrow> []), gn_mac_address = [],
      gn_address = [0, 0, 0, 0], gn_prefix_len = 24, gn_gateway = [0, 0, 0, 0], gn_dns = []\<rparr>"

definition share_map :: "host_share list \<Rightarrow> (string \<times> host_share) list" where
  "share_map bs = fold (\<lambda>sh m. AList.update (share_name sh) sh m) bs []"

definition proxy_tasks :: "host_env \<Rightarrow> engine_task list" where
  "proxy_tasks env =
     (if env_http_bound env then [HttpProxy] else [])
     @ (if env_ca_loaded env \<and> env_tls_bound env then [TlsProxy] else [])"

definition attach ::
  "host_env \<Rightarrow> string \<Rightarrow> string \<Rightarrow> string option \<Rightarrow> host_share list \<Rightarrow> engine \<Rightarrow> engine \<times> (solon_error + running_vm)" where
  "attach env vm guid endpoint_id bs e =
     (let e = eng_at_step WaitingEngine e
      in attempt (env_events env) e (\<lambda>evs.
         let e = e\<lparr>eng_sleeper := fst (set_agent True (eng_sleeper e))\<rparr>
         in attempt (await_ready evs []) e (\<lambda>pbs.
            let e = eng_set (\<lambda>s. s\<lparr>published_ports := pbs\<rparr>) e;
                e = update_domains [] e;
                e = eng_set (\<lambda>s. s\<lparr>local_domains := env_http_bound env\<rparr>) e;
                e = (if env_ca_loaded env \<and> env_tls_bound env then eng_set (\<lambda>s. s\<lparr>local_domains_tls := True\<rparr>) e else e)
            in (e, Inr \<lparr>run_vm = vm, run_guid = guid, run_network = bare_network endpoint_id,
                        run_tasks = [SleepLoop, SleepWatch] @ proxy_tasks env
                          @ [EventLoop, TraceCollector, ExitWatcher, FileServing, ExecRelay, ShellRelay],
                        run_ports = apply_bindings pbs new_relays, run_shares = share_map bs\<rparr>))))"

section \<open>Starting\<close>

text \<open>The machine of an earlier service is still there when every link to it answers.\<close>

definition reattached_guid :: "host_env \<Rightarrow> string \<Rightarrow> string option" where
  "reattached_guid env prev_id =
     (if env_open env prev_id then
        (case env_runtime_id env prev_id of
           Inl _ \<Rightarrow> None
         | Inr rid \<Rightarrow>
             (case env_guid env rid of
                Inl _ \<Rightarrow> None
              | Inr guid \<Rightarrow>
                  (case env_connect env guid of
                     Inl _ \<Rightarrow> None
                   | Inr _ \<Rightarrow> (case env_ping env of Inl _ \<Rightarrow> None | Inr _ \<Rightarrow> Some guid))))
      else None)"

definition reattach ::
  "host_env \<Rightarrow> persisted_state \<Rightarrow> string \<Rightarrow> string \<Rightarrow> engine \<Rightarrow> engine \<times> (solon_error + running_vm)" where
  "reattach env previous prev_id guid e =
     (case attach env prev_id guid (ps_endpoint_id previous) (boot_shares (env_exists env) (ps_shares previous)) e of
        (e, Inl err) \<Rightarrow> (e, Inl err)
      | (e, Inr r) \<Rightarrow>
          let er = (case Option.bind (ps_guest_address previous) parse_ipv4 of
                      Some a \<Rightarrow> (note_call (EnsureRoute a) e, r\<lparr>run_network := (run_network r)\<lparr>gn_address := a\<rparr>\<rparr>)
                    | None \<Rightarrow> (e, r))
          in (eng_set (\<lambda>s. s\<lparr>snap_image_version := ps_image_version previous, reattached := True\<rparr>) (fst er), Inr (snd er)))"

definition wrong_protocol :: "nat \<Rightarrow> solon_error" where
  "wrong_protocol v =
     solon_error_new ImageCorrupted (''agent en protocole '' @ dec_of_nat v @ '' (service : '' @ dec_of_nat PROTOCOL_VERSION @ '')'')"

definition boot_state :: "host_env \<Rightarrow> persisted_state \<Rightarrow> resolved_image \<Rightarrow> guest_network \<Rightarrow> host_share list \<Rightarrow> persisted_state" where
  "boot_state env previous img net bs =
     \<lparr>ps_vm_id = Some (env_new_vm_id env), ps_endpoint_id = Some (gn_endpoint_id net),
      ps_guest_address = Some (show_ipv4 (gn_address net)), ps_image_version = Some (version (manifest img)),
      ps_shares = map share_name bs, resume_projects = resume_projects previous,
      resume_containers = resume_containers previous, clean_shutdown = False, updated_unix_ms = env_now_ms env\<rparr>"

text \<open>From the machine created to its agent configured and the engine attached.\<close>

definition boot_machine ::
  "host_env \<Rightarrow> guest_network \<Rightarrow> host_share list \<Rightarrow> engine \<Rightarrow> engine \<times> (solon_error + running_vm)" where
  "boot_machine env net bs e =
     (let vm_id = env_new_vm_id env; e = note_call (StartMachine vm_id) (eng_at_step Booting e)
      in attempt (joined (env_start env)) e (\<lambda>_.
         attempt (env_runtime_id env vm_id) e (\<lambda>rid.
         attempt (case env_guid env rid of Inl t \<Rightarrow> Inl (internal_error (''RuntimeId : '' @ t)) | Inr g \<Rightarrow> Inr g) e (\<lambda>guid.
         let e = eng_at_step WaitingAgent e
         in attempt (env_connect env guid) e (\<lambda>_.
            let e = note_call (AgentCall Health) e
            in attempt (env_health env) e (\<lambda>h.
               if protocol_version h \<noteq> PROTOCOL_VERSION then (e, Inl (wrong_protocol (protocol_version h)))
               else let e = note_call (AgentCall (ConfigureNetwork (to_config net))) (eng_at_step ConfiguringNetwork e)
                    in attempt (env_configure env) e (\<lambda>_.
                       (case attach env vm_id guid (Some (gn_endpoint_id net)) bs e of
                          (e, Inl err) \<Rightarrow> (e, Inl err)
                        | (e, Inr r) \<Rightarrow>
                            (note_call (EnsureRoute (gn_address net)) e,
                             Inr (r\<lparr>run_network := net, run_tasks := run_tasks r @ [ConsoleLogger]\<rparr>))))))))))"

definition boot ::
  "host_env \<Rightarrow> persisted_state \<Rightarrow> engine \<Rightarrow> engine \<times> (solon_error + running_vm)" where
  "boot env previous e =
     (let e = eng_at_step VerifyingImage e
      in attempt (image_result env (cfg_image_dir (eng_cfg e))) e (\<lambda>img.
         let e = eng_set (\<lambda>s. s\<lparr>snap_image_version := Some (version (manifest img))\<rparr>) e;
             e = eng_at_step PreparingDataDisk e
         in attempt (joined (env_disk env (data_disk_path (cfg_root (eng_cfg e))) (data_disk_gib (env_settings env)))) e (\<lambda>_.
            let e = note_call TerminateOrphans e
            in attempt (joined (env_orphans env)) e (\<lambda>_.
               let e = eng_at_step CreatingNetwork e
               in attempt (joined (env_network env)) e (\<lambda>net.
                  let bs = boot_shares (env_exists env) (ps_shares previous);
                      vmc = machine_config (cfg_root (eng_cfg e)) img (env_settings env) (env_home_edition env) (env_new_vm_id env) net bs;
                      e = note_call (CreateMachine vmc) (eng_at_step CreatingMachine e)
                  in attempt (joined (env_create env vmc)) e (\<lambda>_.
                     attempt (io_result (env_save env)) e (\<lambda>_.
                       boot_machine env net bs (e\<lparr>eng_state_file := boot_state env previous img net bs\<rparr>))))))))"

definition provision :: "host_env \<Rightarrow> engine \<Rightarrow> engine \<times> (solon_error + running_vm)" where
  "provision env e =
     attempt (io_result (env_ensure_dirs env)) e (\<lambda>_.
       let e = eng_at_step CheckingPrerequisites e
       in attempt (prereq_result env) e (\<lambda>_.
          let e = eng_at_step CleaningOrphans e; previous = eng_state_file e
          in (case ps_vm_id previous of
                None \<Rightarrow> boot env previous e
              | Some prev_id \<Rightarrow>
                  (case reattached_guid env prev_id of
                     Some guid \<Rightarrow> reattach env previous prev_id guid e
                   | None \<Rightarrow>
                       boot env previous
                         (if clean_shutdown previous then e else eng_set (\<lambda>s. s\<lparr>recovered_from_crash := True\<rparr>) e)))))"

text \<open>The first part of \<open>start\<close>, up to the machine attached or the failure published.\<close>

definition start_begin :: "host_env \<Rightarrow> engine \<Rightarrow> engine \<times> (solon_error + unit)" where
  "start_begin env e =
     (if eng_running e \<noteq> None then (e, Inr ())
      else (case provision env (e\<lparr>eng_stopping := False\<rparr>) of
              (e, Inr r) \<Rightarrow> (e\<lparr>eng_pending := Some r\<rparr>, Inr ())
            | (e, Inl err) \<Rightarrow>
                (eng_set (\<lambda>s. s\<lparr>snap_state := Some EngFailed, snap_error := Some err\<rparr>)
                   (note_call DeleteNetwork (note_call TerminateOrphans e)), Inl err)))"

definition ready_snapshot :: "host_env \<Rightarrow> running_vm \<Rightarrow> engine_snapshot \<Rightarrow> engine_snapshot" where
  "ready_snapshot env r s =
     s\<lparr>snap_state := Some EngReady, snap_step := Some StepReady, snap_error := None, snap_vm_id := Some (run_vm r),
       last_boot_ms := Some (env_boot_ms env), ready_since_unix_ms := Some (env_now_ms env),
       snap_guest_address := Some (show_ipv4 (gn_address (run_network r))), snap_docker_pipe := Some DOCKER_PIPE\<rparr>"

text \<open>The second part: the machine is published, and a task is there to restart what ran.\<close>

definition start_finish :: "host_env \<Rightarrow> engine \<Rightarrow> engine" where
  "start_finish env e =
     (case eng_pending e of
        None \<Rightarrow> e
      | Some r \<Rightarrow>
          (eng_set (ready_snapshot env r) (e\<lparr>eng_running := Some r, eng_pending := None\<rparr>))\<lparr>eng_due := Suc (eng_due e)\<rparr>)"

definition start :: "host_env \<Rightarrow> engine \<Rightarrow> engine \<times> (solon_error + unit)" where
  "start env e = (case start_begin env e of (e, r) \<Rightarrow> (start_finish env e, r))"

section \<open>Supervision\<close>

fun level_text :: "log_level \<Rightarrow> string" where
  "level_text Debug = ''debug''"
| "level_text Info = ''info''"
| "level_text Warn = ''warn''"
| "level_text Error = ''error''"

fun on_agent_event :: "agent_event \<Rightarrow> engine \<Rightarrow> engine" where
  "on_agent_event (PortsChanged bs) e =
     emit (EvPorts bs) (send_modify (\<lambda>s. s\<lparr>published_ports := bs\<rparr>)
       (e\<lparr>eng_running := map_option (\<lambda>r. r\<lparr>run_ports := apply_bindings bs (run_ports r)\<rparr>) (eng_running e)\<rparr>))"
| "on_agent_event (ContainerEvent action i name) e =
     emit (EvContainer action i name) (e\<lparr>eng_sleeper := fst (on_container_event action i (eng_sleeper e))\<rparr>)"
| "on_agent_event (EndpointsChanged eps) e =
     update_domains eps (e\<lparr>eng_sleeper := fst (update_endpoints eps (eng_sleeper e))\<rparr>)"
| "on_agent_event (DiskPressure pct free) e = emit (EvDiskPressure pct free) e"
| "on_agent_event (EngineDown ex n) e = eng_set (\<lambda>s. s\<lparr>snap_state := Some EngDegraded\<rparr>) e"
| "on_agent_event (EngineReady t) e =
     (if snap_state (eng_snapshot e) = Some EngDegraded then eng_set (\<lambda>s. s\<lparr>snap_state := Some EngReady\<rparr>) e else e)"
| "on_agent_event (Log lvl msg) e = emit (EvLog (level_text lvl) msg) e"
| "on_agent_event (Hello v t) e = e"

definition failed_with :: "solon_error \<Rightarrow> engine_snapshot \<Rightarrow> engine_snapshot" where
  "failed_with err s = s\<lparr>snap_state := Some EngFailed, snap_error := Some err\<rparr>"

definition on_stream_lost :: "engine \<Rightarrow> engine" where
  "on_stream_lost e =
     (if eng_stopping e then e
      else eng_set (failed_with (solon_error_new AgentUnreachable
             (''connexion '' @ [CHR 0xC3, CHR 0xA0] @ '' l'' @ [CHR 0x27] @ ''agent perdue''))) e)"

text \<open>The watcher of the machine: the printed data of the exit is given.\<close>

definition on_exit :: "string \<Rightarrow> engine \<Rightarrow> engine" where
  "on_exit shown e =
     (if eng_stopping e then e
      else eng_set (failed_with (solon_error_new VmBootTimeout
             (''arr'' @ [CHR 0xC3, CHR 0xAA] @ ''t inattendu de la machine : '' @ shown))) e)"

text \<open>The sleepers as they are published.\<close>

definition sleepers_changed :: "engine \<Rightarrow> engine" where
  "sleepers_changed e = eng_set (\<lambda>s. s\<lparr>snap_sleeping := sorted_list_of_set (sleeping (eng_sleeper e))\<rparr>) e"

section \<open>Stopping\<close>

record stop_env =
  stop_ps :: "solon_error + exec_result"
  stop_shutdown :: "solon_error + unit"
  stop_exited :: bool
  stop_save :: "string + unit"
  stop_now_ms :: nat

definition was_running :: "stop_env \<Rightarrow> container_endpoint list \<Rightarrow> string list \<times> string list" where
  "was_running env announced =
     (let now = running_now (stop_ps env)
      in if fst now = [] \<and> snd now = [] then fold note_endpoint_runs announced now else now)"

definition graceful :: "stop_env \<Rightarrow> bool \<Rightarrow> bool" where
  "graceful env force \<longleftrightarrow> \<not> force \<and> (\<exists>u. stop_shutdown env = Inr u) \<and> stop_exited env"

definition saved_state :: "string + unit \<Rightarrow> persisted_state \<Rightarrow> engine \<Rightarrow> engine" where
  "saved_state r ps e = (case r of Inr _ \<Rightarrow> e\<lparr>eng_state_file := ps\<rparr> | Inl _ \<Rightarrow> e)"

definition stop :: "stop_env \<Rightarrow> bool \<Rightarrow> engine \<Rightarrow> engine" where
  "stop env force e =
     (let e = e\<lparr>eng_stopping := True\<rparr>
      in case eng_running e of
           None \<Rightarrow>
             eng_set (\<lambda>s. s\<lparr>snap_state := Some EngStopped, snap_step := None\<rparr>)
               (note_call DeleteNetwork (note_call TerminateOrphans e))
         | Some r \<Rightarrow>
             let e = eng_set (\<lambda>s. s\<lparr>snap_state := Some EngStopping\<rparr>) (e\<lparr>eng_running := None\<rparr>);
                 runs = (if force then ([], []) else was_running env (eng_endpoints e));
                 e = (if force then e
                      else note_call (AgentCall (Shutdown 10)) (note_call (AgentCall (Exec ps_command (Some 10))) e));
                 e = (if graceful env force then e else note_call (TerminateMachine (run_vm r)) e);
                 e = note_call DeleteNetwork e;
                 e = saved_state (stop_save env)
                       ((eng_state_file e)\<lparr>clean_shutdown := True, resume_projects := fst runs,
                          resume_containers := snd runs, updated_unix_ms := stop_now_ms env\<rparr>) e;
                 e = update_domains [] e;
                 e = e\<lparr>eng_sleeper := fst (set_agent False (eng_sleeper e))\<rparr>;
                 e = note_call RemoveRoute e
             in eng_set (\<lambda>s. s\<lparr>snap_state := Some EngStopped, snap_step := None, local_domains := False,
                   local_domains_tls := False, snap_sleeping := [], published_ports := [],
                   snap_guest_address := None, ready_since_unix_ms := None\<rparr>) e)"

definition restart :: "stop_env \<Rightarrow> host_env \<Rightarrow> engine \<Rightarrow> engine \<times> (solon_error + unit)" where
  "restart senv env e = start env (stop senv False e)"

section \<open>Commands in the machine\<close>

definition not_started :: solon_error where
  "not_started = solon_error_new EngineUnreachable (''le moteur n'' @ [CHR 0x27] @ ''est pas d'' @ [CHR 0xC3, CHR 0xA9]
     @ ''marr'' @ [CHR 0xC3, CHR 0xA9])"

definition agent_call :: "agent_command \<Rightarrow> solon_error + 'a \<Rightarrow> engine \<Rightarrow> engine \<times> (solon_error + 'a)" where
  "agent_call cmd answer e =
     (if eng_running e = None then (e, Inl not_started) else (note_call (AgentCall cmd) e, answer))"

definition exec_timeout :: "nat \<Rightarrow> nat" where "exec_timeout t = min 3600 (max 1 t)"

definition engine_exec :: "(agent_command \<Rightarrow> solon_error + exec_result) \<Rightarrow> string \<Rightarrow> nat \<Rightarrow> engine \<Rightarrow> engine \<times> (solon_error + exec_result)" where
  "engine_exec answer command timeout_s e =
     (let cmd = Exec command (Some (exec_timeout timeout_s)) in agent_call cmd (answer cmd) e)"

definition engine_metrics :: "solon_error + machine_metrics \<Rightarrow> engine \<Rightarrow> engine \<times> (solon_error + machine_metrics)" where
  "engine_metrics answer e = agent_call Metrics answer e"

definition engine_health :: "solon_error + health_report \<Rightarrow> engine \<Rightarrow> engine \<times> health_report option" where
  "engine_health answer e =
     (case agent_call Health answer e of (e, Inr h) \<Rightarrow> (e, Some h) | (e, Inl _) \<Rightarrow> (e, None))"

definition guest_guid :: "engine \<Rightarrow> string option" where
  "guest_guid e = map_option run_guid (eng_running e)"

section \<open>Sharing a drive\<close>

record share_env =
  share_exists :: "string \<Rightarrow> bool"
  share_settings :: solon_settings
  share_home :: bool
  share_added :: "string + (solon_error + unit)"
  share_mounted :: "solon_error + unit"
  share_save :: "string + unit"
  share_now_ms :: nat

definition mount_request :: "share_env \<Rightarrow> string \<Rightarrow> nat \<Rightarrow> mount_share_request" where
  "mount_request env drive port =
     \<lparr>ms_name = drive, ms_port = port,
      ms_target = (if legacy_file_sharing (share_settings env) \<and> \<not> share_home env then ''/mnt/host/'' @ drive
                   else ''/mnt/host9p/'' @ drive),
      read_only = False, extra_options = []\<rparr>"

definition remember_share :: "share_env \<Rightarrow> string \<Rightarrow> engine \<Rightarrow> engine" where
  "remember_share env drive e =
     (let ps = eng_state_file e
      in if drive \<in> set (ps_shares ps) then e
         else saved_state (share_save env) (ps\<lparr>ps_shares := ps_shares ps @ [drive], updated_unix_ms := share_now_ms env\<rparr>) e)"

definition mount_drive :: "share_env \<Rightarrow> string \<Rightarrow> running_vm \<Rightarrow> engine \<Rightarrow> engine \<times> (solon_error + bool)" where
  "mount_drive env drive r e =
     (if drive \<in> fst ` set (run_shares r) then (e, Inr False)
      else let port = first_free (map (share_port \<circ> snd) (run_shares r)) 9100;
               sh = \<lparr>share_name = drive, share_host_path = drive_root drive, share_port = port, share_read_only = False\<rparr>;
               e = note_call (AddShare sh) e
           in attempt (joined (share_added env)) e (\<lambda>_.
              let e = note_call (AgentCall (MountShare (mount_request env drive port))) e
              in (case share_mounted env of
                    Inl err \<Rightarrow> (note_call (RemoveShare sh) e, Inl err)
                  | Inr _ \<Rightarrow>
                      (remember_share env drive
                         (e\<lparr>eng_running := Some (r\<lparr>run_shares := AList.update drive sh (run_shares r)\<rparr>)\<rparr>), Inr True))))"

definition ensure_share :: "share_env \<Rightarrow> string \<Rightarrow> engine \<Rightarrow> engine \<times> (solon_error + share_info)" where
  "ensure_share env hp e =
     (case guest_path_for hp of
        None \<Rightarrow> (e, Inl (solon_error_new Io (''chemin non partageable : '' @ hp)))
      | Some (drive, gp) \<Rightarrow>
          if \<not> share_exists env (drive_root drive) then (e, Inl (solon_error_new Io (''lecteur introuvable : '' @ drive_root drive)))
          else (case eng_running e of
                  None \<Rightarrow> (e, Inl not_started)
                | Some r \<Rightarrow>
                    (case mount_drive env drive r e of
                       (e, Inl err) \<Rightarrow> (e, Inl err)
                     | (e, Inr now) \<Rightarrow>
                         (e, Inr \<lparr>si_drive = drive, host_root = drive_root drive, guest_root = ''/mnt/host/'' @ drive,
                                  guest_path = gp, mounted_now = now\<rparr>))))"

definition list_shares :: "engine \<Rightarrow> host_share list" where
  "list_shares e = (case eng_running e of Some r \<Rightarrow> map snd (run_shares r) | None \<Rightarrow> [])"

section \<open>Restarting what ran\<close>

text \<open>The lists are read and used up; the script runs two seconds later.\<close>

definition resume_take :: "solon_settings \<Rightarrow> string + unit \<Rightarrow> engine \<Rightarrow> engine" where
  "resume_take stg saved e =
     (let ps = eng_state_file e;
          projs = (if resume_running stg then resume_projects ps else []);
          conts = (if resume_running stg then resume_containers ps else []);
          e = (if resume_projects ps \<noteq> [] \<or> resume_containers ps \<noteq> []
               then saved_state saved (ps\<lparr>resume_projects := [], resume_containers := []\<rparr>) e else e)
      in if projs = [] \<and> conts = [] then e else e\<lparr>eng_resuming := eng_resuming e @ [(projs, conts)]\<rparr>)"

definition resume_run :: "(agent_command \<Rightarrow> solon_error + exec_result) \<Rightarrow> string list \<times> string list \<Rightarrow> engine \<Rightarrow> engine" where
  "resume_run answer pc e =
     (case engine_exec answer (resume_script (fst pc) (snd pc)) 120 e of
        (e, Inl _) \<Rightarrow> e
      | (e, Inr r) \<Rightarrow> (case resumed_event (fst pc) (snd pc) (stdout r) of Some ev \<Rightarrow> emit ev e | None \<Rightarrow> e))"

section \<open>The machine of tasks\<close>

text \<open>
  The lock of operations keeps \<open>start\<close> and \<open>stop\<close> apart; agent events, exits, shares, commands and restarts come in
  whenever a machine is attached.
\<close>

inductive eng_step :: "engine \<Rightarrow> engine \<Rightarrow> bool" where
  StartBegin: "eng_pending e = None \<Longrightarrow> eng_step e (fst (start_begin env e))"
| StartFinish: "eng_step e (start_finish env e)"
| StopIt: "eng_pending e = None \<Longrightarrow> eng_step e (stop senv force e)"
| Event: "eng_pending e \<noteq> None \<or> eng_running e \<noteq> None \<Longrightarrow> eng_step e (on_agent_event ev e)"
| StreamLost: "eng_pending e \<noteq> None \<or> eng_running e \<noteq> None \<Longrightarrow> eng_step e (on_stream_lost e)"
| Exited: "eng_pending e \<noteq> None \<or> eng_running e \<noteq> None \<Longrightarrow> eng_step e (on_exit shown e)"
| Sleepers: "eng_pending e \<noteq> None \<or> eng_running e \<noteq> None \<Longrightarrow> eng_step e (sleepers_changed e)"
| Share: "eng_step e (fst (ensure_share shenv hp e))"
| Command: "eng_step e (fst (engine_exec answer command t e))"
| Measure: "eng_step e (fst (engine_metrics m e))"
| Checkup: "eng_step e (fst (engine_health h e))"
| Settle: "eng_step e (apply_sleep_settings stg e)"
| ResumeTake: "eng_due e = Suc n \<Longrightarrow> eng_step e (resume_take stg saved (e\<lparr>eng_due := n\<rparr>))"
| ResumeRun: "eng_resuming e = pc # rest \<Longrightarrow> eng_step e (resume_run answer pc (e\<lparr>eng_resuming := rest\<rparr>))"

end
