(* ===== verification/Engine_Laws.thy ===== *)
theory Engine_Laws
  imports Engine Transitions
begin

text \<open>
  What holds of the engine of \<open>Engine\<close>: how its methods move its state, the invariant over all
  interleavings of its tasks, and what a start, a restart and a resume give.
\<close>

section \<open>How the methods move the state\<close>

lemmas engine_prims = eng_set_def emit_def send_modify_def note_call_def update_domains_def eng_at_step_def

lemma eng_set_moves [simp]:
  "eng_snapshot (eng_set f e) = f (eng_snapshot e)" "eng_running (eng_set f e) = eng_running e"
  "eng_pending (eng_set f e) = eng_pending e" "eng_stopping (eng_set f e) = eng_stopping e"
  "eng_domains (eng_set f e) = eng_domains e" "eng_sleeper (eng_set f e) = eng_sleeper e"
  "eng_endpoints (eng_set f e) = eng_endpoints e" "eng_state_file (eng_set f e) = eng_state_file e"
  "eng_calls (eng_set f e) = eng_calls e" "eng_due (eng_set f e) = eng_due e"
  "eng_resuming (eng_set f e) = eng_resuming e" "eng_cfg (eng_set f e) = eng_cfg e"
  by (simp_all add: engine_prims)

lemma emit_moves [simp]:
  "eng_snapshot (emit v e) = eng_snapshot e" "eng_running (emit v e) = eng_running e"
  "eng_pending (emit v e) = eng_pending e" "eng_stopping (emit v e) = eng_stopping e"
  "eng_domains (emit v e) = eng_domains e" "eng_sleeper (emit v e) = eng_sleeper e"
  "eng_endpoints (emit v e) = eng_endpoints e" "eng_state_file (emit v e) = eng_state_file e"
  "eng_calls (emit v e) = eng_calls e" "eng_due (emit v e) = eng_due e"
  "eng_resuming (emit v e) = eng_resuming e" "eng_cfg (emit v e) = eng_cfg e"
  by (simp_all add: engine_prims)

lemma send_modify_moves [simp]:
  "eng_snapshot (send_modify f e) = f (eng_snapshot e)" "eng_running (send_modify f e) = eng_running e"
  "eng_pending (send_modify f e) = eng_pending e" "eng_stopping (send_modify f e) = eng_stopping e"
  "eng_domains (send_modify f e) = eng_domains e" "eng_sleeper (send_modify f e) = eng_sleeper e"
  "eng_endpoints (send_modify f e) = eng_endpoints e" "eng_state_file (send_modify f e) = eng_state_file e"
  "eng_calls (send_modify f e) = eng_calls e" "eng_due (send_modify f e) = eng_due e"
  "eng_resuming (send_modify f e) = eng_resuming e" "eng_cfg (send_modify f e) = eng_cfg e"
  by (simp_all add: engine_prims)

lemma note_call_moves [simp]:
  "eng_snapshot (note_call c e) = eng_snapshot e" "eng_running (note_call c e) = eng_running e"
  "eng_pending (note_call c e) = eng_pending e" "eng_stopping (note_call c e) = eng_stopping e"
  "eng_domains (note_call c e) = eng_domains e" "eng_sleeper (note_call c e) = eng_sleeper e"
  "eng_endpoints (note_call c e) = eng_endpoints e" "eng_state_file (note_call c e) = eng_state_file e"
  "eng_calls (note_call c e) = eng_calls e @ [c]" "eng_due (note_call c e) = eng_due e"
  "eng_resuming (note_call c e) = eng_resuming e" "eng_cfg (note_call c e) = eng_cfg e"
  by (simp_all add: engine_prims)

lemma update_domains_moves [simp]:
  "eng_snapshot (update_domains eps e) = eng_snapshot e" "eng_running (update_domains eps e) = eng_running e"
  "eng_pending (update_domains eps e) = eng_pending e" "eng_stopping (update_domains eps e) = eng_stopping e"
  "eng_domains (update_domains eps e) = domains_for eps" "eng_sleeper (update_domains eps e) = eng_sleeper e"
  "eng_endpoints (update_domains eps e) = eps" "eng_state_file (update_domains eps e) = eng_state_file e"
  "eng_due (update_domains eps e) = eng_due e"
  "eng_resuming (update_domains eps e) = eng_resuming e" "eng_cfg (update_domains eps e) = eng_cfg e"
  by (simp_all add: update_domains_def)

lemma saved_state_moves [simp]:
  "eng_snapshot (saved_state r ps e) = eng_snapshot e" "eng_running (saved_state r ps e) = eng_running e"
  "eng_pending (saved_state r ps e) = eng_pending e" "eng_stopping (saved_state r ps e) = eng_stopping e"
  "eng_domains (saved_state r ps e) = eng_domains e" "eng_sleeper (saved_state r ps e) = eng_sleeper e"
  "eng_endpoints (saved_state r ps e) = eng_endpoints e"
  "eng_state_file (saved_state r ps e) = (case r of Inr _ \<Rightarrow> ps | Inl _ \<Rightarrow> eng_state_file e)"
  "eng_calls (saved_state r ps e) = eng_calls e" "eng_due (saved_state r ps e) = eng_due e"
  "eng_resuming (saved_state r ps e) = eng_resuming e" "eng_cfg (saved_state r ps e) = eng_cfg e"
  by (simp_all add: saved_state_def split: sum.split)

lemma eng_at_step_moves [simp]:
  "eng_running (eng_at_step t e) = eng_running e" "eng_snapshot (eng_at_step t e)
     = (eng_snapshot e)\<lparr>snap_state := Some EngStarting, snap_step := Some t, snap_error := None\<rparr>"
  "eng_pending (eng_at_step t e) = eng_pending e" "eng_stopping (eng_at_step t e) = eng_stopping e"
  "eng_domains (eng_at_step t e) = eng_domains e" "eng_sleeper (eng_at_step t e) = eng_sleeper e"
  "eng_endpoints (eng_at_step t e) = eng_endpoints e" "eng_state_file (eng_at_step t e) = eng_state_file e"
  "eng_calls (eng_at_step t e) = eng_calls e" "eng_due (eng_at_step t e) = eng_due e"
  "eng_resuming (eng_at_step t e) = eng_resuming e" "eng_cfg (eng_at_step t e) = eng_cfg e"
  by (simp_all add: eng_at_step_def)

text \<open>A method that can fail: what holds where it gives up and what holds where it ends.\<close>

definition outcome :: "(engine \<Rightarrow> bool) \<Rightarrow> (engine \<Rightarrow> 'a \<Rightarrow> bool) \<Rightarrow> engine \<times> (solon_error + 'a) \<Rightarrow> bool" where
  "outcome Q R x = (case x of (e, Inl err) \<Rightarrow> Q e | (e, Inr v) \<Rightarrow> R e v)"

lemma outcome_attempt [intro!]:
  "Q e \<Longrightarrow> (\<And>v. r = Inr v \<Longrightarrow> outcome Q R (k v)) \<Longrightarrow> outcome Q R (attempt r e k)"
  by (auto simp: outcome_def attempt_def split: sum.split)

lemma outcome_pair [simp]: "outcome Q R (e, Inl err) = Q e" "outcome Q R (e, Inr v) = R e v"
  by (simp_all add: outcome_def)

lemma outcome_then:
  "outcome Q R' x \<Longrightarrow> (\<And>e err. Q e \<Longrightarrow> outcome Q R (f (e, Inl err))) \<Longrightarrow> (\<And>e v. R' e v \<Longrightarrow> outcome Q R (f (e, Inr v)))
     \<Longrightarrow> outcome Q R (f x)"
  by (cases x, cases "snd x") (auto simp: outcome_def)

text \<open>What a failed start leaves as it was.\<close>

definition unstarted :: "engine \<Rightarrow> engine \<Rightarrow> bool" where
  "unstarted e0 e \<longleftrightarrow> eng_running e = eng_running e0 \<and> eng_pending e = eng_pending e0 \<and> eng_stopping e = eng_stopping e0
     \<and> eng_due e = eng_due e0 \<and> eng_resuming e = eng_resuming e0 \<and> eng_cfg e = eng_cfg e0
     \<and> eng_sleeper e = eng_sleeper e0"

definition resting :: "engine_snapshot \<Rightarrow> bool" where
  "resting s \<longleftrightarrow> published_ports s = [] \<and> snap_guest_address s = None \<and> ready_since_unix_ms s = None
     \<and> \<not> local_domains s \<and> \<not> local_domains_tls s \<and> snap_sleeping s = []"

definition drive_letter :: "string \<Rightarrow> bool" where
  "drive_letter d \<longleftrightarrow> (\<exists>c. d = [c] \<and> 97 \<le> code c \<and> code c \<le> 122)"

definition file_ok :: "persisted_state \<Rightarrow> bool" where
  "file_ok ps \<longleftrightarrow> distinct (ps_shares ps) \<and> list_all drive_letter (ps_shares ps)"

definition shares_ok :: "(string \<times> host_share) list \<Rightarrow> bool" where
  "shares_ok m \<longleftrightarrow> distinct (map fst m) \<and> distinct (map (share_port \<circ> snd) m)
     \<and> (\<forall>kv \<in> set m. share_name (snd kv) = fst kv \<and> share_host_path (snd kv) = drive_root (fst kv) \<and> drive_letter (fst kv)
          \<and> 9100 \<le> share_port (snd kv) \<and> share_port (snd kv) < 9126)"

section \<open>Shares\<close>

lemma letters_finite: "finite {d. drive_letter d}" and card_letters: "card {d. drive_letter d} \<le> 26"
proof -
  have s: "{d. drive_letter d} \<subseteq> (\<lambda>n. [char_of n]) ` {97..122::nat}"
    by (auto simp: drive_letter_def image_iff) (metis atLeastAtMost_iff char_of_char)
  then show "finite {d. drive_letter d}" by (rule finite_subset) simp
  show "card {d. drive_letter d} \<le> 26"
    using card_mono [OF _ s] card_image_le [of "{97..122::nat}" "\<lambda>n. [char_of n :: char]"] by simp
qed

lemma distinct_letters: "distinct ds \<Longrightarrow> list_all drive_letter ds \<Longrightarrow> length ds \<le> 26"
  using card_mono [OF letters_finite, of "set ds"] card_letters by (simp add: distinct_card list_all_iff subset_eq)

lemma first_free_spec: "first_free used p \<notin> set used \<and> p \<le> first_free used p \<and> (\<forall>q. p \<le> q \<and> q < first_free used p \<longrightarrow> q \<in> set used)"
proof (induction used p rule: first_free.induct)
  case (1 used p)
  show ?case
  proof (cases "p \<in> set used")
    case True
    then have "first_free used p = first_free used (Suc p)" by (simp add: first_free.simps [of used p])
    with 1 [OF True] True show ?thesis by (auto simp: Suc_le_eq nat_less_le)
  qed (auto simp: first_free.simps [of used p])
qed

lemma first_free_bound: "first_free used p \<le> p + length used"
proof -
  have "{p..<first_free used p} \<subseteq> set used" using first_free_spec [of used p] by auto
  then have "card {p..<first_free used p} \<le> card (set used)" by (rule card_mono [rotated]) simp
  then have "first_free used p - p \<le> card (set used)" by simp
  also have "\<dots> \<le> length used" by (rule card_length)
  finally show ?thesis by simp
qed

lemma update_new: "k \<notin> fst ` set m \<Longrightarrow> AList.update k v m = m @ [(k, v)]"
  by (induction m) auto

lemma share_map_distinct: "distinct (map share_name bs) \<Longrightarrow> share_map bs = map (\<lambda>sh. (share_name sh, sh)) bs"
proof (induction bs rule: rev_induct)
  case (snoc sh bs)
  then have "share_name sh \<notin> fst ` set (map (\<lambda>sh. (share_name sh, sh)) bs)" by force
  with snoc show ?case by (simp add: share_map_def update_new)
qed (simp add: share_map_def)

lemma boot_shares_nth:
  "boot_shares present ds = map2 boot_share [0..<length (filter (\<lambda>d. present (drive_root d)) ds)] (filter (\<lambda>d. present (drive_root d)) ds)"
  by (simp add: boot_shares_def enumerate_eq_zip)

lemma boot_shares_names: "map share_name (boot_shares present ds) = filter (\<lambda>d. present (drive_root d)) ds"
  by (rule nth_equalityI) (simp_all add: boot_shares_nth boot_share_def)

lemma boot_shares_ports:
  "map share_port (boot_shares present ds) = map (\<lambda>i. 9100 + i) [0..<length (filter (\<lambda>d. present (drive_root d)) ds)]"
  by (rule nth_equalityI) (simp_all add: boot_shares_nth boot_share_def)

lemma boot_shares_ok: "file_ok ps \<Longrightarrow> shares_ok (share_map (boot_shares present (ps_shares ps)))"
proof -
  assume f: "file_ok ps"
  let ?ds = "filter (\<lambda>d. present (drive_root d)) (ps_shares ps)"
  let ?bs = "boot_shares present (ps_shares ps)"
  have d: "distinct ?ds" "list_all drive_letter ?ds" using f by (auto simp: file_ok_def list_all_iff)
  then have n: "length ?ds \<le> 26" by (rule distinct_letters)
  have m: "share_map ?bs = map (\<lambda>sh. (share_name sh, sh)) ?bs"
    using d by (intro share_map_distinct) (simp add: boot_shares_names)
  have "distinct (map share_name ?bs)" "distinct (map share_port ?bs)"
    using d by (simp_all only: boot_shares_names boot_shares_ports) (simp add: distinct_map)
  moreover have "share_host_path sh = drive_root (share_name sh) \<and> drive_letter (share_name sh) \<and> 9100 \<le> share_port sh \<and> share_port sh < 9126"
    if sh: "sh \<in> set ?bs" for sh
  proof -
    obtain i where "i < length ?ds" "sh = boot_share i (?ds ! i)"
      using sh by (auto simp: boot_shares_nth set_zip)
    then show ?thesis using d(2) [unfolded list_all_length] n by (auto simp: boot_share_def)
  qed
  ultimately show ?thesis by (auto simp: shares_ok_def m comp_def)
qed

section \<open>Starting\<close>

text \<open>Where a start gives up, and the machine it ends with: its shares, relays and tasks.\<close>

definition vm_ok :: "running_vm \<Rightarrow> bool" where
  "vm_ok r \<longleftrightarrow> shares_ok (run_shares r) \<and> relays_inv (run_ports r) \<and> {EventLoop, ExitWatcher} \<subseteq> set (run_tasks r)"

definition gave_up :: "engine \<Rightarrow> engine \<Rightarrow> bool" where
  "gave_up e0 e \<longleftrightarrow> unstarted e0 e \<and> eng_endpoints e = eng_endpoints e0 \<and> eng_domains e = eng_domains e0
     \<and> (resting (eng_snapshot e0) \<longrightarrow> resting (eng_snapshot e)) \<and> (file_ok (eng_state_file e0) \<longrightarrow> file_ok (eng_state_file e))
     \<and> resume_projects (eng_state_file e) = resume_projects (eng_state_file e0)
     \<and> resume_containers (eng_state_file e) = resume_containers (eng_state_file e0)"

definition brought_up :: "engine \<Rightarrow> engine \<Rightarrow> running_vm \<Rightarrow> bool" where
  "brought_up e0 e r \<longleftrightarrow> unstarted e0 e \<and> eng_endpoints e = [] \<and> eng_domains e = []
     \<and> (file_ok (eng_state_file e0) \<longrightarrow> file_ok (eng_state_file e) \<and> vm_ok r)
     \<and> resume_projects (eng_state_file e) = resume_projects (eng_state_file e0)
     \<and> resume_containers (eng_state_file e) = resume_containers (eng_state_file e0)"

lemmas start_ends = gave_up_def brought_up_def unstarted_def resting_def

lemma attach_outcome:
  assumes "gave_up e0 e" and "file_ok (eng_state_file e0) \<Longrightarrow> shares_ok (share_map bs)"
  shows "outcome (gave_up e0) (brought_up e0) (attach env vm guid ep bs e)"
  unfolding attach_def Let_def
  by (intro outcome_attempt) (use assms in \<open>auto simp: start_ends vm_ok_def set_agent_def domains_for_def relays_inv_apply relays_inv_new\<close>)

lemma gave_up_moves [simp]:
  "gave_up e0 (eng_at_step t e) = gave_up e0 e" "gave_up e0 (note_call c e) = gave_up e0 e"
  "gave_up e0 (eng_set (\<lambda>s. s\<lparr>snap_image_version := v\<rparr>) e) = gave_up e0 e"
  "gave_up e0 (eng_set (\<lambda>s. s\<lparr>recovered_from_crash := w\<rparr>) e) = gave_up e0 e"
  by (simp_all add: start_ends)

lemma brought_up_moves [simp]:
  "brought_up e0 (note_call c e) r = brought_up e0 e r" "brought_up e0 (eng_set f e) r = brought_up e0 e r"
  "brought_up e0 e (r\<lparr>run_network := net\<rparr>) = brought_up e0 e r"
  by (simp_all add: start_ends vm_ok_def)

lemma brought_up_console: "brought_up e0 e r \<Longrightarrow> brought_up e0 e (r\<lparr>run_network := net, run_tasks := run_tasks r @ ts\<rparr>)"
  by (simp add: start_ends vm_ok_def)

lemma routed_outcome:
  "outcome (gave_up e0) (brought_up e0) x \<Longrightarrow>
   outcome (gave_up e0) (brought_up e0)
     (case x of
        (e, Inl err) \<Rightarrow> (e, Inl err)
      | (e, Inr r) \<Rightarrow> (note_call (EnsureRoute a) e, Inr (r\<lparr>run_network := net, run_tasks := run_tasks r @ ts\<rparr>)))"
  by (auto simp: outcome_def brought_up_console split: prod.splits sum.splits)

lemma boot_machine_outcome:
  assumes "gave_up e0 e" and "file_ok (eng_state_file e0) \<Longrightarrow> shares_ok (share_map bs)"
  shows "outcome (gave_up e0) (brought_up e0) (boot_machine env net bs e)"
  unfolding boot_machine_def Let_def if_not_P
  by (intro outcome_attempt, simp_all add: assms(1))
    (auto simp del: outcome_pair intro!: outcome_attempt routed_outcome attach_outcome simp: assms)

lemma gave_up_saved:
  "gave_up e0 e \<Longrightarrow> previous = eng_state_file e0 \<Longrightarrow>
   gave_up e0 (e\<lparr>eng_state_file := boot_state env previous img net (boot_shares present (ps_shares previous))\<rparr>)"
  by (auto simp: start_ends boot_state_def file_ok_def boot_shares_names list_all_iff)

lemma boot_outcome:
  assumes "gave_up e0 e" and "previous = eng_state_file e0"
  shows "outcome (gave_up e0) (brought_up e0) (boot env previous e)"
  unfolding boot_def Let_def
  by (intro outcome_attempt boot_machine_outcome gave_up_saved) (simp_all add: assms boot_shares_ok)

lemma reattach_outcome:
  assumes "gave_up e0 e" and "previous = eng_state_file e0"
  shows "outcome (gave_up e0) (brought_up e0) (reattach env previous i guid e)"
proof -
  have "outcome (gave_up e0) (brought_up e0)
      (attach env i guid (ps_endpoint_id previous) (boot_shares (env_exists env) (ps_shares previous)) e)"
    using assms by (intro attach_outcome) (simp_all add: boot_shares_ok)
  then show ?thesis by (auto simp: outcome_def reattach_def Let_def split: prod.splits sum.splits option.splits)
qed

lemma gave_up_refl: "gave_up e e"
  by (simp add: start_ends)

lemma provision_outcome: "outcome (gave_up e) (brought_up e) (provision env e)"
  unfolding provision_def Let_def
  by (intro outcome_attempt)
    (auto simp del: outcome_pair simp: gave_up_refl split: option.splits intro!: boot_outcome reattach_outcome)

lemma start_begin_cases:
  assumes "eng_running e = None"
  shows "(\<exists>r e'. start_begin env e = (e'\<lparr>eng_pending := Some r\<rparr>, Inr ()) \<and> brought_up (e\<lparr>eng_stopping := False\<rparr>) e' r)
    \<or> (\<exists>err e'. start_begin env e = (eng_set (failed_with err) (note_call DeleteNetwork (note_call TerminateOrphans e')), Inl err)
         \<and> gave_up (e\<lparr>eng_stopping := False\<rparr>) e')"
  using provision_outcome [of "e\<lparr>eng_stopping := False\<rparr>" env] assms
  by (auto simp: start_begin_def outcome_def failed_with_def [abs_def] split: prod.splits sum.splits)

section \<open>The invariant\<close>

definition eng_inv :: "engine \<Rightarrow> bool" where
  "eng_inv e \<longleftrightarrow> file_ok (eng_state_file e)
     \<and> (\<forall>r. eng_running e = Some r \<or> eng_pending e = Some r \<longrightarrow> vm_ok r \<and> \<not> eng_stopping e)
     \<and> (eng_running e = None \<or> eng_pending e = None)
     \<and> (eng_running e = None \<and> eng_pending e = None \<longrightarrow>
          resting (eng_snapshot e) \<and> snap_state (eng_snapshot e) \<in> {Some EngStopped, Some EngFailed}
          \<and> eng_endpoints e = [] \<and> eng_domains e = [] \<and> eng_sleeper e = default_sleep_state)"

lemma eng_inv_new: "file_ok ps \<Longrightarrow> eng_inv (engine_new cfg ps)"
  by (simp add: eng_inv_def engine_new_def resting_def snapshot_default_def)

lemma eng_inv_start_begin: "eng_inv e \<Longrightarrow> eng_pending e = None \<Longrightarrow> eng_inv (fst (start_begin env e))"
proof (cases "eng_running e")
  case None
  assume "eng_inv e" "eng_pending e = None"
  with None start_begin_cases [OF None, of env] show ?thesis
    by (auto simp: eng_inv_def start_ends failed_with_def)
qed (simp add: start_begin_def)

lemma eng_inv_start_finish: "eng_inv e \<Longrightarrow> eng_inv (start_finish env e)"
  by (auto simp: start_finish_def eng_inv_def split: option.split)

lemma eng_inv_stop: "eng_inv e \<Longrightarrow> eng_pending e = None \<Longrightarrow> eng_inv (stop env force e)"
  by (cases "eng_running e")
    (auto simp: stop_def eng_inv_def Let_def resting_def file_ok_def set_agent_def domains_for_def split: sum.split)

lemma eng_inv_event: "eng_inv e \<Longrightarrow> eng_pending e \<noteq> None \<or> eng_running e \<noteq> None \<Longrightarrow> eng_inv (on_agent_event ev e)"
  by (cases ev) (auto simp: eng_inv_def vm_ok_def intro: relays_inv_apply)

lemma eng_inv_lost:
  "eng_inv e \<Longrightarrow> eng_pending e \<noteq> None \<or> eng_running e \<noteq> None \<Longrightarrow>
     eng_inv (on_stream_lost e) \<and> eng_inv (on_exit shown e) \<and> eng_inv (sleepers_changed e)"
  by (auto simp: eng_inv_def on_stream_lost_def on_exit_def sleepers_changed_def)

lemma shares_ok_add:
  assumes "shares_ok m" "drive_letter d" "d \<notin> fst ` set m"
  shows "shares_ok (AList.update d \<lparr>share_name = d, share_host_path = drive_root d,
           share_port = first_free (map (share_port \<circ> snd) m) 9100, share_read_only = False\<rparr> m)"
proof -
  have "distinct (d # map fst m)" "list_all drive_letter (d # map fst m)"
    using assms by (auto simp: shares_ok_def list_all_iff)
  from distinct_letters [OF this] have "length m \<le> 25" by simp
  then have "first_free (map (share_port \<circ> snd) m) 9100 < 9126"
    using first_free_bound [of "map (share_port \<circ> snd) m" 9100] by simp
  with assms first_free_spec [of "map (share_port \<circ> snd) m" 9100] show ?thesis
    by (auto simp: shares_ok_def update_new)
qed

lemma guest_path_letter: "guest_path_for hp = Some (d, g) \<Longrightarrow> drive_letter d"
  by (erule guest_path_for_cases)
    (auto simp: drive_letter_def is_ascii_alphabetic_def ascii_lower_def)

lemma eng_inv_mount_drive:
  assumes "eng_inv e" "eng_running e = Some r" "drive_letter d"
  shows "eng_inv (fst (mount_drive env d r e))"
  using assms shares_ok_add [of "run_shares r" d]
  by (auto simp: mount_drive_def Let_def attempt_def remember_share_def eng_inv_def vm_ok_def file_ok_def split: sum.split)

lemma eng_inv_share: "eng_inv e \<Longrightarrow> eng_inv (fst (ensure_share env hp e))"
proof (cases "\<exists>d g r. guest_path_for hp = Some (d, g) \<and> share_exists env (drive_root d) \<and> eng_running e = Some r")
  case True
  assume e: "eng_inv e"
  from True obtain d g r where d: "guest_path_for hp = Some (d, g)" "share_exists env (drive_root d)" "eng_running e = Some r"
    by blast
  then have "fst (ensure_share env hp e) = fst (mount_drive env d r e)"
    by (auto simp: ensure_share_def split: prod.split sum.split)
  with eng_inv_mount_drive [OF e d(3) guest_path_letter [OF d(1)]] show ?thesis by simp
qed (auto simp: ensure_share_def split: option.splits prod.splits)

lemma eng_inv_call: "eng_inv e \<Longrightarrow> eng_inv (fst (agent_call c a e))"
  by (simp add: agent_call_def eng_inv_def)

lemma eng_inv_resume:
  "eng_inv e \<Longrightarrow> eng_inv (resume_take stg saved (e\<lparr>eng_due := n\<rparr>))"
  by (auto simp: resume_take_def Let_def eng_inv_def file_ok_def split: sum.split)

lemma eng_inv_run: "eng_inv e \<Longrightarrow> eng_inv (resume_run answer pc (e\<lparr>eng_resuming := rest\<rparr>))"
  by (auto simp: resume_run_def engine_exec_def agent_call_def Let_def eng_inv_def split: prod.splits sum.splits option.splits)

lemma eng_inv_step: "eng_step e e' \<Longrightarrow> eng_inv e \<Longrightarrow> eng_inv e'"
proof (induction rule: eng_step.induct)
  case (Command e answer command t)
  then show ?case by (simp add: engine_exec_def Let_def eng_inv_call)
next
  case (Measure e m)
  then show ?case by (simp add: engine_metrics_def eng_inv_call)
next
  case (Checkup e h)
  then show ?case
    using eng_inv_call [of e Health h] by (auto simp: engine_health_def split: prod.splits sum.splits)
next
  case (Settle e stg)
  then show ?case by (simp add: apply_sleep_settings_def eng_inv_def)
qed (auto simp: eng_inv_start_begin eng_inv_start_finish eng_inv_stop eng_inv_event eng_inv_lost eng_inv_share eng_inv_resume eng_inv_run)

interpretation engine_machine: machine eng_step eng_inv
  by unfold_locales (rule eng_inv_step)

section \<open>A start that succeeds\<close>

definition answers_well :: "host_env \<Rightarrow> bool" where
  "answers_well env \<longleftrightarrow> env_ensure_dirs env = Inr () \<and> (\<exists>rep. env_prereq env = Inr rep \<and> report_ok rep)
     \<and> (\<forall>d. \<exists>i. env_image env d = Inr (Inr i)) \<and> (\<forall>p g. \<exists>b. env_disk env p g = Inr (Inr b))
     \<and> (\<exists>l. env_orphans env = Inr (Inr l)) \<and> (\<exists>n. env_network env = Inr (Inr n))
     \<and> (\<forall>c. env_create env c = Inr (Inr ())) \<and> env_save env = Inr () \<and> env_start env = Inr (Inr ())
     \<and> (\<exists>rid g. env_runtime_id env (env_new_vm_id env) = Inr rid \<and> env_guid env rid = Inr g \<and> env_connect env g = Inr ())
     \<and> (\<exists>h. env_health env = Inr h \<and> protocol_version h = PROTOCOL_VERSION) \<and> env_configure env = Inr ()
     \<and> (\<exists>evs bs. env_events env = Inr evs \<and> await_ready evs [] = Inr bs)"

definition succeeds :: "engine \<times> (solon_error + 'a) \<Rightarrow> bool" where
  "succeeds x \<longleftrightarrow> (\<exists>v. snd x = Inr v)"

lemma succeeds_attempt: "r = Inr v \<Longrightarrow> succeeds (k v) \<Longrightarrow> succeeds (attempt r e k)"
  by (simp add: attempt_def)

lemma attach_succeeds: "answers_well env \<Longrightarrow> succeeds (attach env vm guid ep bs e)"
  by (auto simp: answers_well_def attach_def Let_def succeeds_def attempt_def)

lemma routed_succeeds:
  "succeeds x \<Longrightarrow> succeeds (case x of (e, Inl err) \<Rightarrow> (e, Inl err) | (e, Inr r) \<Rightarrow> (f e, Inr (g r)))"
  by (cases x) (auto simp: succeeds_def)

lemma boot_machine_succeeds: "answers_well env \<Longrightarrow> succeeds (boot_machine env net bs e)"
proof -
  assume w: "answers_well env"
  then obtain rid g h where "env_runtime_id env (env_new_vm_id env) = Inr rid" "env_guid env rid = Inr g"
      "env_connect env g = Inr ()" "env_health env = Inr h" "protocol_version h = PROTOCOL_VERSION"
      "env_configure env = Inr ()" "env_start env = Inr (Inr ())"
    unfolding answers_well_def by blast
  then show ?thesis
    by (simp add: boot_machine_def Let_def attempt_def joined_def routed_succeeds attach_succeeds [OF w])
qed

lemma boot_succeeds: "answers_well env \<Longrightarrow> succeeds (boot env previous e)"
proof -
  assume w: "answers_well env"
  then obtain i b where "env_image env (cfg_image_dir (eng_cfg e)) = Inr (Inr i)"
      "env_disk env (data_disk_path (cfg_root (eng_cfg e))) (data_disk_gib (env_settings env)) = Inr (Inr b)"
    unfolding answers_well_def by blast
  with w boot_machine_succeeds [OF w] show ?thesis
    by (auto simp: answers_well_def boot_def Let_def attempt_def joined_def io_result_def image_result_def)
qed

lemma reattach_succeeds: "answers_well env \<Longrightarrow> succeeds (reattach env previous i guid e)"
  using attach_succeeds [of env i guid "ps_endpoint_id previous" "boot_shares (env_exists env) (ps_shares previous)" e]
  by (auto simp: reattach_def Let_def succeeds_def split: prod.splits sum.splits)

lemma provision_succeeds: "answers_well env \<Longrightarrow> succeeds (provision env e)"
proof -
  assume w: "answers_well env"
  then have "io_result (env_ensure_dirs env) = Inr ()" "prereq_result env = Inr ()"
    by (auto simp: answers_well_def io_result_def prereq_result_def)
  then show ?thesis using boot_succeeds [OF w] reattach_succeeds [OF w]
    by (auto simp: provision_def Let_def attempt_def split: option.splits)
qed

lemma stop_moves [simp]:
  "eng_running (stop env force e) = None" "eng_pending (stop env force e) = eng_pending e"
  "eng_stopping (stop env force e)" "eng_resuming (stop env force e) = eng_resuming e"
  "eng_due (stop env force e) = eng_due e"
  by (auto simp: stop_def Let_def split: option.split)

lemma start_of_begin: "start env e = (start_finish env (fst (start_begin env e)), snd (start_begin env e))"
  by (simp add: start_def split: prod.split)

lemma start_succeeds: "answers_well env \<Longrightarrow> eng_running e = None \<Longrightarrow> \<exists>r e'. start_begin env e = (e'\<lparr>eng_pending := Some r\<rparr>, Inr ())"
  using provision_succeeds [of env "e\<lparr>eng_stopping := False\<rparr>"]
  by (auto simp: start_begin_def succeeds_def split: prod.splits sum.splits)

text \<open>The lists of what ran pass unchanged through a start.\<close>

lemma start_keeps_resume:
  assumes "start env e = (e', Inr ())" "eng_running e = None"
  shows "resume_projects (eng_state_file e') = resume_projects (eng_state_file e)
    \<and> resume_containers (eng_state_file e') = resume_containers (eng_state_file e)
    \<and> eng_resuming e' = eng_resuming e \<and> eng_due e' = Suc (eng_due e)"
  using start_begin_cases [OF assms(2), of env] assms(1)
  by (auto simp: start_of_begin start_finish_def start_ends)

lemma stop_records:
  "eng_running e = Some r \<Longrightarrow> stop_save env = Inr () \<Longrightarrow>
     (resume_projects (eng_state_file (stop env False e)), resume_containers (eng_state_file (stop env False e)))
       = was_running env (eng_endpoints e)"
  by (simp add: stop_def Let_def)

lemma shares_ok_list:
  "shares_ok m \<Longrightarrow> map fst m = map share_name (map snd m) \<and> distinct (map fst m)
     \<and> distinct (map share_port (map snd m)) \<and> share_port ` set (map snd m) \<subseteq> {9100..<9126}"
  by (auto simp: shares_ok_def comp_def)

section \<open>Properties\<close>



text \<open>
  C27. Whatever state the engine has come to, a restart brings it to ready as soon as Windows, the disk and
  the new machine answer well, however the stop of the old machine went.
\<close>

theorem restart_recovers:
  assumes "answers_well env" "eng_pending e = None"
  shows "\<exists>e' r. restart senv env e = (e', Inr ()) \<and> eng_running e' = Some r \<and> snap_state (eng_snapshot e') = Some EngReady
     \<and> snap_error (eng_snapshot e') = None \<and> eng_pending e' = None"
proof -
  obtain r e1 where "start_begin env (stop senv False e) = (e1\<lparr>eng_pending := Some r\<rparr>, Inr ())"
    using start_succeeds [OF assms(1)] by fastforce
  then show ?thesis by (simp add: restart_def start_of_begin start_finish_def ready_snapshot_def)
qed


text \<open>
  A machine that exits by itself leaves the engine failed with the machine still in its place, and a
  start then reports success and does nothing.
\<close>

theorem start_ignores_dead_machine:
  assumes "eng_running e = Some r" "eng_pending e = None" "\<not> eng_stopping e"
  shows "start env (on_exit shown e) = (on_exit shown e, Inr ()) \<and> snap_state (eng_snapshot (on_exit shown e)) = Some EngFailed"
  using assms by (simp add: start_of_begin start_begin_def start_finish_def on_exit_def failed_with_def)

text \<open>
  Ports announced after the engine is ready and before the machine is published are shown but not relayed: an agent
  that is already serving announces them right behind its readiness.
\<close>

theorem ports_before_publication_lost:
  assumes "eng_running e = None" "eng_pending e = Some r"
  shows "let e' = start_finish env (on_agent_event (PortsChanged bs) e)
         in published_ports (eng_snapshot e') = bs \<and> eng_running e' = Some r"
  using assms by (simp add: start_finish_def ready_snapshot_def Let_def)

section \<open>Witnesses\<close>

definition calm_image :: resolved_image where
  "calm_image =
     (let f = \<lparr>image_name = ''f'', sha256_hex = [], file_size = 0, release = None\<rparr>
      in \<lparr>image_dir = ''C:'', manifest = \<lparr>schema = 1, version = ''1'', built_at = [], kernel_file = f, initrd_file = f,
           rootfs_file = f, docker_engine = [], kernel_cmdline = ''quiet''\<rparr>\<rparr>)"

definition calm_net :: guest_network where
  "calm_net = (bare_network (Some ''ep''))\<lparr>gn_address := [172, 30, 0, 2]\<rparr>"

definition calm_health :: health_report where
  "calm_health =
     \<lparr>protocol_version = 1, agent_version = [], kernel = [], hr_uptime_s = 0, docker_ping = True,
      hr_engine = \<lparr>containerd_pid = None, dockerd_pid = None, docker_ready_at_uptime_s = None, restarts = 0, last_error = None\<rparr>,
      data_disk = None, hr_mem_total_kb = 0, hr_mem_available_kb = 0, network_configured = True, mounts = []\<rparr>"

definition calm_host :: host_env where
  "calm_host =
     \<lparr>env_ensure_dirs = Inr (), env_settings = settings_default, env_prereq = Inr \<lparr>report_ok = True, report_items = []\<rparr>,
      env_open = \<lambda>i. False, env_runtime_id = \<lambda>i. Inr i, env_guid = \<lambda>r. Inr r, env_connect = \<lambda>g. Inr (), env_ping = Inr (),
      env_image = \<lambda>d. Inr (Inr calm_image), env_disk = \<lambda>p g. Inr (Inr True), env_orphans = Inr (Inr []),
      env_new_vm_id = ''vm'', env_network = Inr (Inr calm_net), env_exists = \<lambda>p. True, env_home_edition = False,
      env_create = \<lambda>c. Inr (Inr ()), env_save = Inr (), env_start = Inr (Inr ()), env_health = Inr calm_health,
      env_configure = Inr (), env_events = Inr [Got (EngineReady 0)], env_http_bound = True, env_ca_loaded = False,
      env_tls_bound = False, env_now_ms = 5, env_boot_ms = 3\<rparr>"

definition calm_engine :: engine where
  "calm_engine = engine_new \<lparr>cfg_root = ''C:'', cfg_image_dir = ''C:'', cfg_settings = settings_default\<rparr>
     (persisted_default\<lparr>ps_shares := [''c'', ''d'']\<rparr>)"

definition calm_stop :: stop_env where
  "calm_stop =
     \<lparr>stop_ps = Inr \<lparr>exit_code = Some 0, stdout = ''a1'', stderr = [], ms = 0, timed_out = False\<rparr>,
      stop_shutdown = Inr (), stop_exited = True, stop_save = Inr (), stop_now_ms = 9\<rparr>"

lemma calm_answers: "answers_well calm_host"
  by (auto simp: answers_well_def calm_host_def calm_health_def PROTOCOL_VERSION_def)

lemma calm_file: "file_ok (persisted_default\<lparr>ps_shares := [''c'', ''d'']\<rparr>)"
  by (simp add: file_ok_def drive_letter_def)



theorem restart_recovers_witness:
  "\<exists>e'. restart calm_stop calm_host calm_engine = (e', Inr ()) \<and> snap_state (eng_snapshot e') = Some EngReady"
  using restart_recovers [OF calm_answers, of calm_engine calm_stop] by (auto simp: calm_engine_def engine_new_def)

definition calm_running :: engine where
  "calm_running = calm_engine\<lparr>eng_running := Some \<lparr>run_vm = ''vm'', run_guid = ''vm'', run_network = calm_net, run_tasks = [],
     run_ports = new_relays, run_shares = []\<rparr>\<rparr>"


end
