(* ===== verification/Agent_System.thy ===== *)
theory Agent_System
  imports Protocol "HOL-Library.Word"
begin

text \<open>
  The duties of the first process of the machine (\<open>crates/solon-agent/src/system.rs\<close>): finding, checking and
  mounting the data disk, mounting the shares announced at boot, running commands, supervising
  containerd and dockerd, reaping orphans, watching the disk, shutting down, and the counters of the machine.
  Files below \<open>/proc\<close>, devices, processes and system calls are arguments; what is done is returned.
\<close>

section \<open>The data disk\<close>

record linux_view =
  read_proc :: "string \<Rightarrow> string option"
  dev_exists :: "string \<Rightarrow> bool"
  dev_bytes :: "string \<Rightarrow> string + bytes"

definition read_at_exact :: "bytes \<Rightarrow> nat \<Rightarrow> nat \<Rightarrow> bytes option" where
  "read_at_exact b off n = (if off + n \<le> length b then Some (take n (drop off b)) else None)"

definition ext4_label :: "linux_view \<Rightarrow> string \<Rightarrow> string" where
  "ext4_label l dev =
     (case dev_bytes l dev of
        Inl _ \<Rightarrow> []
      | Inr b \<Rightarrow>
          (case read_at_exact b (1024 + 0x78) 16 of
             None \<Rightarrow> []
           | Some lab \<Rightarrow> from_utf8_lossy (takeWhile (\<lambda>c. c \<noteq> CHR 0x00) lab)))"

definition disk_names :: "string list" where
  "disk_names = map (\<lambda>i. ''/dev/sd'' @ [char_of (97 + i :: nat)]) [0..<26]"

fun find_device :: "linux_view \<Rightarrow> string list \<Rightarrow> string option \<Rightarrow> string option" where
  "find_device l [] blank = blank"
| "find_device l (dev # devs) blank =
     (if \<not> dev_exists l dev then find_device l devs blank
      else if ext4_label l dev \<in> {''solon-data'', ''monodon-data''} then Some dev
      else if ext4_label l dev \<in> {''solon-root'', ''monodon-root''} then find_device l devs blank
      else find_device l devs (if blank = None then Some dev else blank))"

definition find_data_device :: "linux_view \<Rightarrow> string option" where
  "find_data_device l = find_device l disk_names None"

definition DATA_MOUNT :: string where "DATA_MOUNT = ''/var/lib/solon''"
definition DOCKER_SOCK :: string where "DOCKER_SOCK = ''/run/docker.sock''"
definition CONTAINERD_SOCK :: string where "CONTAINERD_SOCK = ''/run/containerd/containerd.sock''"

definition has_ext4_superblock :: "linux_view \<Rightarrow> string \<Rightarrow> string + bool" where
  "has_ext4_superblock l dev =
     (case dev_bytes l dev of
        Inl e \<Rightarrow> Inl (''ouverture '' @ dev @ '' : '' @ e)
      | Inr b \<Rightarrow>
          (case read_at_exact b 0x438 2 of
             None \<Rightarrow> Inl ''failed to fill whole buffer''
           | Some m \<Rightarrow> Inr (code (m ! 0) + 256 * code (m ! 1) = 0xEF53)))"

text \<open>The looks at the devices until the deadline of five seconds; at the end of the list it has passed.\<close>

fun await_device :: "linux_view list \<Rightarrow> (linux_view \<times> string) option" where
  "await_device [] = None"
| "await_device (l # ls) = (case find_data_device l of Some d \<Rightarrow> Some (l, d) | None \<Rightarrow> await_device ls)"

datatype disk_action = Mkfs string | Fsck string | MountOn string string string string

record disk_env =
  mkfs_output :: "string + bool \<times> bytes"
  fsck_output :: "string + int option \<times> bytes \<times> bytes"
  mount_call :: "string \<Rightarrow> string + unit"

definition bind_mounts :: "(string \<times> string) list" where
  "bind_mounts = [(''docker'', ''/var/lib/docker''), (''containerd'', ''/var/lib/containerd''), (''agent'', ''/var/lib/solon-agent'')]"

fun mount_binds :: "disk_env \<Rightarrow> (string \<times> string) list \<Rightarrow> disk_action list \<Rightarrow> disk_action list \<times> (string + unit)" where
  "mount_binds env [] acts = (acts, Inr ())"
| "mount_binds env ((sub, target) # rest) acts =
     (let acts = acts @ [MountOn (DATA_MOUNT @ ''/'' @ sub) target [] []]
      in case mount_call env target of Inl e \<Rightarrow> (acts, Inl e) | Inr _ \<Rightarrow> mount_binds env rest acts)"

definition last_line :: "string \<Rightarrow> string" where
  "last_line s = trim (if str_lines s = [] then [] else last (str_lines s))"

text \<open>Checking and mounting a disk that has a file system.\<close>

definition check_and_mount :: "disk_env \<Rightarrow> string \<Rightarrow> bool \<Rightarrow> disk_action list \<Rightarrow> disk_action list \<times> (string + data_disk_report)" where
  "check_and_mount env dev formatted acts =
     (let acts = acts @ [Fsck dev]
      in case fsck_output env of
           Inl e \<Rightarrow> (acts, Inl (''e2fsck : '' @ e))
         | Inr (cd, out, err) \<Rightarrow>
             let ex = (case cd of Some c \<Rightarrow> c | None \<Rightarrow> -1)
             in if ex \<ge> 4 then (acts, Inl (''e2fsck code '' @ dec_of_nat (nat ex) @ '' : '' @ from_utf8_lossy err))
                else let acts = acts @ [MountOn dev DATA_MOUNT ''ext4'' ''data=ordered'']
                     in (case mount_call env DATA_MOUNT of
                           Inl e \<Rightarrow> (acts, Inl e)
                         | Inr _ \<Rightarrow>
                             (case mount_binds env bind_mounts acts of
                                (acts, Inl e) \<Rightarrow> (acts, Inl e)
                              | (acts, Inr _) \<Rightarrow>
                                  (acts, Inr \<lparr>device = dev, formatted_now = formatted, fsck_exit = ex,
                                              fsck_summary = last_line (from_utf8_lossy out), mounted_at = DATA_MOUNT\<rparr>))))"

definition prepare_data_disk :: "linux_view list \<Rightarrow> disk_env \<Rightarrow> disk_action list \<times> (string + data_disk_report)" where
  "prepare_data_disk looks env =
     (case await_device looks of
        None \<Rightarrow> ([], Inl (''disque de donn'' @ [CHR 0xC3, CHR 0xA9] @ ''es absent''))
      | Some (l, dev) \<Rightarrow>
          (case has_ext4_superblock l dev of
             Inl e \<Rightarrow> ([], Inl e)
           | Inr True \<Rightarrow> check_and_mount env dev False []
           | Inr False \<Rightarrow>
               (case mkfs_output env of
                  Inl e \<Rightarrow> ([Mkfs dev], Inl (''mkfs.ext4 : '' @ e))
                | Inr (ok, err) \<Rightarrow>
                    if ok then check_and_mount env dev True [Mkfs dev]
                    else ([Mkfs dev], Inl (''mkfs.ext4 a '' @ [CHR 0xC3, CHR 0xA9] @ ''chou'' @ [CHR 0xC3, CHR 0xA9] @ '' : '' @ from_utf8_lossy err)))))"

section \<open>Mounts\<close>

definition nth_field :: "nat \<Rightarrow> string \<Rightarrow> string option" where
  "nth_field n line = (let ws = split_whitespace line in if n < length ws then Some (ws ! n) else None)"

definition is_mounted :: "linux_view \<Rightarrow> string \<Rightarrow> bool" where
  "is_mounted l target =
     (case read_proc l ''/proc/self/mounts'' of
        None \<Rightarrow> False
      | Some m \<Rightarrow> list_ex (\<lambda>line. nth_field 1 line = Some target) (str_lines m))"

definition plan9_mounts :: "linux_view \<Rightarrow> string list" where
  "plan9_mounts l =
     (case read_proc l ''/proc/self/mounts'' of
        None \<Rightarrow> []
      | Some m \<Rightarrow> List.map_filter (\<lambda>line. if nth_field 2 line = Some ''9p'' then nth_field 1 line else None) (str_lines m))"

datatype mount_flag = NoSuid | NoExec | NoDev

definition virtual_filesystems :: "(string \<times> string \<times> mount_flag list \<times> string) list" where
  "virtual_filesystems =
     [(''/proc'', ''proc'', [NoSuid, NoExec, NoDev], []),
      (''/sys'', ''sysfs'', [NoSuid, NoExec, NoDev], []),
      (''/dev'', ''devtmpfs'', [NoSuid], ''mode=0755''),
      (''/run'', ''tmpfs'', [NoSuid, NoDev], ''mode=0755''),
      (''/dev/pts'', ''devpts'', [NoSuid, NoExec], ''gid=5,mode=0620,ptmxmode=0666''),
      (''/dev/shm'', ''tmpfs'', [NoSuid, NoExec, NoDev], ''mode=1777''),
      (''/dev/mqueue'', ''mqueue'', [NoSuid, NoExec, NoDev], []),
      (''/tmp'', ''tmpfs'', [NoSuid, NoDev], ''mode=1777''),
      (''/sys/fs/cgroup'', ''cgroup2'', [NoSuid, NoExec, NoDev], ''nsdelegate,memory_recursiveprot''),
      (''/sys/kernel/security'', ''securityfs'', [NoSuid, NoExec, NoDev], [])]"

text \<open>
  Each is mounted unless it is there, which is looked up anew, as the list of mounts can be read only
  once \<open>/proc\<close> is there.
\<close>

fun mount_each :: "('w \<Rightarrow> string \<Rightarrow> bool) \<Rightarrow> (string \<Rightarrow> 'w \<Rightarrow> 'w) \<Rightarrow> (string \<times> 'a) list \<Rightarrow> 'w \<Rightarrow> string list \<Rightarrow> 'w \<times> string list" where
  "mount_each mounted do_mount [] w asked = (w, asked)"
| "mount_each mounted do_mount ((target, how) # rest) w asked =
     (if mounted w target then mount_each mounted do_mount rest w asked
      else mount_each mounted do_mount rest (do_mount target w) (asked @ [target]))"

definition mount_virtual_filesystems :: "('w \<Rightarrow> string \<Rightarrow> bool) \<Rightarrow> (string \<Rightarrow> 'w \<Rightarrow> 'w) \<Rightarrow> 'w \<Rightarrow> 'w \<times> string list" where
  "mount_virtual_filesystems mounted do_mount w = mount_each mounted do_mount virtual_filesystems w []"

definition subtree_control :: "string \<Rightarrow> string" where
  "subtree_control ctrls = trim (concat (map (\<lambda>c. ''+'' @ c @ '' '') (split_whitespace ctrls)))"

definition cmdline_flag :: "linux_view \<Rightarrow> string \<Rightarrow> bool" where
  "cmdline_flag l flag =
     (case read_proc l ''/proc/cmdline'' of None \<Rightarrow> False | Some c \<Rightarrow> flag \<in> set (split_whitespace c))"

definition legacy_mode :: "linux_view \<Rightarrow> bool" where
  "legacy_mode l = cmdline_flag l ''solon.fs=9p''"

section \<open>Shares\<close>

record plan9_env =
  p9_mkdir :: "string + unit"
  p9_connect :: "string + nat"
  p9_mount :: "string + unit"
  p9_ms :: nat
  nul_text :: string

definition plan9_options :: "nat \<Rightarrow> mount_share_request \<Rightarrow> string" where
  "plan9_options fd req =
     ''trans=fd,rfdno='' @ dec_of_nat fd @ '',wfdno='' @ dec_of_nat fd @ '',aname='' @ ms_name req
     @ (if contains_sub ''msize='' (extra_options req) then [] else '',msize=65536'')
     @ (if extra_options req = [] then [] else '','' @ extra_options req)"

definition mount_plan9 :: "plan9_env \<Rightarrow> mount_share_request \<Rightarrow> string + mount_result" where
  "mount_plan9 env req =
     (case p9_mkdir env of
        Inl e \<Rightarrow> Inl (''mkdir '' @ ms_target req @ '' : '' @ e)
      | Inr _ \<Rightarrow>
          (case p9_connect env of
             Inl e \<Rightarrow> Inl e
           | Inr fd \<Rightarrow>
               let data = plan9_options fd req
               in if CHR 0x00 \<in> set (ms_target req) then Inl (''cible : '' @ nul_text env)
                  else if CHR 0x00 \<in> set data then Inl (''options : '' @ nul_text env)
                  else (case p9_mount env of
                          Inl e \<Rightarrow> Inl (''mount 9p ('' @ data @ '') : '' @ e)
                        | Inr _ \<Rightarrow> Inr \<lparr>mr_target = ms_target req, mr_options = data, mount_ms = p9_ms env\<rparr>)))"

definition share_spec :: "string \<Rightarrow> string option" where
  "share_spec cmd =
     (case find (prefix ''solon.shares='') (split_whitespace cmd) of
        Some kv \<Rightarrow> Some (drop (length ''solon.shares='') kv)
      | None \<Rightarrow> None)"

definition share_request :: "bool \<Rightarrow> string \<Rightarrow> mount_share_request option" where
  "share_request legacy entry =
     (case split_once (CHR '':'') entry of
        None \<Rightarrow> None
      | Some (drive, port) \<Rightarrow>
          (case parse_uint 10 (2 ^ 32) port of
             None \<Rightarrow> None
           | Some p \<Rightarrow>
               Some \<lparr>ms_name = drive, ms_port = p,
                     ms_target = (if legacy then ''/mnt/host'' else ''/mnt/host9p'') @ ''/'' @ drive,
                     read_only = False, extra_options = []\<rparr>))"

definition boot_requests :: "linux_view \<Rightarrow> mount_share_request list" where
  "boot_requests l =
     (let cmd = (case read_proc l ''/proc/cmdline'' of Some c \<Rightarrow> c | None \<Rightarrow> [])
      in case share_spec cmd of
           None \<Rightarrow> []
         | Some spec \<Rightarrow> List.map_filter (share_request (legacy_mode l)) (filter (\<lambda>e. e \<noteq> []) (split_on (CHR '','') spec)))"

text \<open>Three attempts: the result says whether the drive was mounted.\<close>

fun try_mount :: "(nat \<Rightarrow> string + mount_result) \<Rightarrow> nat list \<Rightarrow> string \<Rightarrow> bool \<times> string" where
  "try_mount outcome_of [] last_err = (False, last_err)"
| "try_mount outcome_of (a # as) last_err =
     (case outcome_of a of Inr r \<Rightarrow> (True, []) | Inl e \<Rightarrow> try_mount outcome_of as e)"

definition mount_boot_shares :: "(mount_share_request \<Rightarrow> nat \<Rightarrow> plan9_env) \<Rightarrow> linux_view \<Rightarrow> (mount_share_request \<times> bool \<times> string) list" where
  "mount_boot_shares env l =
     map (\<lambda>req. (req, try_mount (\<lambda>a. mount_plan9 (env req a) req) [0, 1, 2] [])) (boot_requests l)"

section \<open>Running commands\<close>

text \<open>
  The looks at a process until it ends, cannot be looked at, or the deadline, counted in looks, has passed.  The
  status of an ended process is its exit code, if it has one.
\<close>

function exec_wait :: "(nat \<Rightarrow> string + int option option) \<Rightarrow> nat \<Rightarrow> nat \<Rightarrow> int option option \<times> bool" where
  "exec_wait wait_at deadline i =
     (case wait_at i of
        Inr (Some st) \<Rightarrow> (Some st, False)
      | Inr None \<Rightarrow> if i < deadline then exec_wait wait_at deadline (Suc i) else (None, True)
      | Inl _ \<Rightarrow> (None, True))"
  by pat_completeness auto
termination
  by (relation "measure (\<lambda>(wait_at, deadline, i). deadline - i)") auto

declare exec_wait.simps [simp del]

record exec_env =
  ex_spawn :: "string + int"
  ex_wait :: "nat \<Rightarrow> string + int option option"
  ex_deadline :: nat
  ex_stdout :: bytes
  ex_stderr :: bytes
  ex_ms :: nat

definition agent_exec :: "exec_env \<Rightarrow> int set \<Rightarrow> int set \<times> exec_result" where
  "agent_exec env tracked =
     (case ex_spawn env of
        Inl e \<Rightarrow> (tracked, \<lparr>exit_code = None, stdout = [], stderr = e, ms = 0, timed_out = False\<rparr>)
      | Inr pd \<Rightarrow>
          let r = exec_wait (ex_wait env) (ex_deadline env) 0
          in (insert pd tracked - {pd},
              \<lparr>exit_code = (case fst r of Some c \<Rightarrow> c | None \<Rightarrow> None), stdout = from_utf8_lossy (ex_stdout env),
               stderr = from_utf8_lossy (ex_stderr env), ms = ex_ms env, timed_out = snd r\<rparr>))"

fun wait_for_socket :: "bool list \<Rightarrow> bool" where
  "wait_for_socket [] = False"
| "wait_for_socket (c # cs) = (if c then True else wait_for_socket cs)"

definition agent_ping :: "bool \<Rightarrow> bool \<Rightarrow> bytes option \<Rightarrow> bool" where
  "agent_ping connected written answer \<longleftrightarrow> connected \<and> written
     \<and> (case answer of Some b \<Rightarrow> b \<noteq> [] \<and> contains_sub '' 200 '' (from_utf8_lossy (take 256 b)) | None \<Rightarrow> False)"

definition proc_field :: "string \<Rightarrow> string \<Rightarrow> nat" where
  "proc_field mem k =
     (case Option.bind (Option.bind (find (prefix k) (str_lines mem)) (nth_field 1)) parse_u64 of Some n \<Rightarrow> n | None \<Rightarrow> 0)"

record agent_state =
  ag_tracked :: "int set"
  ag_data_disk :: "data_disk_report option"
  ag_engine :: engine_status
  ag_shutting_down :: bool
  ag_network_configured :: bool

definition agent_health :: "linux_view \<Rightarrow> string \<Rightarrow> f64 \<Rightarrow> bool \<Rightarrow> agent_state \<Rightarrow> health_report" where
  "agent_health l agent_ver up ping st =
     (let mem = (case read_proc l ''/proc/meminfo'' of Some m \<Rightarrow> m | None \<Rightarrow> [])
      in \<lparr>protocol_version = PROTOCOL_VERSION, agent_version = agent_ver,
          kernel = trim (case read_proc l ''/proc/sys/kernel/osrelease'' of Some k \<Rightarrow> k | None \<Rightarrow> []),
          hr_uptime_s = up, docker_ping = ping, hr_engine = ag_engine st, data_disk = ag_data_disk st,
          hr_mem_total_kb = proc_field mem ''MemTotal'', hr_mem_available_kb = proc_field mem ''MemAvailable'',
          network_configured = ag_network_configured st, mounts = plan9_mounts l\<rparr>)"

section \<open>Supervising the engine\<close>

definition dockerd_args :: "linux_view \<Rightarrow> string list" where
  "dockerd_args l =
     [''--config-file'', ''/etc/docker/daemon.json'', ''--containerd'', CONTAINERD_SOCK]
     @ (if cmdline_flag l ''solon.nobridge'' then [''--bridge=none'', ''--iptables=false'', ''--ip6tables=false''] else [])
     @ (if cmdline_flag l ''solon.debug'' then [''--debug''] else [])"

definition containerd_args :: "string list" where
  "containerd_args = [''--config'', ''/etc/containerd/config.toml'']"

text \<open>One look of the inner loop: the ping, the time, the two processes, and whether the machine goes down.\<close>

record poll =
  po_ping :: bool
  po_uptime :: f64
  po_late :: bool
  po_dockerd :: "string + string option"
  po_containerd :: "string option"
  po_shutting_down :: bool

datatype watch_end = WatchBroke | WatchReturned | Watching

record supervisor =
  su_state :: agent_state
  su_events :: "agent_event list"
  su_restarts :: nat
  su_sleeps :: "nat list"

definition su_emit :: "agent_event \<Rightarrow> supervisor \<Rightarrow> supervisor" where
  "su_emit ev s = s\<lparr>su_events := su_events s @ [ev]\<rparr>"

definition on_engine :: "(engine_status \<Rightarrow> engine_status) \<Rightarrow> supervisor \<Rightarrow> supervisor" where
  "on_engine f s = s\<lparr>su_state := (su_state s)\<lparr>ag_engine := f (ag_engine (su_state s))\<rparr>\<rparr>"

definition on_tracked :: "(int set \<Rightarrow> int set) \<Rightarrow> supervisor \<Rightarrow> supervisor" where
  "on_tracked f s = s\<lparr>su_state := (su_state s)\<lparr>ag_tracked := f (ag_tracked (su_state s))\<rparr>\<rparr>"

definition su_sleep :: "nat \<Rightarrow> supervisor \<Rightarrow> supervisor" where
  "su_sleep n s = s\<lparr>su_sleeps := su_sleeps s @ [n]\<rparr>"

definition announce :: "poll \<Rightarrow> bool \<Rightarrow> supervisor \<Rightarrow> supervisor \<times> bool" where
  "announce p announced s =
     (if \<not> announced \<and> po_ping p then
        (su_emit (EngineReady (po_uptime p)) (on_engine (\<lambda>e. e\<lparr>docker_ready_at_uptime_s := Some (po_uptime p)\<rparr>) s), True)
      else if \<not> announced \<and> po_late p then (s, True)
      else (s, announced))"

fun watch_engine :: "poll list \<Rightarrow> bool \<Rightarrow> supervisor \<Rightarrow> supervisor \<times> watch_end" where
  "watch_engine [] announced s = (s, Watching)"
| "watch_engine (p # ps) announced s =
     (case announce p announced s of (s, announced) \<Rightarrow>
        (case po_dockerd p of
           Inr (Some st) \<Rightarrow> (su_emit (EngineDown st (Suc (su_restarts s))) s, WatchBroke)
         | Inl e \<Rightarrow> (s, WatchBroke)
         | Inr None \<Rightarrow>
             (case po_containerd p of
                Some st \<Rightarrow> (su_emit (EngineDown (''containerd : '' @ st) (Suc (su_restarts s))) s, WatchBroke)
              | None \<Rightarrow> if po_shutting_down p then (s, WatchReturned) else watch_engine ps announced s)))"

definition backoff :: "nat \<Rightarrow> nat" where
  "backoff restarts_now = min 30 (2 ^ min 5 restarts_now)"

record round_env =
  ro_shutting_down :: bool
  ro_containerd :: "string + nat"
  ro_dockerd :: "string + nat"
  ro_polls :: "poll list"

definition after_watch :: "nat \<Rightarrow> nat \<Rightarrow> supervisor \<Rightarrow> supervisor" where
  "after_watch cpid dpid s =
     (let s = on_tracked (\<lambda>t. t - {int dpid} - {int cpid}) s;
          n = Suc (su_restarts s);
          s = s\<lparr>su_restarts := n\<rparr>;
          s = on_engine (\<lambda>e. e\<lparr>restarts := n, dockerd_pid := None, containerd_pid := None, docker_ready_at_uptime_s := None\<rparr>) s
      in su_sleep (backoff n) s)"

text \<open>One turn of the outer loop.\<close>

definition supervise_round :: "round_env \<Rightarrow> supervisor \<Rightarrow> supervisor \<times> watch_end" where
  "supervise_round env s =
     (if ro_shutting_down env then (s, WatchReturned)
      else (case ro_containerd env of
              Inl e \<Rightarrow> (su_sleep 2 (on_engine (\<lambda>en. en\<lparr>last_error := Some e\<rparr>) s), WatchBroke)
            | Inr cpid \<Rightarrow>
                let s = on_engine (\<lambda>en. en\<lparr>containerd_pid := Some cpid\<rparr>) (on_tracked (insert (int cpid)) s)
                in (case ro_dockerd env of
                      Inl e \<Rightarrow>
                        (su_sleep 2 (on_tracked (\<lambda>t. t - {int cpid}) (on_engine (\<lambda>en. en\<lparr>last_error := Some e\<rparr>) s)), WatchBroke)
                    | Inr dpid \<Rightarrow>
                        let s = on_engine (\<lambda>en. en\<lparr>dockerd_pid := Some dpid\<rparr>) (on_tracked (insert (int dpid)) s)
                        in (case watch_engine (ro_polls env) False s of
                              (s, WatchBroke) \<Rightarrow> (after_watch cpid dpid s, WatchBroke)
                            | (s, w) \<Rightarrow> (s, w)))))"

fun supervise :: "round_env list \<Rightarrow> supervisor \<Rightarrow> supervisor \<times> watch_end" where
  "supervise [] s = (s, WatchBroke)"
| "supervise (r # rs) s =
     (case supervise_round r s of (s, WatchBroke) \<Rightarrow> supervise rs s | (s, w) \<Rightarrow> (s, w))"

section \<open>Watching the disk\<close>

record statvfs_reply =
  f_blocks :: "64 word"
  f_frsize :: "64 word"
  f_bavail :: "64 word"

definition disk_usage :: "statvfs_reply option \<Rightarrow> (nat \<times> nat) option" where
  "disk_usage r =
     (case r of
        None \<Rightarrow> None
      | Some st \<Rightarrow>
          let tot = f_blocks st * f_frsize st; avail = f_bavail st * f_frsize st
          in if tot = 0 then None
             else Some (unat (min 100 (((tot - avail) * 100) div tot)), unat (avail div 1048576)))"

text \<open>One turn of the periodic task: the tick, whether it has warned, and what it announces.\<close>

definition sync_turn :: "statvfs_reply option \<Rightarrow> 32 word \<times> bool \<Rightarrow> (32 word \<times> bool) \<times> agent_event list" where
  "sync_turn r tw =
     (let tick = fst tw + 1; warned = snd tw
      in if tick mod 30 = 0 then
           (case disk_usage r of
              None \<Rightarrow> ((tick, warned), [])
            | Some (pct, free) \<Rightarrow>
                if 90 \<le> pct \<and> \<not> warned then ((tick, True), [DiskPressure pct free])
                else if pct < 80 then ((tick, False), [])
                else ((tick, warned), []))
         else ((tick, warned), []))"

fun periodic_sync :: "statvfs_reply option list \<Rightarrow> 32 word \<times> bool \<Rightarrow> agent_event list" where
  "periodic_sync [] tw = []"
| "periodic_sync (r # rs) tw = (case sync_turn r tw of (tw', evs) \<Rightarrow> evs @ periodic_sync rs tw')"

section \<open>Reaping\<close>

text \<open>
  One turn of the reaper at a time in milliseconds: the process \<open>waitid\<close> shows, if any.  The result has the tracked
  processes, the one waited for since when, and the process reaped.
\<close>

definition reaper_turn ::
  "nat \<Rightarrow> int option \<Rightarrow> int set \<times> (int \<times> nat) option \<Rightarrow> (int set \<times> (int \<times> nat) option) \<times> int option" where
  "reaper_turn now shown ts =
     (case shown of
        None \<Rightarrow> ((fst ts, None), None)
      | Some pd \<Rightarrow>
          let is_tracked = pd \<in> fst ts;
              w = (case snd ts of
                     Some (p, since) \<Rightarrow> if p = pd then (now - since > 5000, snd ts) else (False, Some (pd, now))
                   | None \<Rightarrow> (False, Some (pd, now)))
          in if \<not> is_tracked \<or> fst w
             then (((if fst w then fst ts - {pd} else fst ts), None), Some pd)
             else ((fst ts, snd w), None))"

text \<open>Turn after turn; the set of tracked processes is that of the moment, as other tasks change it.\<close>

fun reaper_loop :: "(nat \<times> int option \<times> int set) list \<Rightarrow> (int \<times> nat) option \<Rightarrow> int list" where
  "reaper_loop [] stuck = []"
| "reaper_loop ((now, shown, tracked) # turns) stuck =
     (case reaper_turn now shown (tracked, stuck) of
        ((_, stuck'), reaped) \<Rightarrow> (case reaped of Some p \<Rightarrow> [p] | None \<Rightarrow> []) @ reaper_loop turns stuck')"

section \<open>Shutting down\<close>

datatype shutdown_action = RunProgram "string list" | SendTerm nat | SyncDisks | Detach string | PowerOff

definition docker_cmd :: "string list \<Rightarrow> shutdown_action" where
  "docker_cmd args = RunProgram ([''/usr/bin/docker'', ''-H'', ''unix://'' @ DOCKER_SOCK] @ args)"

definition shutdown_actions :: "bytes option \<Rightarrow> nat \<Rightarrow> engine_status \<Rightarrow> shutdown_action list" where
  "shutdown_actions listed timeout_s en =
     [docker_cmd [''ps'', ''-q'']]
     @ (case listed of
          None \<Rightarrow> []
        | Some out \<Rightarrow>
            let ids = split_whitespace (from_utf8_lossy out)
            in if ids = [] then [] else [docker_cmd ([''stop'', ''-t'', dec_of_nat timeout_s] @ ids)])
     @ map SendTerm (List.map_filter id [dockerd_pid en, containerd_pid en])
     @ [SyncDisks]
     @ map Detach [''/var/lib/docker'', ''/var/lib/containerd'', ''/var/lib/solon-agent'', DATA_MOUNT]
     @ [SyncDisks, PowerOff]"

section \<open>Counters\<close>

definition numbers_of :: "string list \<Rightarrow> nat list" where
  "numbers_of ws = List.map_filter parse_u64 ws"

definition nth_or_0 :: "nat list \<Rightarrow> nat \<Rightarrow> nat" where
  "nth_or_0 v i = (if i < length v then v ! i else 0)"

definition cpu_ticks :: "string \<Rightarrow> nat \<times> nat" where
  "cpu_ticks stat =
     (case find (prefix ''cpu '') (str_lines stat) of
        None \<Rightarrow> (0, 0)
      | Some line \<Rightarrow>
          let v = numbers_of (drop 1 (split_whitespace line))
          in (sum_list v, sum_list v - (nth_or_0 v 3 + nth_or_0 v 4)))"

definition cpu_count :: "string \<Rightarrow> nat" where
  "cpu_count stat = length (filter (\<lambda>l. prefix ''cpu'' l \<and> \<not> prefix ''cpu '' l) (str_lines stat)) mod 2 ^ 32"

definition eth0_bytes :: "string \<Rightarrow> nat \<times> nat" where
  "eth0_bytes dev =
     (case find (\<lambda>l. prefix ''eth0:'' (trim_start l)) (str_lines dev) of
        None \<Rightarrow> (0, 0)
      | Some line \<Rightarrow>
          let ps = split_on (CHR '':'') line;
              v = numbers_of (split_whitespace (if 1 < length ps then ps ! 1 else []))
          in (nth_or_0 v 0, nth_or_0 v 8))"

definition agent_metrics ::
  "linux_view \<Rightarrow> (string \<Rightarrow> f64 option) \<Rightarrow> f64 \<Rightarrow> statvfs_reply option \<Rightarrow> nat \<Rightarrow> machine_metrics" where
  "agent_metrics l parse_f64 up disk containers =
     (let stat = read_proc l ''/proc/stat''; mem = read_proc l ''/proc/meminfo'';
          ticks = (case stat of Some s \<Rightarrow> cpu_ticks s | None \<Rightarrow> (0, 0));
          eth = (case read_proc l ''/proc/net/dev'' of Some d \<Rightarrow> eth0_bytes d | None \<Rightarrow> (0, 0));
          du = (case disk of
                  Some st \<Rightarrow> (unat (f_blocks st * f_frsize st),
                              unat (f_blocks st * f_frsize st) - unat (f_bavail st * f_frsize st))
                | None \<Rightarrow> (0, 0))
      in \<lparr>uptime_s = up, cpu_busy_ticks = snd ticks, cpu_total_ticks = fst ticks,
          cpus = (case stat of Some s \<Rightarrow> cpu_count s | None \<Rightarrow> 0),
          load1 = (case Option.bind (Option.bind (read_proc l ''/proc/loadavg'') (nth_field 0)) parse_f64 of Some x \<Rightarrow> x | None \<Rightarrow> 0),
          mem_total_kb = (case mem of Some m \<Rightarrow> proc_field m ''MemTotal'' | None \<Rightarrow> 0),
          mem_available_kb = (case mem of Some m \<Rightarrow> proc_field m ''MemAvailable'' | None \<Rightarrow> 0),
          disk_total_bytes = fst du, disk_used_bytes = snd du, net_rx_bytes = fst eth, net_tx_bytes = snd eth,
          containers_running = containers\<rparr>)"

end
