(* ===== verification/Agent_Laws.thy ===== *)
theory Agent_Laws
  imports Agent_System Engine_Laws
begin

text \<open>
  What holds of the duties of the agent (\<open>Agent_System\<close>): the shares of the command line reach it, the data disk
  is never formatted over, supervision, alerts and reaping keep their promises.
\<close>

section \<open>The command line\<close>

lemma letter_graphic: "drive_letter d \<Longrightarrow> c \<in> set d \<Longrightarrow> graphic c \<and> c \<noteq> CHR '':'' \<and> c \<noteq> CHR '',''"
  by (auto simp: drive_letter_def graphic_def)

lemma digit_graphic: "c \<in> set (dec_of_nat n) \<Longrightarrow> graphic c \<and> c \<noteq> CHR '',''"
  using dec_of_nat_digits [of c n] by (auto simp: is_ascii_digit_def graphic_def)

definition announced :: "host_share \<Rightarrow> bool" where
  "announced sh \<longleftrightarrow> drive_letter (share_name sh) \<and> share_port sh < 2 ^ 32"

lemma share_text_chars: "announced sh \<Longrightarrow> c \<in> set (share_text sh) \<Longrightarrow> graphic c \<and> c \<noteq> CHR '',''"
  using letter_graphic [of "share_name sh" c] digit_graphic [of c "share_port sh"]
  by (auto simp: share_text_def announced_def graphic_def)

lemma set_join_with: "set (join_with sep ps) \<subseteq> set sep \<union> (\<Union>p \<in> set ps. set p)"
  by (induction sep ps rule: join_with.induct) auto

definition request_of :: "bool \<Rightarrow> host_share \<Rightarrow> mount_share_request" where
  "request_of nine_p sh =
     \<lparr>ms_name = share_name sh, ms_port = share_port sh,
      ms_target = (if nine_p then ''/mnt/host/'' else ''/mnt/host9p/'') @ share_name sh, read_only = False, extra_options = []\<rparr>"

lemma share_request_text: "announced sh \<Longrightarrow> share_request nine_p (share_text sh) = Some (request_of nine_p sh)"
proof -
  assume a: "announced sh"
  then have "CHR '':'' \<notin> set (share_name sh)" using letter_graphic by (auto simp: announced_def)
  then have "split_once (CHR '':'') (share_text sh) = Some (share_name sh, dec_of_nat (share_port sh))"
    by (simp add: share_text_def split_once_append)
  with a show ?thesis by (simp add: share_request_def announced_def parse_uint_dec_of_nat request_of_def)
qed

definition command_words :: "string \<Rightarrow> host_share list \<Rightarrow> bool \<Rightarrow> string list" where
  "command_words base bs nine_p =
     split_whitespace base
     @ (if bs \<noteq> [] then [''solon.shares='' @ join_with '','' (map share_text bs)] else [])
     @ (if nine_p then [''solon.fs=9p''] else [])"

lemma split_ws_Nil [simp]: "split_ws [] [] = []"
  by (simp add: split_ws.simps)

lemma words_of_cmdline:
  assumes "list_all announced bs"
  shows "split_whitespace (machine_cmdline base bs nine_p @ [CHR 0x0A]) = command_words base bs nine_p"
proof -
  let ?w = "''solon.shares='' @ join_with '','' (map share_text bs)"
  have "graphic c" if "c \<in> set ?w" for c
  proof -
    from that consider "c \<in> set ''solon.shares=,''" | sh where "sh \<in> set bs" "c \<in> set (share_text sh)"
      using set_join_with [of "'',''" "map share_text bs"] by fastforce
    then show ?thesis
      by cases (use assms share_text_chars in \<open>auto simp: graphic_def list_all_iff\<close>)
  qed
  then have w: "split_ws [] ?w = [?w]" by (subst split_ws_word) auto
  have p: "split_ws [] ''solon.fs=9p'' = [''solon.fs=9p'']" by (subst split_ws_word) (auto simp: graphic_def)
  have b: "split_ws [] (s @ '' '' @ t) = split_ws [] s @ split_ws [] t" for s t
    using split_ws_parted [of "CHR '' ''" "[]" s t] by simp
  have l: "split_ws [] (s @ [CHR 0x0A]) = split_ws [] s" for s
    using split_ws_parted [of "CHR 0x0A" "[]" s "[]"] by simp
  have "split_ws [] (machine_cmdline base bs nine_p) = command_words base bs nine_p"
    using b [of base ?w] b [of "base @ '' '' @ ?w" "''solon.fs=9p''"] b [of base "''solon.fs=9p''"] w p
    by (auto simp: machine_cmdline_def command_words_def split_whitespace_def)
  then show ?thesis by (simp only: split_whitespace_def l)
qed

lemma share_spec_words:
  assumes "list_all announced bs" "\<forall>w \<in> set (split_whitespace base). \<not> prefix ''solon.shares='' w"
  shows "share_spec (machine_cmdline base bs nine_p @ [CHR 0x0A])
     = (if bs = [] then None else Some (join_with '','' (map share_text bs)))"
proof -
  have "find (prefix ''solon.shares='') (split_whitespace base) = None"
    using assms(2) by (simp add: find_None_iff)
  then have "find (prefix ''solon.shares='') (command_words base bs nine_p)
      = (if bs = [] then None else Some (''solon.shares='' @ join_with '','' (map share_text bs)))"
    by (auto simp: command_words_def find_append)
  then show ?thesis by (auto simp: share_spec_def words_of_cmdline [OF assms(1)])
qed

lemma boot_requests_of:
  assumes "read_proc l ''/proc/cmdline'' = Some (machine_cmdline base bs nine_p @ [CHR 0x0A])"
    and "list_all announced bs"
    and "\<forall>w \<in> set (split_whitespace base). \<not> prefix ''solon.shares='' w \<and> w \<noteq> ''solon.fs=9p''"
  shows "boot_requests l = map (request_of nine_p) bs"
proof -
  have "''solon.fs=9p'' \<notin> set (split_whitespace base)" using assms(3) by blast
  then have m: "legacy_mode l = nine_p"
    by (auto simp: legacy_mode_def cmdline_flag_def assms(1) words_of_cmdline [OF assms(2)] command_words_def)
  have sp: "share_spec (machine_cmdline base bs nine_p @ [CHR 0x0A])
     = (if bs = [] then None else Some (join_with '','' (map share_text bs)))"
    using assms(2,3) by (intro share_spec_words) auto
  have "split_on (CHR '','') (join_with '','' (map share_text bs)) = map share_text bs" if "bs \<noteq> []"
    using that assms(2) share_text_chars by (intro split_on_join) (auto simp: list_all_iff)
  moreover have "filter (\<lambda>e. e \<noteq> []) (map share_text bs) = map share_text bs"
    by (simp add: filter_id_conv share_text_def)
  moreover have "List.map_filter (share_request nine_p) (map share_text bs) = map (request_of nine_p) bs"
    using assms(2) by (induction bs) (simp_all add: map_filter_simps share_request_text)
  ultimately show ?thesis
    unfolding boot_requests_def assms(1) option.case Let_def sp by (cases "bs = []") (simp_all add: m)
qed

lemma boot_shares_announced:
  assumes "file_ok ps"
  shows "list_all announced (boot_shares present (ps_shares ps))"
proof -
  have "shares_ok (share_map (boot_shares present (ps_shares ps)))" by (rule boot_shares_ok [OF assms])
  moreover have "share_map (boot_shares present (ps_shares ps)) = map (\<lambda>sh. (share_name sh, sh)) (boot_shares present (ps_shares ps))"
    using assms by (intro share_map_distinct) (simp add: boot_shares_names file_ok_def)
  ultimately show ?thesis by (auto simp: shares_ok_def list_all_iff announced_def)
qed

section \<open>Devices\<close>

definition is_data :: "linux_view \<Rightarrow> string \<Rightarrow> bool" where
  "is_data l d \<longleftrightarrow> dev_exists l d \<and> ext4_label l d \<in> {''solon-data'', ''monodon-data''}"

definition is_other :: "linux_view \<Rightarrow> string \<Rightarrow> bool" where
  "is_other l d \<longleftrightarrow> dev_exists l d \<and> ext4_label l d \<notin> {''solon-data'', ''monodon-data'', ''solon-root'', ''monodon-root''}"

lemma find_device_spec:
  "find_device l devs blank =
     (case find (is_data l) devs of
        Some d \<Rightarrow> Some d
      | None \<Rightarrow> (case blank of Some b \<Rightarrow> Some b | None \<Rightarrow> find (is_other l) devs))"
  by (induction devs arbitrary: blank) (auto simp: is_data_def is_other_def split: option.splits)

lemma await_device_look: "await_device looks = Some (l, d) \<Longrightarrow> l \<in> set looks \<and> find_data_device l = Some d"
  by (induction looks) (auto split: option.splits)

lemma find_data_device_spec:
  assumes "find_data_device l = Some d"
  shows "d \<in> set disk_names \<and> dev_exists l d \<and> ext4_label l d \<notin> {''solon-root'', ''monodon-root''}
    \<and> (list_ex (is_data l) disk_names \<longrightarrow> is_data l d)"
proof (cases "find (is_data l) disk_names")
  case None
  then have "find (is_other l) disk_names = Some d"
    using assms by (simp add: find_data_device_def find_device_spec)
  moreover have "\<not> list_ex (is_data l) disk_names" using None by (auto simp: find_None_iff list_ex_iff)
  ultimately show ?thesis by (auto simp: find_Some_iff is_other_def)
next
  case (Some e)
  with assms have "e = d" by (simp add: find_data_device_def find_device_spec)
  with Some show ?thesis by (auto simp: find_Some_iff is_data_def)
qed

lemma mount_binds_acts:
  "mount_binds env bms acts = (acts', r) \<Longrightarrow>
     (Mkfs d \<in> set acts' \<longrightarrow> Mkfs d \<in> set acts)
     \<and> (r = Inr u \<longrightarrow> acts' = acts @ map (\<lambda>st. MountOn (DATA_MOUNT @ ''/'' @ fst st) (snd st) [] []) bms)"
proof (induction bms arbitrary: acts)
  case (Cons st bms)
  obtain sub target where st: "st = (sub, target)" by fastforce
  show ?case
    using Cons.prems Cons.IH [of "acts @ [MountOn (DATA_MOUNT @ ''/'' @ sub) target [] []]"]
    by (cases "mount_call env target") (auto simp: st Let_def)
qed simp

lemma check_and_mount_acts:
  assumes "check_and_mount env dev formatted acts = (acts', r)"
  shows "Mkfs d \<in> set acts' \<longrightarrow> Mkfs d \<in> set acts"
    and "r = Inr rep \<Longrightarrow> device rep = dev \<and> formatted_now rep = formatted \<and> fsck_exit rep < 4
      \<and> acts' = acts @ [Fsck dev, MountOn dev DATA_MOUNT ''ext4'' ''data=ordered'']
          @ map (\<lambda>st. MountOn (DATA_MOUNT @ ''/'' @ fst st) (snd st) [] []) bind_mounts"
  using assms mount_binds_acts [of env bind_mounts "acts @ [Fsck dev, MountOn dev DATA_MOUNT ''ext4'' ''data=ordered'']" _ _ d]
  by (fastforce simp: check_and_mount_def Let_def split: sum.splits prod.splits if_splits)+

section \<open>Supervision\<close>

text \<open>The events of one turn: at most one announcement, then at most one end with the number of the next restart.\<close>

definition round_events :: "bool \<Rightarrow> nat \<Rightarrow> agent_event list \<Rightarrow> bool" where
  "round_events quiet n es \<longleftrightarrow> (\<exists>up down. es = up @ down \<and> (up = [] \<or> \<not> quiet \<and> (\<exists>t. up = [EngineReady t]))
     \<and> (down = [] \<or> (\<exists>x. down = [EngineDown x (Suc n)])))"

lemmas supervisor_prims = su_emit_def on_engine_def on_tracked_def su_sleep_def

definition follows :: "bool \<Rightarrow> supervisor \<Rightarrow> supervisor \<Rightarrow> bool" where
  "follows quiet s s' \<longleftrightarrow> (\<exists>es. su_events s' = su_events s @ es \<and> round_events quiet (su_restarts s) es)
     \<and> su_restarts s' = su_restarts s \<and> su_sleeps s' = su_sleeps s \<and> ag_tracked (su_state s') = ag_tracked (su_state s)"

lemma announce_cases:
  "announce p a s = (s1, a1) \<Longrightarrow>
     su_restarts s1 = su_restarts s \<and> su_sleeps s1 = su_sleeps s \<and> ag_tracked (su_state s1) = ag_tracked (su_state s)
     \<and> (su_events s1 = su_events s \<and> (a \<longrightarrow> a1) \<or> \<not> a \<and> a1 \<and> (\<exists>t. su_events s1 = su_events s @ [EngineReady t]))"
  by (auto simp: announce_def supervisor_prims split: if_splits)

lemma round_events_Nil: "round_events q n []"
  by (simp add: round_events_def)

lemma round_events_down: "round_events q n [EngineDown x (Suc n)]"
  unfolding round_events_def by (intro exI [of _ "[]"] exI [of _ "[EngineDown x (Suc n)]"]) simp

lemma round_events_quiet: "round_events q' n es \<Longrightarrow> (q \<longrightarrow> q') \<Longrightarrow> round_events q n es"
  by (auto simp: round_events_def)

lemma round_events_up: "round_events True n es \<Longrightarrow> round_events False n (EngineReady t # es)"
  unfolding round_events_def by (rule exI [of _ "[EngineReady t]"], rule exI [of _ es]) auto

lemma follows_announced:
  assumes "announce p a s = (s1, a1)" "follows a1 s1 s'"
  shows "follows a s s'"
  using announce_cases [OF assms(1)] assms(2)
  by (auto simp: follows_def intro: round_events_quiet round_events_up)

lemma watch_engine_follows: "watch_engine ps a s = (s', w) \<Longrightarrow> follows a s s'"
proof (induction ps a s rule: watch_engine.induct)
  case (1 a s)
  then show ?case by (simp add: follows_def round_events_Nil)
next
  case (2 p ps a s)
  obtain s1 a1 where an: "announce p a s = (s1, a1)" by fastforce
  have "follows a1 s1 s'"
    using "2.prems" "2.IH" [OF an [symmetric]]
    by (auto simp: an follows_def supervisor_prims round_events_Nil round_events_down split: sum.splits option.splits if_splits)
  with an show ?case by (rule follows_announced)
qed

lemma backoff_bounds: "0 < n \<Longrightarrow> 2 \<le> backoff n \<and> backoff n \<le> 30"
proof -
  assume "0 < n"
  then have "(2::nat) ^ 1 \<le> 2 ^ min 5 n" by (intro power_increasing) auto
  then show ?thesis by (simp add: backoff_def)
qed

section \<open>Reaping\<close>

lemma reaper_stuck:
  assumes "\<forall>t \<in> set turns. fst (snd t) = Some p" "\<exists>t \<in> set turns. fst t - since > 5000"
  shows "p \<in> set (reaper_loop turns (Some (p, since)))"
  using assms
proof (induction turns)
  case (Cons t turns)
  obtain now tracked where t: "t = (now, Some p, tracked)" using Cons.prems(1) by (cases t) auto
  show ?case
  proof (cases "p \<notin> tracked \<or> now - since > 5000")
    case True
    then show ?thesis by (auto simp: t reaper_turn_def Let_def)
  next
    case False
    with Cons show ?thesis by (auto simp: t reaper_turn_def Let_def)
  qed
qed simp

lemma reaper_waits:
  assumes "\<forall>t \<in> set turns. fst (snd t) = Some p \<and> p \<in> snd (snd t) \<and> fst t - since \<le> 5000"
  shows "reaper_loop turns (Some (p, since)) = []"
  using assms by (induction turns) (auto simp: reaper_turn_def Let_def)

section \<open>Properties\<close>

text \<open>
  The shares the service declares for a new machine reach the agent: from the kernel command line the service
  writes, the agent reads back one mount request per present drive, in order, with the port and the
  target the service uses, for every base command line that does not itself set these options.
\<close>

theorem boot_shares_reach_agent:
  assumes "file_ok ps" and "bs = boot_shares present (ps_shares ps)"
    and "read_proc l ''/proc/cmdline'' = Some (machine_cmdline base bs nine_p @ [CHR 0x0A])"
    and "\<forall>w \<in> set (split_whitespace base). \<not> prefix ''solon.shares='' w \<and> w \<noteq> ''solon.fs=9p''"
  shows "boot_requests l = map (request_of nine_p) bs"
  using boot_requests_of [OF assms(3) _ assms(4)] boot_shares_announced [OF assms(1)] assms(2) by simp

definition sample_linux :: linux_view where
  "sample_linux =
     \<lparr>read_proc = \<lambda>f. if f = ''/proc/cmdline'' then Some (''quiet solon.shares=c:9100,d:9101'' @ [CHR 0x0A]) else None,
      dev_exists = \<lambda>d. d = ''/dev/sdb'', dev_bytes = \<lambda>d. Inr (replicate 2048 (CHR 0x00))\<rparr>"

theorem boot_shares_reach_agent_witness: "map ms_port (boot_requests sample_linux) = [9100, 9101]"
proof -
  let ?bs = "boot_shares (\<lambda>d. True) (ps_shares (persisted_default\<lparr>ps_shares := [''c'', ''d'']\<rparr>))"
  have bs: "?bs = [boot_share 0 ''c'', boot_share 1 ''d'']" by (simp add: boot_shares_def)
  have f: "file_ok (persisted_default\<lparr>ps_shares := [''c'', ''d'']\<rparr>)" by (simp add: file_ok_def drive_letter_def)
  have p: "read_proc sample_linux ''/proc/cmdline'' = Some (machine_cmdline ''quiet'' ?bs False @ [CHR 0x0A])"
    unfolding bs by (simp add: sample_linux_def machine_cmdline_def share_text_def boot_share_def dec_of_nat.simps char_of_def bit_0)
  have w: "split_whitespace ''quiet'' = [''quiet'']"
    by (simp add: split_whitespace_def split_ws_word graphic_def)
  have "\<forall>w \<in> set (split_whitespace ''quiet''). \<not> prefix ''solon.shares='' w \<and> w \<noteq> ''solon.fs=9p''" by (simp add: w)
  from boot_shares_reach_agent [OF f refl p this] show ?thesis unfolding bs by (simp add: request_of_def boot_share_def)
qed


definition sample_disk :: disk_env where
  "sample_disk = \<lparr>mkfs_output = Inr (True, []), fsck_output = Inr (Some 0, [], []), mount_call = \<lambda>t. Inr ()\<rparr>"

lemma sample_device: "find_data_device sample_linux = Some ''/dev/sdb''" "has_ext4_superblock sample_linux ''/dev/sdb'' = Inr False"
proof -
  have d: "ext4_label sample_linux dev = []" for dev
    by (simp add: ext4_label_def sample_linux_def read_at_exact_def takeWhile_eq_Nil_iff from_utf8_lossy.simps)
  have dn: "disk_names = ''/dev/sda'' # ''/dev/sdb'' # map (\<lambda>i. ''/dev/sd'' @ [char_of (97 + i :: nat)]) [Suc (Suc 0)..<26]"
    by (simp add: disk_names_def upt_conv_Cons [of 0] upt_conv_Cons [of "Suc 0"] char_of_def bit_0)
  have "find (is_other sample_linux) disk_names = Some ''/dev/sdb''"
    by (simp only: dn is_other_def [abs_def] d) (simp add: sample_linux_def)
  moreover have "find (is_data sample_linux) disk_names = None" by (simp add: find_None_iff is_data_def d)
  ultimately show "find_data_device sample_linux = Some ''/dev/sdb''" by (simp add: find_data_device_def find_device_spec)
  show "has_ext4_superblock sample_linux ''/dev/sdb'' = Inr False"
    by (simp add: has_ext4_superblock_def sample_linux_def read_at_exact_def)
qed


text \<open>
  C30. Every turn of the supervisor announces the engine at most once and its end at most once, in that
  order and with the number of the coming restart; when the turn is over no process of it is left
  tracked, and the next one waits from 2 to 30 seconds.
\<close>

theorem supervision_round_sound:
  assumes "supervise_round env s = (s', w)"
  shows "(\<exists>es. su_events s' = su_events s @ es \<and> round_events False (su_restarts s) es)
     \<and> (w = WatchBroke \<longrightarrow> ag_tracked (su_state s') \<subseteq> ag_tracked (su_state s)
          \<and> (\<exists>n. su_sleeps s' = su_sleeps s @ [n] \<and> 2 \<le> n \<and> n \<le> 30) \<and> su_restarts s' \<le> Suc (su_restarts s))"
proof -
  have f: "\<exists>es. su_events t' = su_events s @ es \<and> round_events False (su_restarts s) es"
    and g: "su_restarts t' = su_restarts s \<and> su_sleeps t' = su_sleeps s \<and> ag_tracked (su_state t') = insert (int d) (insert (int c) (ag_tracked (su_state s)))"
    if "watch_engine ps False (on_engine h (on_tracked (insert (int d)) (on_engine k (on_tracked (insert (int c)) s)))) = (t', v)"
    for t' v ps h k c d
    using watch_engine_follows [OF that] by (simp_all add: follows_def supervisor_prims)
  have b: "Suc 0 < backoff (Suc n) \<and> backoff (Suc n) \<le> 30" for n using backoff_bounds [of "Suc n"] by simp
  show ?thesis
  proof (cases "ro_shutting_down env \<or> (\<exists>e. ro_containerd env = Inl e) \<or> (\<exists>e. ro_dockerd env = Inl e)")
    case True
    with assms show ?thesis
      by (auto simp: supervise_round_def Let_def supervisor_prims round_events_Nil split: sum.splits if_splits)
  next
    case False
    then obtain c d where cd: "ro_containerd env = Inr c" "ro_dockerd env = Inr d" "\<not> ro_shutting_down env"
      by (cases "ro_containerd env"; cases "ro_dockerd env") auto
    let ?s = "on_engine (\<lambda>en. en\<lparr>dockerd_pid := Some d\<rparr>) (on_tracked (insert (int d))
        (on_engine (\<lambda>en. en\<lparr>containerd_pid := Some c\<rparr>) (on_tracked (insert (int c)) s)))"
    obtain t v where w: "watch_engine (ro_polls env) False ?s = (t, v)" by fastforce
    then have "(s', w) = (if v = WatchBroke then (after_watch c d t, WatchBroke) else (t, v))"
      using assms cd by (cases v) (simp_all add: supervise_round_def Let_def)
    then show ?thesis using f [OF w] g [OF w] b [of "su_restarts s"]
      by (auto simp: after_watch_def Let_def supervisor_prims split: if_splits)
  qed
qed

definition sample_poll :: poll where
  "sample_poll = \<lparr>po_ping = True, po_uptime = 0, po_late = False, po_dockerd = Inr (Some ''1''), po_containerd = None, po_shutting_down = False\<rparr>"

definition sample_supervisor :: supervisor where
  "sample_supervisor =
     \<lparr>su_state = \<lparr>ag_tracked = {}, ag_data_disk = None,
        ag_engine = \<lparr>containerd_pid = None, dockerd_pid = None, docker_ready_at_uptime_s = None, restarts = 0, last_error = None\<rparr>,
        ag_shutting_down = False, ag_network_configured = False\<rparr>,
      su_events = [], su_restarts = 0, su_sleeps = []\<rparr>"

theorem supervision_round_sound_witness:
  "\<exists>s'. supervise_round \<lparr>ro_shutting_down = False, ro_containerd = Inr 5, ro_dockerd = Inr 6, ro_polls = [sample_poll]\<rparr> sample_supervisor
      = (s', WatchBroke) \<and> ag_tracked (su_state s') \<subseteq> {} \<and> su_events s' = [EngineReady 0, EngineDown ''1'' 1]"
proof -
  let ?env = "\<lparr>ro_shutting_down = False, ro_containerd = Inr 5, ro_dockerd = Inr 6, ro_polls = [sample_poll]\<rparr>"
  obtain s' w where r: "supervise_round ?env sample_supervisor = (s', w)" by fastforce
  then have "w = WatchBroke" "su_events s' = [EngineReady 0, EngineDown ''1'' 1]"
    by (auto simp: supervise_round_def sample_poll_def sample_supervisor_def announce_def supervisor_prims after_watch_def Let_def)
  moreover have "ag_tracked (su_state sample_supervisor) = {}" by (simp add: sample_supervisor_def)
  ultimately show ?thesis using supervision_round_sound [OF r] r by auto
qed

text \<open>
  C31. A dead process the kernel keeps showing is reaped: at once when no task waits for it, at the latest
  when it has been shown for more than five seconds; and while a task is to wait for it, not before that.
\<close>

theorem reaper_progress:
  assumes "\<forall>t \<in> set turns. fst (snd t) = Some p"
  shows "((\<exists>t \<in> set turns. fst t - t0 > 5000) \<longrightarrow> p \<in> set (reaper_loop ((t0, Some p, tracked) # turns) None))
     \<and> (p \<in> tracked \<and> (\<forall>t \<in> set turns. p \<in> snd (snd t) \<and> fst t - t0 \<le> 5000)
          \<longrightarrow> reaper_loop ((t0, Some p, tracked) # turns) None = [])
     \<and> (p \<notin> tracked \<longrightarrow> p = hd (reaper_loop ((t0, Some p, tracked) # turns) None))"
  using reaper_stuck [OF assms, of t0] reaper_waits [of turns p t0] assms
  by (auto simp: reaper_turn_def Let_def)

theorem reaper_progress_witness:
  "7 \<in> set (reaper_loop [(0, Some 7, {7}), (4000, Some 7, {7}), (6000, Some 7, {7})] None)
   \<and> reaper_loop [(0, Some 7, {7}), (4000, Some 7, {7})] None = []"
  using reaper_progress [of "[(4000, Some 7, {7}), (6000, Some 7, {7})]" 7 0 "{7}"]
    reaper_progress [of "[(4000, Some 7, {7})]" 7 0 "{7}"]
  by simp

text \<open>
  An engine that is not reachable after its sixty seconds is never announced in that turn, however
  well it answers later, although the service waits for the announcement for ninety seconds.
\<close>

theorem late_engine_not_announced:
  assumes "\<not> po_ping p" "po_late p" "watch_engine (p # ps) False s = (s', w)"
  shows "EngineReady t \<in> set (su_events s') \<longleftrightarrow> EngineReady t \<in> set (su_events s)"
proof -
  have "watch_engine (p # ps) True s = (s', w)" using assms by (simp add: announce_def)
  from watch_engine_follows [OF this] show ?thesis by (auto simp: follows_def round_events_def)
qed

section \<open>Disk alerts\<close>

lemma disk_usage_bound: "disk_usage r = Some (pct, free) \<Longrightarrow> pct \<le> 100"
proof -
  have "unat (min 100 x) \<le> 100" for x :: "64 word" by (auto simp: min_def word_le_nat_alt)
  then show "disk_usage r = Some (pct, free) \<Longrightarrow> pct \<le> 100"
    by (auto simp: disk_usage_def Let_def split: option.splits if_splits)
qed

text \<open>As long as no reading is below eighty percent, at most one alert is sent.\<close>

lemma one_alert:
  "\<forall>r \<in> set rs. \<forall>pct free. disk_usage r = Some (pct, free) \<longrightarrow> 80 \<le> pct \<Longrightarrow>
     length (periodic_sync rs (tick, w)) \<le> (if w then 0 else 1)"
proof (induction rs arbitrary: tick w)
  case (Cons r rs)
  obtain tick' w' evs where t: "sync_turn r (tick, w) = ((tick', w'), evs)" by (metis prod.collapse)
  have "evs = [] \<and> w' = w \<or> \<not> w \<and> w' \<and> length evs = 1"
    using t Cons.prems by (auto simp: sync_turn_def Let_def split: if_splits option.splits)
  with Cons.IH [of tick' w'] Cons.prems show ?case by (auto simp: t split: if_splits)
qed simp

end
