(* ===== verification/Agent_Events.thy ===== *)
theory Agent_Events
  imports Agent_System Byte_Streams Transitions
begin

text \<open>
  The events of the agent (\<open>crates/solon-agent/src/events.rs\<close>) and its control port (\<open>rpc.rs\<close>): the hub with its
  connected hosts, the list of published ports, the event stream of dockerd, and the answer to each command.
\<close>

section \<open>The hub\<close>

text \<open>A connected host is its number and the events written to it; \<open>ok\<close> says which writes succeed.\<close>

record agent_hub =
  hub_clients :: "(nat \<times> agent_event list) list"
  hub_ports :: "port_binding list"
  hub_ready :: bool
  hub_endpoints :: "container_endpoint list"

definition agent_hub_new :: agent_hub where
  "agent_hub_new = \<lparr>hub_clients = [], hub_ports = [], hub_ready = False, hub_endpoints = []\<rparr>"

fun note_event :: "agent_event \<Rightarrow> agent_hub \<Rightarrow> agent_hub" where
  "note_event (EngineReady t) h = h\<lparr>hub_ready := True\<rparr>"
| "note_event (EngineDown x n) h = h\<lparr>hub_ready := False\<rparr>"
| "note_event (PortsChanged bs) h = h\<lparr>hub_ports := bs\<rparr>"
| "note_event ev h = h"

definition broadcast :: "(nat \<Rightarrow> bool) \<Rightarrow> agent_event \<Rightarrow> agent_hub \<Rightarrow> agent_hub" where
  "broadcast ok ev h =
     (let h = note_event ev h
      in h\<lparr>hub_clients := map (\<lambda>(c, evs). (c, evs @ [ev])) (filter (\<lambda>(c, evs). ok c) (hub_clients h))\<rparr>)"

definition running_count :: "agent_hub \<Rightarrow> nat" where
  "running_count h = length (hub_endpoints h) mod 2 ^ 32"

text \<open>What a new host is told, and that it joins only when every write succeeds.\<close>

definition greeting :: "string \<Rightarrow> f64 \<Rightarrow> agent_hub \<Rightarrow> agent_event list" where
  "greeting agent_ver up h =
     [Hello PROTOCOL_VERSION agent_ver] @ (if hub_ready h then [EngineReady up] else []) @ [PortsChanged (hub_ports h)]"

definition join_host :: "nat \<Rightarrow> agent_event list \<Rightarrow> agent_hub \<Rightarrow> agent_hub" where
  "join_host c evs h = h\<lparr>hub_clients := hub_clients h @ [(c, evs)]\<rparr>"

definition greet_host :: "string \<Rightarrow> f64 \<Rightarrow> nat \<Rightarrow> bool list \<Rightarrow> agent_hub \<Rightarrow> agent_hub" where
  "greet_host agent_ver up c written h =
     (if list_all id written then join_host c (greeting agent_ver up h) h else h)"

section \<open>Published ports\<close>

text \<open>\<open>Ord\<close> is derived for \<open>ContainerEndpoint\<close>: its fields in their order.\<close>

definition endpoint_key where
  "endpoint_key e = (ep_id e, ep_name e, ep_compose_project e, ep_compose_service e, ep_ip e, exposed_tcp e, published_tcp e)"

record refresh_env =
  ref_ps :: "string + bool \<times> bytes"
  ref_inspect :: "string list \<Rightarrow> string + bytes"
  ref_parse :: "bytes \<Rightarrow> inspected_container list option"

definition inspected :: "refresh_env \<Rightarrow> string list \<Rightarrow> inspected_container list" where
  "inspected env ids =
     (if ids = [] then []
      else (case ref_inspect env ids of
              Inl _ \<Rightarrow> []
            | Inr out \<Rightarrow> (case ref_parse env out of Some cs \<Rightarrow> cs | None \<Rightarrow> [])))"

definition refresh_ports :: "(nat \<Rightarrow> bool) \<Rightarrow> refresh_env \<Rightarrow> agent_hub \<Rightarrow> agent_hub" where
  "refresh_ports ok env h =
     (case ref_ps env of
        Inl _ \<Rightarrow> h
      | Inr (False, out) \<Rightarrow> h
      | Inr (True, out) \<Rightarrow>
          let cs = inspected env (split_whitespace (from_utf8_lossy out));
              bs = remdups_adj (sort (concat (map port_bindings cs)));
              eps = sort_key endpoint_key (List.map_filter endpoint cs);
              h = (if hub_ports h \<noteq> bs then broadcast ok (PortsChanged bs) h else h)
          in if hub_endpoints h \<noteq> eps then broadcast ok (EndpointsChanged eps) (h\<lparr>hub_endpoints := eps\<rparr>) else h)"

section \<open>The event stream of dockerd\<close>

record docker_event =
  ev_action :: string
  ev_actor :: "json option"

definition str_of :: "json option \<Rightarrow> string" where
  "str_of v = (case v of Some (JString s) \<Rightarrow> s | _ \<Rightarrow> [])"

definition event_names :: "docker_event \<Rightarrow> string \<times> string" where
  "event_names ev =
     (case ev_actor ev of
        None \<Rightarrow> ([], [])
      | Some a \<Rightarrow> (str_of (obj_get ''ID'' a), str_of (Option.bind (obj_get ''Attributes'' a) (obj_get ''name''))))"

definition REFRESHING :: "string list" where
  "REFRESHING = [''start'', ''die'', ''stop'', ''kill'', ''destroy'', ''restart'', ''pause'', ''unpause'', ''rename'']"

definition on_docker_event :: "(nat \<Rightarrow> bool) \<Rightarrow> refresh_env \<Rightarrow> docker_event \<Rightarrow> agent_hub \<Rightarrow> agent_hub" where
  "on_docker_event ok env ev h =
     (let h = broadcast ok (ContainerEvent (ev_action ev) (fst (event_names ev)) (snd (event_names ev))) h
      in if ev_action ev \<in> set REFRESHING then refresh_ports ok env h else h)"

text \<open>Chunks: a line with the size, that many bytes, a line end.  An end or a bad size stops the stream.\<close>

datatype chunk_state = ChunkMore bytes bytes | ChunkEnd | ChunkBad string

definition event_chunk_size :: "bytes \<Rightarrow> nat option" where
  "event_chunk_size line = parse_hex_u64 (hd (split_on (CHR '';'') (trim (from_utf8_lossy line))))"

function drain_chunks :: "bytes \<Rightarrow> bytes \<Rightarrow> chunk_state" where
  "drain_chunks b body =
     (case find_sub CRLF b of
        None \<Rightarrow> ChunkMore b body
      | Some pos \<Rightarrow>
          (case event_chunk_size (take pos b) of
             None \<Rightarrow> ChunkBad (trim (from_utf8_lossy (take pos b)))
           | Some n \<Rightarrow>
               if n = 0 then ChunkEnd
               else if length b < pos + 2 + n + 2 then ChunkMore b body
               else drain_chunks (drop (pos + 2 + n + 2) b) (body @ take n (drop (pos + 2) b))))"
  by pat_completeness auto
termination
  by (relation "measure (\<lambda>(b, body). length b)") auto

declare drain_chunks.simps [simp del]

function drain_events :: "bytes \<Rightarrow> bytes list \<Rightarrow> bytes \<times> bytes list" where
  "drain_events body ls =
     (case find_byte (\<lambda>c. c = LF) body of
        None \<Rightarrow> (body, ls)
      | Some nl \<Rightarrow> drain_events (drop (Suc nl) body) (ls @ [take (Suc nl) body]))"
  by pat_completeness auto
termination
  by (relation "measure (\<lambda>(body, ls). length body)") (auto simp: find_byte_Some)

declare drain_events.simps [simp del]

text \<open>The loop over the body: the lines it hands on, and how the stream ended.\<close>

function stream_loop :: "bool \<Rightarrow> bytes \<Rightarrow> bytes \<Rightarrow> reader \<Rightarrow> bytes list \<Rightarrow> bytes list \<times> (io_error + unit)" where
  "stream_loop chunked b body r ls =
     (case (if chunked then drain_chunks b body else ChunkMore [] (body @ b)) of
        ChunkEnd \<Rightarrow> (ls, Inr ())
      | ChunkBad t \<Rightarrow> (ls, Inl (OtherError (''taille de morceau invalide : '' @ t)))
      | ChunkMore b' body' \<Rightarrow>
          (case drain_events body' ls of (body'', ls') \<Rightarrow>
             (case read_some 16384 r of
                (Inl e, r') \<Rightarrow> (ls', Inl e)
              | (Inr c, r') \<Rightarrow> if c = [] then (ls', Inr ()) else stream_loop chunked (b' @ c) body'' r' ls')))"
  by pat_completeness auto
termination
  by (relation "measure (\<lambda>(chunked, b, body, r, ls). rd_size r)") (auto dest: read_some_decreases [OF sym])

declare stream_loop.simps [simp del]

definition header_end :: "bytes \<Rightarrow> nat option" where
  "header_end b = map_option (\<lambda>p. p + 4) (find_sub (CRLF @ CRLF) b)"

definition stream_docker_events :: "reader \<Rightarrow> bytes list \<times> (io_error + unit)" where
  "stream_docker_events r =
     (case fill header_end 16384 [] r of
        (Inl Eof, b, r') \<Rightarrow> ([], Inl (OtherError (''connexion ferm'' @ [CHR 0xC3, CHR 0xA9] @ ''e avant les en-t'' @ [CHR 0xC3, CHR 0xAA] @ ''tes'')))
      | (Inl (Failed e), b, r') \<Rightarrow> ([], Inl e)
      | (Inr k, b, r') \<Rightarrow>
          let headers = from_utf8_lossy (take k b)
          in if \<not> prefix ''HTTP/1.1 200'' headers
             then ([], Inl (OtherError (''r'' @ [CHR 0xC3, CHR 0xA9] @ ''ponse inattendue : ''
                     @ (case str_lines headers of [] \<Rightarrow> [] | l # _ \<Rightarrow> l))))
             else stream_loop (contains_sub ''transfer-encoding: chunked'' (to_ascii_lowercase headers)) (drop k b) [] r' [])"

text \<open>The events of a stream: the lines that can be read, in order.\<close>

definition watched_events :: "(bytes \<Rightarrow> docker_event option) \<Rightarrow> bytes list \<Rightarrow> docker_event list" where
  "watched_events parse ls = List.map_filter parse ls"

definition watch_docker :: "(nat \<Rightarrow> bool) \<Rightarrow> refresh_env \<Rightarrow> (bytes \<Rightarrow> docker_event option) \<Rightarrow> reader \<Rightarrow> agent_hub \<Rightarrow> agent_hub" where
  "watch_docker ok env parse r h =
     fold (on_docker_event ok env) (watched_events parse (fst (stream_docker_events r))) (refresh_ports ok env h)"

section \<open>The control port\<close>

text \<open>What carrying out a command gives, a value or a message; every answer has the number of its request.\<close>

record rpc_env =
  rpc_health :: json
  rpc_configure :: "network_config \<Rightarrow> string + unit"
  rpc_mount :: "mount_share_request \<Rightarrow> string + json"
  rpc_umount :: "string \<Rightarrow> string + unit"
  rpc_exec :: "string \<Rightarrow> nat \<Rightarrow> json"
  rpc_bench :: "string \<Rightarrow> string + json"
  rpc_ports :: json
  rpc_metrics :: json

definition ok_json :: "nat \<Rightarrow> json \<Rightarrow> response" where
  "ok_json i v = response_ok Some i v"

definition result_response :: "nat \<Rightarrow> string + json \<Rightarrow> response" where
  "result_response i r = (case r of Inr v \<Rightarrow> ok_json i v | Inl e \<Rightarrow> response_err i e)"

text \<open>The response, the state, and whether the machine then goes down.\<close>

fun serve_command :: "rpc_env \<Rightarrow> nat \<Rightarrow> agent_command \<Rightarrow> agent_state \<Rightarrow> response \<times> agent_state \<times> nat option" where
  "serve_command env i Ping st = (ok_json i (JString ''pong''), st, None)"
| "serve_command env i Health st = (ok_json i (rpc_health env), st, None)"
| "serve_command env i (ConfigureNetwork cfg) st =
     (case rpc_configure env cfg of
        Inr _ \<Rightarrow> (ok_json i JNull, st\<lparr>ag_network_configured := True\<rparr>, None)
      | Inl e \<Rightarrow> (response_err i e, st, None))"
| "serve_command env i (MountShare req) st = (result_response i (rpc_mount env req), st, None)"
| "serve_command env i (UnmountShare t) st =
     (result_response i (case rpc_umount env t of Inr _ \<Rightarrow> Inr JNull | Inl e \<Rightarrow> Inl e), st, None)"
| "serve_command env i (Exec cmd t) st = (ok_json i (rpc_exec env cmd (case t of Some n \<Rightarrow> n | None \<Rightarrow> 300)), st, None)"
| "serve_command env i (Bench d) st = (result_response i (rpc_bench env d), st, None)"
| "serve_command env i ListPorts st = (ok_json i (rpc_ports env), st, None)"
| "serve_command env i Metrics st = (ok_json i (rpc_metrics env), st, None)"
| "serve_command env i (Shutdown t) st = (ok_json i (JString ''bye''), st\<lparr>ag_shutting_down := True\<rparr>, Some t)"

text \<open>One connection: a response for each line until a shutdown.\<close>

fun serve_client :: "(string \<Rightarrow> string + agent_request) \<Rightarrow> rpc_env \<Rightarrow> string list \<Rightarrow> agent_state \<Rightarrow> response list \<times> agent_state" where
  "serve_client parse env [] st = ([], st)"
| "serve_client parse env (line # lines) st =
     (case parse (trim line) of
        Inl e \<Rightarrow>
          (case serve_client parse env lines st of (rs, st') \<Rightarrow>
             (response_err 0 (''requ'' @ [CHR 0xC3, CHR 0xAA] @ ''te illisible : '' @ e) # rs, st'))
      | Inr req \<Rightarrow>
          (case serve_command env (rq_id req) (rq_command req) st of
             (resp, st', Some t) \<Rightarrow> ([resp], st')
           | (resp, st', None) \<Rightarrow> (case serve_client parse env lines st' of (rs, st'') \<Rightarrow> (resp # rs, st''))))"

section \<open>Lemmas on the stream\<close>

definition after_more :: "(bytes \<Rightarrow> bytes \<Rightarrow> chunk_state) \<Rightarrow> chunk_state \<Rightarrow> chunk_state" where
  "after_more f s = (case s of ChunkMore b body \<Rightarrow> f b body | _ \<Rightarrow> s)"

lemma after_more_simps [simp]:
  "after_more f (ChunkMore b body) = f b body" "after_more f ChunkEnd = ChunkEnd" "after_more f (ChunkBad t) = ChunkBad t"
  by (simp_all add: after_more_def)

text \<open>Bytes that come later do not change what was made of the earlier ones.\<close>

lemma drain_chunks_append:
  "drain_chunks (b @ c) body = after_more (\<lambda>b' body'. drain_chunks (b' @ c) body') (drain_chunks b body)"
proof (induction b body rule: drain_chunks.induct)
  case (1 b body)
  show ?case
  proof (cases "find_sub CRLF b")
    case None
    then show ?thesis by (simp add: drain_chunks.simps [of b])
  next
    case (Some pos)
    then have f: "find_sub CRLF (b @ c) = Some pos" by (rule find_sub_append)
    have p: "pos + 2 \<le> length b" using find_sub_Some [OF Some] by (simp add: CRLF_def)
    show ?thesis
    proof (cases "event_chunk_size (take pos b)")
      case None
      with Some f p show ?thesis by (simp add: drain_chunks.simps [of b] drain_chunks.simps [of "b @ c"])
    next
      case size: (Some n)
      show ?thesis
      proof (cases "n = 0 \<or> length b < pos + 2 + n + 2")
        case True
        with Some f p size show ?thesis
          by (cases "n = 0") (simp_all add: drain_chunks.simps [of b] drain_chunks.simps [of "b @ c"])
      next
        case False
        with 1 [OF Some size] Some f p size show ?thesis
          by (simp add: drain_chunks.simps [of b] drain_chunks.simps [of "b @ c"])
      qed
    qed
  qed
qed

lemma drain_chunks_body:
  "drain_chunks b (x @ y) = after_more (\<lambda>b' body'. ChunkMore b' (x @ body')) (drain_chunks b y)"
proof (induction b y rule: drain_chunks.induct)
  case (1 b y)
  then show ?case
    by (simp add: drain_chunks.simps [of b y] drain_chunks.simps [of b "x @ y"] split: option.split)
qed

lemma drain_events_append:
  "drain_events (body @ c) ls = (case drain_events body ls of (rest, ls') \<Rightarrow> drain_events (rest @ c) ls')"
proof (induction body ls rule: drain_events.induct)
  case (1 body ls)
  show ?case
  proof (cases "find_byte (\<lambda>c. c = LF) body")
    case None
    then show ?thesis by (simp add: drain_events.simps [of body])
  next
    case (Some nl)
    then have n: "nl < length body" "body ! nl = LF" "\<forall>j < nl. body ! j \<noteq> LF" by (simp_all add: find_byte_Some)
    then have "find_byte (\<lambda>c. c = LF) (body @ c) = Some nl" unfolding find_byte_Some by (simp add: nth_append)
    with 1 [OF Some] Some n(1) show ?thesis
      by (simp add: drain_events.simps [of body] drain_events.simps [of "body @ c"])
  qed
qed

lemma stream_loop_total:
  "no_read_errors r \<Longrightarrow> drain_chunks (b @ pending r) [] = ChunkMore bf d \<Longrightarrow>
     stream_loop True b body r ls = (snd (drain_events (body @ d) ls), Inr ())"
proof (induction "True" b body r ls arbitrary: d rule: stream_loop.induct)
  case (1 b body r ls)
  from "1.prems"(2) have "after_more (\<lambda>b' body'. drain_chunks (b' @ pending r) body') (drain_chunks b []) = ChunkMore bf d"
    using drain_chunks_append [of b "pending r" "[]"] by simp
  then obtain b1 d1 where d1: "drain_chunks b [] = ChunkMore b1 d1" "drain_chunks (b1 @ pending r) d1 = ChunkMore bf d"
    by (cases "drain_chunks b []") auto
  then obtain d2 where d2: "drain_chunks (b1 @ pending r) [] = ChunkMore bf d2" "d = d1 @ d2"
    using drain_chunks_body [of "b1 @ pending r" d1 "[]"] by (cases "drain_chunks (b1 @ pending r) []") auto
  have b: "drain_chunks b body = ChunkMore b1 (body @ d1)" using drain_chunks_body [of b body "[]"] d1(1) by simp
  obtain body2 ls2 where e: "drain_events (body @ d1) ls = (body2, ls2)" by fastforce
  obtain x r' where rd: "read_some 16384 r = (x, r')" by fastforce
  with "1.prems"(1) obtain c where c: "x = Inr c" "no_read_errors r'" using read_some_no_errors by blast
  have p: "pending r = c @ pending r'" using read_some_pending rd c(1) by blast
  show ?case
  proof (cases "c = []")
    case True
    then have "pending r = []" using read_some_eof [of 16384 r r'] rd c(1) "1.prems"(1) by simp
    then have "d = d1" using d1(1) "1.prems"(2) by simp
    with True b e rd c show ?thesis by (simp add: stream_loop.simps [of True b])
  next
    case False
    have h: "drain_chunks ((b1 @ c) @ pending r') [] = ChunkMore bf d2" using d2(1) p by simp
    have "stream_loop True (b1 @ c) body2 r' ls2 = (snd (drain_events (body2 @ d2) ls2), Inr ())"
      using "1.hyps" [OF _ e [symmetric] rd [symmetric] c(1) False c(2) h] b by simp
    moreover have "drain_events (body @ d) ls = drain_events (body2 @ d2) ls2"
      using drain_events_append [of "body @ d1" d2 ls] e d2(2) by simp
    ultimately show ?thesis using False b e rd c by (simp add: stream_loop.simps [of True b])
  qed
qed

text \<open>The wire form of a chunked body that is still open: a size line and the data of each chunk.\<close>

fun chunks_on_wire :: "(string \<times> bytes) list \<Rightarrow> bytes" where
  "chunks_on_wire [] = []"
| "chunks_on_wire ((l, d) # cs) = l @ CRLF @ d @ CRLF @ chunks_on_wire cs"

definition chunk_ok :: "string \<times> bytes \<Rightarrow> bool" where
  "chunk_ok c \<longleftrightarrow> \<not> sublist CRLF (fst c) \<and> snd c \<noteq> [] \<and> event_chunk_size (fst c) = Some (length (snd c))"

lemma drain_chunks_wire:
  "list_all chunk_ok cs \<Longrightarrow> drain_chunks (chunks_on_wire cs) body = ChunkMore [] (body @ concat (map snd cs))"
proof (induction cs arbitrary: body rule: chunks_on_wire.induct)
  case 1
  then show ?case by (simp add: drain_chunks.simps [of "[]"] CRLF_def)
next
  case (2 l d cs)
  let ?b = "l @ CRLF @ d @ CRLF @ chunks_on_wire cs"
  have f: "find_sub CRLF ?b = Some (length l)" using 2(2) by (intro find_crlf_line) (simp add: chunk_ok_def)
  have two: "length CRLF = 2" by (simp add: CRLF_def)
  have "event_chunk_size (take (length l) ?b) = Some (length d)" "d \<noteq> []" using 2(2) by (simp_all add: chunk_ok_def)
  moreover have "drop (length l + 2 + length d + 2) ?b = chunks_on_wire cs" "take (length d) (drop (length l + 2) ?b) = d"
    by (simp_all add: two)
  ultimately have "drain_chunks ?b body = drain_chunks (chunks_on_wire cs) (body @ d)"
    using f by (simp add: drain_chunks.simps [of ?b] two)
  with 2 show ?case by simp
qed

text \<open>The lines handed on are the complete lines of the body, each with its line end.\<close>

definition complete_lines :: "bytes \<Rightarrow> bytes list" where
  "complete_lines x = map (\<lambda>l. l @ [LF]) (butlast (split_on LF x))"

lemma drain_events_lines: "snd (drain_events x ls) = ls @ complete_lines x"
proof (induction x ls rule: drain_events.induct)
  case (1 x ls)
  show ?case
  proof (cases "find_byte (\<lambda>c. c = LF) x")
    case None
    then have "split_on LF x = [x]" by (intro split_on_no_mem) (auto simp: find_byte_None)
    with None show ?thesis by (simp add: drain_events.simps [of x] complete_lines_def)
  next
    case (Some nl)
    then have n: "nl < length x" "x ! nl = LF" "\<forall>j < nl. x ! j \<noteq> LF" by (simp_all add: find_byte_Some)
    have no: "LF \<notin> set (take nl x)" using n by (auto simp: in_set_conv_nth)
    have "x = take nl x @ LF # drop (Suc nl) x" using id_take_nth_drop [OF n(1)] n(2) by simp
    then have "split_on LF x = take nl x # split_on LF (drop (Suc nl) x)" using split_on_append [OF no] by metis
    with 1 [OF Some] Some n show ?thesis
      by (simp add: drain_events.simps [of x] complete_lines_def take_Suc_conv_app_nth)
  qed
qed

lemma header_found:
  assumes "header_end h = Some (length h)" "no_read_errors r" "pending r = h @ w"
  obtains b r' where "fill header_end 16384 [] r = (Inr (length h), b, r')" "take (length h) b = h"
    "drop (length h) b @ pending r' = w" "no_read_errors r'"
proof -
  have probe: "header_end b = None \<or> header_end b = Some (length h)" if b: "prefix b ([] @ pending r)" for b
  proof (cases "find_sub (CRLF @ CRLF) b")
    case (Some i)
    from b obtain z where z: "h @ w = b @ z" using assms(3) by (auto simp: prefix_def)
    have "find_sub (CRLF @ CRLF) (h @ w) = Some i" unfolding z by (rule find_sub_append [OF Some])
    moreover obtain j where "find_sub (CRLF @ CRLF) h = Some j" "j + 4 = length h" using assms(1) by (auto simp: header_end_def)
    ultimately show ?thesis using find_sub_append [of _ h j w] Some by (auto simp: header_end_def)
  qed (simp add: header_end_def)
  have whole: "header_end ([] @ pending r) = Some (length h)"
    using assms(1,3) find_sub_append by (auto simp: header_end_def)
  obtain b r' where f: "fill header_end 16384 [] r = (Inr (length h), b, r')"
    using fill_finds [of "[]" r header_end "length h" 16384] probe whole assms(2) by auto
  have "header_end b = Some (length h)" by (rule fill_answer [OF f])
  then have l: "length h \<le> length b" using find_sub_Some by (fastforce simp: header_end_def CRLF_def)
  have "b @ pending r' = h @ w" using fill_conserves [OF f] assms(3) by simp
  from append_eq_split [OF l this] f fill_no_errors [OF f assms(2)] show thesis using that by blast
qed

section \<open>What the hosts know\<close>

text \<open>What a host that was told \<open>evs\<close> makes of it.\<close>

definition told :: "agent_event list \<Rightarrow> agent_hub" where
  "told evs = fold note_event evs agent_hub_new"

definition hub_inv :: "agent_hub \<Rightarrow> bool" where
  "hub_inv h \<longleftrightarrow> (\<forall>(c, evs) \<in> set (hub_clients h). hub_ports (told evs) = hub_ports h \<and> hub_ready (told evs) = hub_ready h)"

text \<open>One host at a time is greeted, and no announcement falls into a greeting.\<close>

inductive hub_step :: "agent_hub \<Rightarrow> agent_hub \<Rightarrow> bool" where
  Announce: "hub_step h (broadcast ok ev h)"
| Greet: "hub_step h (greet_host v up c written h)"
| Refresh: "hub_step h (refresh_ports ok env h)"
| Docker: "hub_step h (on_docker_event ok env ev h)"

lemma note_event_view:
  "hub_ports g = hub_ports h \<Longrightarrow> hub_ports (note_event ev g) = hub_ports (note_event ev h)"
  "hub_ready g = hub_ready h \<Longrightarrow> hub_ready (note_event ev g) = hub_ready (note_event ev h)"
  by (cases ev; simp)+

lemma note_event_same [simp]:
  "hub_clients (note_event ev h) = hub_clients h" "hub_endpoints (note_event ev h) = hub_endpoints h"
  by (cases ev; simp)+

lemma broadcast_fields [simp]:
  "hub_ports (broadcast ok ev h) = hub_ports (note_event ev h)" "hub_ready (broadcast ok ev h) = hub_ready (note_event ev h)"
  "hub_endpoints (broadcast ok ev h) = hub_endpoints h"
  by (simp_all add: broadcast_def Let_def)

lemma hub_inv_broadcast: "hub_inv h \<Longrightarrow> hub_inv (broadcast ok ev h)"
  by (auto simp: hub_inv_def broadcast_def Let_def told_def intro!: note_event_view)

lemma hub_inv_greet: "hub_inv h \<Longrightarrow> hub_inv (greet_host v up c written h)"
  by (auto simp: hub_inv_def greet_host_def join_host_def greeting_def told_def agent_hub_new_def)

lemma hub_inv_refresh: "hub_inv h \<Longrightarrow> hub_inv (refresh_ports ok env h)"
proof -
  have eps: "hub_inv g \<Longrightarrow> hub_inv (g\<lparr>hub_endpoints := e\<rparr>)" for g e by (simp add: hub_inv_def)
  show "hub_inv h \<Longrightarrow> hub_inv (refresh_ports ok env h)"
    by (auto simp: refresh_ports_def Let_def hub_inv_broadcast eps split: sum.split prod.split bool.split)
qed

lemma hub_inv_step: "hub_step h h' \<Longrightarrow> hub_inv h \<Longrightarrow> hub_inv h'"
  by (induction rule: hub_step.induct)
    (auto simp: on_docker_event_def Let_def hub_inv_broadcast hub_inv_greet hub_inv_refresh)

interpretation hub_machine: machine hub_step hub_inv
  by unfold_locales (rule hub_inv_step)

lemma distinct_sorted_dedup: "sorted xs \<Longrightarrow> distinct (remdups_adj xs)"
  by (induction xs rule: remdups_adj.induct) (auto simp: le_less)

lemma refresh_ports_published:
  assumes "ref_ps env = Inr (True, out)"
  shows "hub_ports (refresh_ports ok env h)
    = remdups_adj (sort (concat (map port_bindings (inspected env (split_whitespace (from_utf8_lossy out))))))"
  using assms by (simp add: refresh_ports_def Let_def)

section \<open>Properties\<close>





text \<open>
  Every request of a connection is answered in its order with its own number, an unreadable one with 0; a shutdown is
  answered and ends the connection.
\<close>

fun answered :: "(string \<Rightarrow> string + agent_request) \<Rightarrow> string list \<Rightarrow> nat list" where
  "answered parse [] = []"
| "answered parse (l # ls) =
     (case parse (trim l) of
        Inl _ \<Rightarrow> 0 # answered parse ls
      | Inr req \<Rightarrow> rq_id req # (case rq_command req of Shutdown _ \<Rightarrow> [] | _ \<Rightarrow> answered parse ls))"

lemma serve_command_id: "serve_command env i cmd st = (resp, st', t) \<Longrightarrow> rs_id resp = i"
  by (cases cmd) (auto simp: ok_json_def response_ok_def response_err_def result_response_def split: sum.splits)

lemma serve_command_down: "serve_command env i cmd st = (resp, st', t) \<Longrightarrow> t \<noteq> None \<longleftrightarrow> (\<exists>n. cmd = Shutdown n)"
  by (cases cmd) (auto split: sum.splits)

theorem rpc_answered_in_order: "map rs_id (fst (serve_client parse env lines st)) = answered parse lines"
proof (induction parse env lines st rule: serve_client.induct)
  case (2 parse env line lines st)
  show ?case
  proof (cases "parse (trim line)")
    case (Inr req)
    obtain resp st' t where c: "serve_command env (rq_id req) (rq_command req) st = (resp, st', t)" by (metis prod_cases3)
    show ?thesis
    proof (cases t)
      case None
      with serve_command_down [OF c] have "answered parse (line # lines) = rq_id req # answered parse lines"
        using Inr by (cases "rq_command req") auto
      moreover have "map rs_id (fst (serve_client parse env lines st')) = answered parse lines"
        using "2.IH"(2) [OF Inr c [unfolded None, symmetric]] by simp
      ultimately show ?thesis using Inr c None serve_command_id [OF c] by (auto split: prod.splits)
    next
      case (Some n)
      with serve_command_down [OF c] Inr c serve_command_id [OF c] show ?thesis by auto
    qed
  qed (use 2 in \<open>auto simp: response_err_def split: prod.split\<close>)
qed simp

section \<open>Where the code departs from what it means\<close>

text \<open>An engine announced between the greeting of a host and its joining is never announced to it.\<close>

theorem announcement_missed_while_greeting:
  "let h = agent_hub_new; h' = join_host c (greeting v up h) (broadcast ok (EngineReady t) h)
   in hub_ready h' \<and> \<not> hub_ready (told (snd (last (hub_clients h'))))"
  by (simp add: agent_hub_new_def join_host_def greeting_def broadcast_def told_def Let_def)

text \<open>Complete events that arrive in one read with the end of the stream are dropped.\<close>

theorem last_events_lost:
  assumes "list_all chunk_ok cs" "event_chunk_size l = Some 0" "\<not> sublist CRLF l"
  shows "stream_loop True (chunks_on_wire cs @ l @ CRLF @ t) body r ls = (ls, Inr ())"
proof -
  have "drain_chunks (l @ CRLF @ t) b = ChunkEnd" for b
    using assms(2) find_crlf_line [OF assms(3), of t] by (simp add: drain_chunks.simps [of "l @ CRLF @ t"])
  then have "drain_chunks (chunks_on_wire cs @ l @ CRLF @ t) body = ChunkEnd"
    using drain_chunks_append [of "chunks_on_wire cs" "l @ CRLF @ t" body] drain_chunks_wire [OF assms(1), of body] by simp
  then show ?thesis by (simp add: stream_loop.simps [of True "chunks_on_wire cs @ l @ CRLF @ t"])
qed

text \<open>When the containers cannot be inspected, every published port is withdrawn.\<close>

theorem inspect_failure_withdraws_ports:
  "ref_ps env = Inr (True, out) \<Longrightarrow> ref_inspect env (split_whitespace (from_utf8_lossy out)) = Inl e \<Longrightarrow>
   hub_ports (refresh_ports ok env h) = []"
  by (simp add: refresh_ports_published inspected_def)

end
