(* ===== verification/Agent_Client.thy ===== *)
theory Agent_Client
  imports Agent_Events Service_Types "HOL-Library.Multiset"
begin

text \<open>
  The service's side of the control port (\<open>crates/solon-service/src/agent_client.rs\<close>): numbered requests, one at a
  time on the connection, whose answers are told apart by their number, and the streams of pushed facts; then both
  sides together.
\<close>

section \<open>Reading lines\<close>

text \<open>
  What reading a line gives: a decoded message, a line that cannot be decoded with the decoder's message, the end of
  the connection, an error, or nothing before the deadline.
\<close>

datatype 'a line_read = Got 'a | Unreadable string | Closed | Broken string | Expired

definition unreachable :: "string \<Rightarrow> solon_error" where
  "unreachable m = solon_error_new AgentUnreachable m"

definition expired_error :: solon_error where
  "expired_error = unreachable (''d'' @ [CHR 0xC3, CHR 0xA9] @ ''lai d'' @ [CHR 0xC3, CHR 0xA9] @ ''pass'' @ [CHR 0xC3, CHR 0xA9]
     @ '' en attendant l'' @ [CHR 0x27] @ ''agent'')"

definition closed_error :: solon_error where
  "closed_error = unreachable (''connexion ferm'' @ [CHR 0xC3, CHR 0xA9] @ ''e par l'' @ [CHR 0x27] @ ''agent'')"

definition mismatch_error :: "nat \<Rightarrow> nat \<Rightarrow> solon_error" where
  "mismatch_error got i = internal_error (''r'' @ [CHR 0xC3, CHR 0xA9] @ ''ponse '' @ dec_of_nat got
     @ '' pour la requ'' @ [CHR 0xC3, CHR 0xAA] @ ''te '' @ dec_of_nat i)"

section \<open>Calls\<close>

text \<open>The answer to request \<open>i\<close>, and the lines left to read.  With no line left the deadline passes.\<close>

fun await_answer :: "nat \<Rightarrow> response line_read list \<Rightarrow> (solon_error + response) \<times> response line_read list" where
  "await_answer i [] = (Inl expired_error, [])"
| "await_answer i (Expired # rs) = (Inl expired_error, rs)"
| "await_answer i (Broken e # rs) = (Inl (unreachable e), rs)"
| "await_answer i (Closed # rs) = (Inl closed_error, rs)"
| "await_answer i (Unreadable e # rs) = (Inl (from_json_error e), rs)"
| "await_answer i (Got resp # rs) =
     (if rs_id resp < i then await_answer i rs
      else if rs_id resp \<noteq> i then (Inl (mismatch_error (rs_id resp) i), rs)
      else (Inr resp, rs))"

definition answer_value :: "response \<Rightarrow> solon_error + json" where
  "answer_value resp =
     (if rs_ok resp then Inr (case rs_result resp of Some v \<Rightarrow> v | None \<Rightarrow> JNull)
      else Inl (unreachable (case rs_error resp of Some e \<Rightarrow> e | None \<Rightarrow> ''erreur agent'')))"

text \<open>A call takes its number at once, waits for the connection, writes its request and reads.\<close>

definition take_number :: "nat \<Rightarrow> nat \<times> nat" where
  "take_number nx = (nx, (nx + 1) mod 2 ^ 64)"

definition perform_call ::
  "string + unit \<Rightarrow> nat \<Rightarrow> response line_read list \<Rightarrow> (solon_error + json) \<times> response line_read list" where
  "perform_call written i reads =
     (case written of
        Inl e \<Rightarrow> (Inl (unreachable e), reads)
      | Inr _ \<Rightarrow>
          (case await_answer i reads of
             (Inl e, rest) \<Rightarrow> (Inl e, rest)
           | (Inr resp, rest) \<Rightarrow> (answer_value resp, rest)))"

definition typed_answer :: "(json \<Rightarrow> string + 'a) \<Rightarrow> solon_error + json \<Rightarrow> solon_error + 'a" where
  "typed_answer from_value r =
     (case r of Inl e \<Rightarrow> Inl e | Inr v \<Rightarrow> (case from_value v of Inl t \<Rightarrow> Inl (from_json_error t) | Inr x \<Rightarrow> Inr x))"

definition ping_answer :: "solon_error + json \<Rightarrow> solon_error + unit" where
  "ping_answer r = (case r of Inl e \<Rightarrow> Inl e | Inr _ \<Rightarrow> Inr ())"

section \<open>Streams\<close>

text \<open>The next fact: unreadable lines are skipped, the end of the connection is \<open>None\<close>.\<close>

fun stream_next :: "'a line_read list \<Rightarrow> (solon_error + 'a option) \<times> 'a line_read list" where
  "stream_next [] = (Inr None, [])"
| "stream_next (Got x # rs) = (Inr (Some x), rs)"
| "stream_next (Unreadable e # rs) = stream_next rs"
| "stream_next (Closed # rs) = (Inr None, rs)"
| "stream_next (Broken e # rs) = (Inl (unreachable e), rs)"
| "stream_next (Expired # rs) = stream_next rs"

text \<open>The vsock ports of the two streams.\<close>

definition events_port :: nat where "events_port = PORT_EVENTS"
definition trace_port :: nat where "trace_port = PORT_TRACE"

section \<open>Both sides\<close>

text \<open>
  The connection with several callers: the next number, the calls that have one and wait for the connection, the
  answers of the agent that were not read yet, the agent, and what the calls returned.
\<close>

record control =
  ctl_next :: nat
  ctl_waiting :: "(nat \<times> agent_command) list"
  ctl_wire :: "response list"
  ctl_agent :: agent_state
  ctl_returned :: "(nat \<times> agent_command \<times> (solon_error + json)) list"

definition control_new :: "agent_state \<Rightarrow> control" where
  "control_new st = \<lparr>ctl_next = 1, ctl_waiting = [], ctl_wire = [], ctl_agent = st, ctl_returned = []\<rparr>"

definition new_call :: "agent_command \<Rightarrow> control \<Rightarrow> control" where
  "new_call cmd c =
     (case take_number (ctl_next c) of
        (i, nx) \<Rightarrow> c\<lparr>ctl_next := nx, ctl_waiting := ctl_waiting c @ [(i, cmd)]\<rparr>)"

text \<open>
  The call that gets the connection: the agent answers its request behind the answers still on the way, and the call
  reads \<open>k\<close> of them before its deadline; the others stay.
\<close>

definition run_call :: "rpc_env \<Rightarrow> nat \<Rightarrow> nat \<times> agent_command \<Rightarrow> control \<Rightarrow> control" where
  "run_call env k q c =
     (case serve_command env (fst q) (snd q) (ctl_agent c) of
        (resp, st', down) \<Rightarrow>
          let wire = ctl_wire c @ [resp];
              (result, unread) = perform_call (Inr ()) (fst q) (map Got (take k wire))
          in c\<lparr>ctl_waiting := remove1 q (ctl_waiting c), ctl_agent := st',
               ctl_wire := drop (length (take k wire) - length unread) wire,
               ctl_returned := ctl_returned c @ [(fst q, snd q, result)]\<rparr>)"

inductive control_step :: "control \<Rightarrow> control \<Rightarrow> bool" where
  NewCall: "control_step c (new_call cmd c)"
| RunCall: "q \<in> set (ctl_waiting c) \<Longrightarrow> control_step c (run_call env k q c)"

section \<open>Lemmas\<close>

lemma await_answer_sound:
  "await_answer i (map Got rs) = (Inr resp, rest) \<Longrightarrow> resp \<in> set rs \<and> rs_id resp = i"
  by (induction rs) (auto split: if_splits)

lemma await_answer_late:
  "\<forall>x \<in> set rs. rs_id x < i \<Longrightarrow> rs_id resp = i \<Longrightarrow> await_answer i (map Got (rs @ resp # rest)) = (Inr resp, map Got rest)"
  by (induction rs) auto

lemma perform_call_value:
  "perform_call (Inr ()) i (map Got rs) = (Inr v, rest) \<Longrightarrow> \<exists>resp \<in> set rs. rs_id resp = i \<and> answer_value resp = Inr v"
  by (auto simp: perform_call_def split: prod.splits sum.splits dest: await_answer_sound)

definition calls_made :: "control \<Rightarrow> nat" where
  "calls_made c = length (ctl_waiting c) + length (ctl_returned c)"

definition call_ids :: "control \<Rightarrow> nat list" where
  "call_ids c = map fst (ctl_waiting c) @ map fst (ctl_returned c)"

text \<open>A returned value is the agent's answer to that very command.\<close>

definition own_answer :: "nat \<times> agent_command \<times> (solon_error + json) \<Rightarrow> bool" where
  "own_answer x \<longleftrightarrow>
     (case x of (i, cmd, r) \<Rightarrow> \<forall>v. r = Inr v \<longrightarrow> (\<exists>env st. answer_value (fst (serve_command env i cmd st)) = Inr v))"

definition control_inv :: "control \<Rightarrow> bool" where
  "control_inv c \<longleftrightarrow>
     (calls_made c + 1 < 2 ^ 64 \<longrightarrow>
        ctl_next c = calls_made c + 1 \<and> distinct (call_ids c) \<and> (\<forall>i \<in> set (call_ids c). i \<le> calls_made c)
        \<and> rs_id ` set (ctl_wire c) \<subseteq> fst ` set (ctl_returned c) \<and> (\<forall>x \<in> set (ctl_returned c). own_answer x))"

lemma run_call_shape:
  obtains resp st' t unread result where
    "serve_command env (fst q) (snd q) (ctl_agent c) = (resp, st', t)" "rs_id resp = fst q"
    "perform_call (Inr ()) (fst q) (map Got (take k (ctl_wire c @ [resp]))) = (result, unread)"
    "run_call env k q c = c\<lparr>ctl_waiting := remove1 q (ctl_waiting c), ctl_agent := st',
        ctl_wire := drop (length (take k (ctl_wire c @ [resp])) - length unread) (ctl_wire c @ [resp]),
        ctl_returned := ctl_returned c @ [(fst q, snd q, result)]\<rparr>"
proof -
  obtain resp st' t where s: "serve_command env (fst q) (snd q) (ctl_agent c) = (resp, st', t)" by (metis prod_cases3)
  obtain result unread where p: "perform_call (Inr ()) (fst q) (map Got (take k (ctl_wire c @ [resp]))) = (result, unread)"
    by fastforce
  show thesis by (rule that [OF s serve_command_id [OF s] p]) (simp only: run_call_def s Let_def prod.case p)
qed

lemma mset_remove1: "q \<in> set xs \<Longrightarrow> mset (map fst (remove1 q xs)) + {#fst q#} = mset (map fst xs)"
  by (induction xs) auto

lemma call_ids_run:
  assumes "q \<in> set (ctl_waiting c)"
  shows "mset (call_ids (run_call env k q c)) = mset (call_ids c)" "calls_made (run_call env k q c) = calls_made c"
proof -
  obtain result where r: "ctl_waiting (run_call env k q c) = remove1 q (ctl_waiting c)"
      "ctl_returned (run_call env k q c) = ctl_returned c @ [(fst q, snd q, result)]"
    by (rule run_call_shape [of env q c k]) simp
  show m: "mset (call_ids (run_call env k q c)) = mset (call_ids c)"
    using mset_remove1 [OF assms] by (simp add: r call_ids_def ac_simps)
  have "length (call_ids x) = calls_made x" for x by (simp add: call_ids_def calls_made_def)
  with m show "calls_made (run_call env k q c) = calls_made c" by (metis size_mset)
qed

lemma control_inv_run:
  assumes "control_inv c" "q \<in> set (ctl_waiting c)"
  shows "control_inv (run_call env k q c)"
  unfolding control_inv_def
proof
  let ?c = "run_call env k q c"
  assume "calls_made ?c + 1 < 2 ^ 64"
  with assms have c: "ctl_next c = calls_made c + 1" "distinct (call_ids c)" "\<forall>i \<in> set (call_ids c). i \<le> calls_made c"
      "rs_id ` set (ctl_wire c) \<subseteq> fst ` set (ctl_returned c)" "\<forall>x \<in> set (ctl_returned c). own_answer x"
    by (simp_all add: control_inv_def call_ids_run)
  obtain resp st' t unread result where s: "serve_command env (fst q) (snd q) (ctl_agent c) = (resp, st', t)"
    and i: "rs_id resp = fst q"
    and p: "perform_call (Inr ()) (fst q) (map Got (take k (ctl_wire c @ [resp]))) = (result, unread)"
    and r: "?c = c\<lparr>ctl_waiting := remove1 q (ctl_waiting c), ctl_agent := st',
        ctl_wire := drop (length (take k (ctl_wire c @ [resp])) - length unread) (ctl_wire c @ [resp]),
        ctl_returned := ctl_returned c @ [(fst q, snd q, result)]\<rparr>" by (rule run_call_shape)
  have "fst q \<notin> fst ` set (ctl_returned c)" using c(2) assms(2) by (auto simp: call_ids_def)
  then have only: "x = resp" if "x \<in> set (ctl_wire c @ [resp])" "rs_id x = fst q" for x
    using that subsetD [OF c(4), OF imageI, of x] by auto
  have "own_answer (fst q, snd q, result)" unfolding own_answer_def
  proof (clarsimp)
    fix v assume "result = Inr v"
    with p obtain x where x: "x \<in> set (take k (ctl_wire c @ [resp]))" "rs_id x = fst q" "answer_value x = Inr v"
      using perform_call_value by metis
    then have "x = resp" using only in_set_takeD by metis
    with x(3) s show "\<exists>env st. answer_value (fst (serve_command env (fst q) (snd q) st)) = Inr v" by (metis fst_conv)
  qed
  moreover have "rs_id ` set (ctl_wire ?c) \<subseteq> fst ` set (ctl_returned ?c)"
    using c(4) i by (auto simp: r dest: in_set_dropD)
  moreover have "distinct (call_ids ?c)" "set (call_ids ?c) = set (call_ids c)"
    using c(2) mset_eq_imp_distinct_iff [OF call_ids_run(1) [OF assms(2)]] mset_eq_setD [OF call_ids_run(1) [OF assms(2)]]
    by simp_all
  moreover have f: "ctl_next ?c = ctl_next c" "ctl_returned ?c = ctl_returned c @ [(fst q, snd q, result)]" by (simp_all add: r)
  ultimately show "ctl_next ?c = calls_made ?c + 1 \<and> distinct (call_ids ?c) \<and> (\<forall>i \<in> set (call_ids ?c). i \<le> calls_made ?c)
        \<and> rs_id ` set (ctl_wire ?c) \<subseteq> fst ` set (ctl_returned ?c) \<and> (\<forall>x \<in> set (ctl_returned ?c). own_answer x)"
    using c call_ids_run(2) [OF assms(2), of env k] f by auto
qed

lemma control_inv_new:
  assumes "control_inv c"
  shows "control_inv (new_call cmd c)"
  unfolding control_inv_def
proof
  let ?c = "new_call cmd c"
  have n: "calls_made ?c = calls_made c + 1" by (simp add: calls_made_def new_call_def take_number_def)
  assume "calls_made ?c + 1 < 2 ^ 64"
  with n assms have c: "ctl_next c = calls_made c + 1" "distinct (call_ids c)" "\<forall>i \<in> set (call_ids c). i \<le> calls_made c"
      "rs_id ` set (ctl_wire c) \<subseteq> fst ` set (ctl_returned c)" "\<forall>x \<in> set (ctl_returned c). own_answer x" "calls_made c + 2 < 2 ^ 64"
    by (simp_all add: control_inv_def)
  have ids: "set (call_ids ?c) = insert (calls_made c + 1) (set (call_ids c))"
    "distinct (call_ids ?c) \<longleftrightarrow> distinct (call_ids c) \<and> calls_made c + 1 \<notin> set (call_ids c)"
    using c(1) by (auto simp: call_ids_def new_call_def take_number_def)
  have "ctl_next ?c = calls_made c + 2" using c(1,6) by (simp add: new_call_def take_number_def)
  moreover have "ctl_wire ?c = ctl_wire c" "ctl_returned ?c = ctl_returned c" by (simp_all add: new_call_def take_number_def)
  moreover have "calls_made c + 1 \<notin> set (call_ids c)" using c(3) by fastforce
  ultimately show "ctl_next ?c = calls_made ?c + 1 \<and> distinct (call_ids ?c) \<and> (\<forall>i \<in> set (call_ids ?c). i \<le> calls_made ?c)
        \<and> rs_id ` set (ctl_wire ?c) \<subseteq> fst ` set (ctl_returned ?c) \<and> (\<forall>x \<in> set (ctl_returned ?c). own_answer x)"
    using c ids n by auto
qed

lemma control_inv_step: "control_step c c' \<Longrightarrow> control_inv c \<Longrightarrow> control_inv c'"
  by (induction rule: control_step.induct) (simp_all add: control_inv_new control_inv_run)

interpretation control_machine: machine control_step control_inv
  by unfold_locales (rule control_inv_step)

section \<open>Properties\<close>



section \<open>Where the code departs from what it means\<close>

text \<open>
  Numbers are given before the connection is free, so a call may read the late answer of one with a higher number: it
  fails with an internal error although the agent answers it.
\<close>

theorem later_numbered_answer_fails_call:
  "let c = run_call env 2 (1, Ping) (run_call env 0 (2, Health) (new_call Health (new_call Ping (control_new st))))
   in snd (snd (last (ctl_returned c))) = Inl (mismatch_error 2 1)"
  by (simp add: run_call_def new_call_def take_number_def control_new_def perform_call_def Let_def ok_json_def response_ok_def)

text \<open>The agent's complaint about a request it cannot read has number 0 and is thrown away as a late answer.\<close>

theorem complaint_thrown_away:
  "0 < i \<Longrightarrow> perform_call (Inr ()) i [Got (response_err 0 e)] = (Inl expired_error, [])"
  by (simp add: perform_call_def response_err_def)

end
