(* ===== verification/Dns_Relay.thy ===== *)
theory Dns_Relay
  imports Local_Domains Transitions "HOL-Library.AList"
begin

text \<open>
  The DNS relay of the machine (\<open>crates/solon-agent/src/dns.rs\<close>): names and answers of a message, the bounded
  table of the names of addresses, the question put to one server after the other, and the number of questions
  served at a time.
\<close>

definition MAX_IN_FLIGHT :: nat where "MAX_IN_FLIGHT = 64"
definition MAX_NAMES :: nat where "MAX_NAMES = 4096"

section \<open>Names\<close>

definition read_label :: "bytes \<Rightarrow> nat \<Rightarrow> nat \<Rightarrow> string" where
  "read_label msg from len = to_ascii_lowercase (from_utf8_lossy (take len (drop from msg)))"

function read_name_loop :: "bytes \<Rightarrow> nat \<Rightarrow> string list \<Rightarrow> nat option \<Rightarrow> nat \<Rightarrow> (string \<times> nat) option" where
  "read_name_loop msg pos labs endp hops =
     (if pos \<ge> length msg then None
      else let len = code (msg ! pos)
           in if len = 0 then Some (join_with ''.'' labs, (case endp of Some e \<Rightarrow> e | None \<Rightarrow> pos + 1))
              else if len \<ge> 0xC0 then
                (if pos + 1 \<ge> length msg then None
                 else let ptr = (len mod 64) * 256 + code (msg ! (pos + 1))
                      in if hops + 1 > 16 \<or> ptr \<ge> length msg then None
                         else read_name_loop msg ptr labs (case endp of None \<Rightarrow> Some (pos + 2) | Some e \<Rightarrow> Some e) (hops + 1))
              else if pos + 1 + len > length msg then None
              else read_name_loop msg (pos + 1 + len) (labs @ [read_label msg (pos + 1) len]) endp hops)"
  by pat_completeness auto
termination
  by (relation "measures [\<lambda>(msg, pos, labs, endp, hops). 17 - hops, \<lambda>(msg, pos, labs, endp, hops). length msg - pos]")
    auto

declare read_name_loop.simps [simp del]

definition read_name :: "bytes \<Rightarrow> nat \<Rightarrow> (string \<times> nat) option" where
  "read_name msg pos = read_name_loop msg pos [] None 0"

section \<open>Addresses\<close>

fun hex_of_nat :: "nat \<Rightarrow> string" where
  "hex_of_nat n =
     (if n < 16 then [if n < 10 then char_of (48 + n) else char_of (87 + n)]
      else hex_of_nat (n div 16) @ [if n mod 16 < 10 then char_of (48 + n mod 16) else char_of (87 + n mod 16)])"

declare hex_of_nat.simps [simp del]

text \<open>The first longest run of zeros, as its start and length.\<close>

fun zero_run :: "nat \<Rightarrow> nat list \<Rightarrow> nat \<times> nat \<Rightarrow> nat \<times> nat \<Rightarrow> nat \<times> nat" where
  "zero_run i [] cur best = best"
| "zero_run i (s # ss) cur best =
     (if s = 0 then
        (let cur = ((if snd cur = 0 then i else fst cur), Suc (snd cur))
         in zero_run (Suc i) ss cur (if snd cur > snd best then cur else best))
      else zero_run (Suc i) ss (0, 0) best)"

fun segments :: "nat list \<Rightarrow> nat list" where
  "segments (a # b # rest) = (a * 256 + b) # segments rest"
| "segments _ = []"

definition show_ipv6 :: "nat list \<Rightarrow> string" where
  "show_ipv6 octets =
     (if take 12 octets = replicate 10 0 @ [255, 255] then ''::ffff:'' @ show_ipv4 (drop 12 octets)
      else let ss = segments octets; r = zero_run 0 ss (0, 0) (0, 0)
           in if snd r > 1
              then join_with '':'' (map hex_of_nat (take (fst r) ss)) @ ''::'' @ join_with '':'' (map hex_of_nat (drop (fst r + snd r) ss))
              else join_with '':'' (map hex_of_nat ss))"

section \<open>Answers\<close>

definition be16 :: "bytes \<Rightarrow> nat \<Rightarrow> nat" where
  "be16 msg i = code (msg ! i) * 256 + code (msg ! (i + 1))"

fun skip_questions :: "bytes \<Rightarrow> nat \<Rightarrow> nat \<Rightarrow> nat option" where
  "skip_questions msg pos 0 = Some pos"
| "skip_questions msg pos (Suc n) =
     (case read_name msg pos of None \<Rightarrow> None | Some (_, nx) \<Rightarrow> skip_questions msg (nx + 4) n)"

definition address_of :: "nat \<Rightarrow> bytes \<Rightarrow> string list" where
  "address_of rtype rdata =
     (if rtype = 1 \<and> length rdata = 4 then [show_ipv4 (map code rdata)]
      else if rtype = 28 \<and> length rdata = 16 then [show_ipv6 (map code rdata)]
      else [])"

fun read_answers :: "bytes \<Rightarrow> nat \<Rightarrow> nat \<Rightarrow> string list \<Rightarrow> string list option" where
  "read_answers msg pos 0 ips = Some ips"
| "read_answers msg pos (Suc n) ips =
     (case read_name msg pos of
        None \<Rightarrow> None
      | Some (_, pos) \<Rightarrow>
          if pos + 10 > length msg then Some ips
          else let rtype = be16 msg pos; rdlen = be16 msg (pos + 8); pos = pos + 10
               in if pos + rdlen > length msg then Some ips
                  else read_answers msg (pos + rdlen) n (ips @ address_of rtype (take rdlen (drop pos msg))))"

definition parse_answers :: "bytes \<Rightarrow> (string \<times> string list) option" where
  "parse_answers msg =
     (if length msg < 12 \<or> code (msg ! 2) < 128 then None
      else let qdcount = be16 msg 4; ancount = be16 msg 6
           in if qdcount = 0 \<or> ancount = 0 then None
              else (case read_name msg 12 of
                      None \<Rightarrow> None
                    | Some (qname, nx) \<Rightarrow>
                        (case skip_questions msg (nx + 4) (qdcount - 1) of
                           None \<Rightarrow> None
                         | Some pos \<Rightarrow>
                             (case read_answers msg pos ancount [] of
                                None \<Rightarrow> None
                              | Some ips \<Rightarrow> if ips \<noteq> [] then Some (qname, ips) else None))))"

section \<open>The table of names\<close>

text \<open>The order of the list stands for the order in which the hash map is walked.\<close>

type_synonym name_table = "(string \<times> string \<times> nat) list"

definition name_lookup :: "string \<Rightarrow> name_table \<Rightarrow> string option" where
  "name_lookup ip table = map_option fst (map_of table ip)"

definition forget_oldest :: "name_table \<Rightarrow> name_table" where
  "forget_oldest table =
     (let by_age = sort_key (\<lambda>(k, n, t). t) table; gone = map fst (take (MAX_NAMES div 2) by_age)
      in filter (\<lambda>e. fst e \<notin> set gone) table)"

definition remember_name :: "nat \<Rightarrow> string \<Rightarrow> string \<Rightarrow> name_table \<Rightarrow> name_table" where
  "remember_name now name ip table =
     (let table = (if MAX_NAMES \<le> length table \<and> ip \<notin> fst ` set table then forget_oldest table else table)
      in AList.update ip (name, now) table)"

section \<open>Questions\<close>

text \<open>
  What a server does until the deadline: whether the question could be sent, and what is received, a message
  or an error.
\<close>

record upstream =
  asked :: bool
  received :: "bytes option list"

fun first_reply :: "bytes \<Rightarrow> bytes option list \<Rightarrow> bytes option" where
  "first_reply query [] = None"
| "first_reply query (None # rs) = None"
| "first_reply query (Some m # rs) =
     (if 12 \<le> length m \<and> take 2 m = take 2 query then Some m else first_reply query rs)"

fun ask_servers :: "bytes \<Rightarrow> upstream list \<Rightarrow> bytes option" where
  "ask_servers query [] = None"
| "ask_servers query (u # us) =
     (if \<not> asked u then ask_servers query us
      else (case first_reply query (received u) of Some m \<Rightarrow> Some m | None \<Rightarrow> ask_servers query us))"

definition resolve :: "bytes \<Rightarrow> upstream list \<Rightarrow> bytes option" where
  "resolve query us = (if length query < 12 then None else ask_servers query us)"

definition learn :: "nat \<Rightarrow> bytes \<Rightarrow> name_table \<Rightarrow> name_table" where
  "learn now answer table =
     (case parse_answers answer of None \<Rightarrow> table | Some (name, ips) \<Rightarrow> fold (remember_name now name) ips table)"

text \<open>
  The relay: the questions in flight, the table, and what is sent back.  A question is taken by the one
  thread that receives; its own thread answers it later.
\<close>

record relay =
  in_flight :: nat
  waiting :: "(bytes \<times> nat) list"
  dns_names :: name_table
  replies :: "(bytes \<times> nat) list"

definition take_question :: "bool \<Rightarrow> bytes \<Rightarrow> nat \<Rightarrow> relay \<Rightarrow> relay" where
  "take_question spawned query from r =
     (if in_flight r \<ge> MAX_IN_FLIGHT then r
      else if spawned then r\<lparr>in_flight := in_flight r + 1, waiting := waiting r @ [(query, from)]\<rparr>
      else r\<lparr>in_flight := in_flight r + 1 - 1\<rparr>)"

definition answer_question :: "nat \<Rightarrow> upstream list \<Rightarrow> bytes \<times> nat \<Rightarrow> relay \<Rightarrow> relay" where
  "answer_question now us q r =
     (let r = (case resolve (fst q) us of
                 Some ans \<Rightarrow> r\<lparr>dns_names := learn now ans (dns_names r), replies := replies r @ [(ans, snd q)]\<rparr>
               | None \<Rightarrow> r)
      in r\<lparr>in_flight := in_flight r - 1, waiting := remove1 q (waiting r)\<rparr>)"

inductive dns_step :: "relay \<Rightarrow> relay \<Rightarrow> bool" where
  Arrive: "dns_step r (take_question spawned query from r)"
| Answer: "q \<in> set (waiting r) \<Longrightarrow> dns_step r (answer_question now us q r)"

definition relay_new :: relay where
  "relay_new = \<lparr>in_flight = 0, waiting = [], dns_names = [], replies = []\<rparr>"

section \<open>Lemmas\<close>

text \<open>How a server writes a name: each label after its length, then a zero.\<close>

definition encode_labels :: "string list \<Rightarrow> bytes" where
  "encode_labels ls = concat (map (\<lambda>l. char_of (length l) # l) ls)"

definition encode_name :: "string list \<Rightarrow> bytes" where
  "encode_name ls = encode_labels ls @ [CHR 0x00]"

definition label_ok :: "string \<Rightarrow> bool" where
  "label_ok l \<longleftrightarrow> l \<noteq> [] \<and> length l < 64 \<and> utf8_valid l"

lemma read_label_at:
  assumes "label_ok l" "msg = pre @ char_of (length l) # l @ post"
  shows "read_name_loop msg (length pre) labs endp hops
     = read_name_loop msg (length pre + 1 + length l) (labs @ [to_ascii_lowercase l]) endp hops"
proof -
  have "code (char_of (length l)) = length l" using assms(1) by (simp add: label_ok_def)
  moreover have "msg ! length pre = char_of (length l)" "drop (length pre + 1) msg = l @ post" using assms(2) by simp_all
  ultimately show ?thesis
    using assms by (subst read_name_loop.simps) (auto simp: label_ok_def Let_def read_label_def from_utf8_lossy_valid)
qed

lemma read_labels_at:
  "list_all label_ok ls \<Longrightarrow> msg = pre @ encode_labels ls @ post \<Longrightarrow>
   read_name_loop msg (length pre) labs endp hops
     = read_name_loop msg (length pre + length (encode_labels ls)) (labs @ map to_ascii_lowercase ls) endp hops"
proof (induction ls arbitrary: pre labs)
  case (Cons l ls)
  have "msg = (pre @ char_of (length l) # l) @ encode_labels ls @ post" using Cons.prems(2) by (simp add: encode_labels_def)
  from Cons.IH [OF _ this] Cons.prems(1)
    read_label_at [of l msg pre "encode_labels ls @ post" labs endp hops] Cons.prems(2)
  show ?case by (simp add: encode_labels_def add.assoc)
qed (simp add: encode_labels_def)

lemma read_name_at:
  assumes "list_all label_ok ls" "msg = pre @ encode_name ls @ post"
  shows "read_name_loop msg (length pre) labs endp hops
     = Some (join_with ''.'' (labs @ map to_ascii_lowercase ls),
             case endp of Some e \<Rightarrow> e | None \<Rightarrow> length pre + length (encode_name ls))"
proof -
  have m: "msg = pre @ encode_labels ls @ CHR 0x00 # post" using assms(2) by (simp add: encode_name_def)
  then have "msg ! (length pre + length (encode_labels ls)) = CHR 0x00" by (simp add: nth_append)
  moreover have "length pre + length (encode_labels ls) < length msg" by (simp add: m)
  ultimately have "read_name_loop msg (length pre + length (encode_labels ls)) acc endp hops
      = Some (join_with ''.'' acc, case endp of Some e \<Rightarrow> e | None \<Rightarrow> length pre + length (encode_name ls))" for acc
    by (subst read_name_loop.simps) (simp add: Let_def encode_name_def split: option.split)
  then show ?thesis using read_labels_at [OF assms(1) m, of labs endp hops] by simp
qed

lemma pointer_high: "x < 64 \<Longrightarrow> (0xC0 + x) mod 64 = (x :: nat)"
  using mod_mult_self1 [of x 3 64] by (simp add: add.commute)

lemma read_pointer_at:
  assumes "pos + 1 < length msg" "msg ! pos = char_of (0xC0 + off div 256)" "msg ! (pos + 1) = char_of (off mod 256)"
    and "off < 16384" "off < length msg"
  shows "read_name_loop msg pos labs None 0 = read_name_loop msg off labs (Some (pos + 2)) 1"
proof -
  have d: "off div 256 < 64" using assms(4) by simp
  then have "code (msg ! pos) = 0xC0 + off div 256" "code (msg ! (pos + 1)) = off mod 256" using assms(2,3) by simp_all
  moreover have "(0xC0 + off div 256) mod 64 = off div 256" using pointer_high [OF d] .
  ultimately show ?thesis using assms(1,5) by (subst read_name_loop.simps) (simp add: Let_def)
qed

lemma first_reply_sound: "first_reply query rs = Some m \<Longrightarrow> Some m \<in> set rs \<and> 12 \<le> length m \<and> take 2 m = take 2 query"
  by (induction query rs rule: first_reply.induct) (auto split: if_splits)

lemma ask_servers_sound:
  "ask_servers query us = Some m \<Longrightarrow> (\<exists>u \<in> set us. Some m \<in> set (received u)) \<and> 12 \<le> length m \<and> take 2 m = take 2 query"
  by (induction query us rule: ask_servers.induct) (auto split: if_splits option.splits dest: first_reply_sound)

section \<open>The invariant\<close>

definition table_ok :: "name_table \<Rightarrow> bool" where
  "table_ok t \<longleftrightarrow> distinct (map fst t) \<and> length t \<le> MAX_NAMES"

lemma forget_oldest_less: "t \<noteq> [] \<Longrightarrow> length (forget_oldest t) < length t"
proof -
  assume t: "t \<noteq> []"
  let ?by = "sort_key (\<lambda>(k, n, t). t) t"
  have "?by \<noteq> []" using t by (metis set_empty set_sort)
  then obtain x xs where x: "?by = x # xs" by (cases ?by) auto
  then have "x \<in> set t" by (metis list.set_intros(1) set_sort)
  moreover have "fst x \<in> set (map fst (take (MAX_NAMES div 2) ?by))" by (simp add: x MAX_NAMES_def)
  ultimately show ?thesis unfolding forget_oldest_def Let_def by (intro length_filter_less) auto
qed

lemma length_update: "length (AList.update k v t) = (if k \<in> fst ` set t then length t else Suc (length t))"
  by (induction t) auto

lemma table_ok_remember: "table_ok t \<Longrightarrow> table_ok (remember_name now name ip t)"
proof -
  assume t: "table_ok t"
  define u where "u = (if MAX_NAMES \<le> length t \<and> ip \<notin> fst ` set t then forget_oldest t else t)"
  have "distinct (map fst u)" using t by (auto simp: u_def table_ok_def forget_oldest_def Let_def distinct_map_filter)
  moreover have "length u < MAX_NAMES \<or> ip \<in> fst ` set u \<and> length u \<le> MAX_NAMES"
    using t forget_oldest_less [of t] by (cases "t = []") (auto simp: u_def table_ok_def MAX_NAMES_def)
  moreover have "remember_name now name ip t = AList.update ip (name, now) u" by (simp add: remember_name_def u_def)
  ultimately show ?thesis by (auto simp: table_ok_def distinct_update length_update)
qed

lemma table_ok_learn: "table_ok t \<Longrightarrow> table_ok (learn now ans t)"
proof -
  have "table_ok t \<Longrightarrow> table_ok (fold (remember_name now name) ips t)" for name ips
    by (induction ips arbitrary: t) (simp_all add: table_ok_remember)
  then show "table_ok t \<Longrightarrow> table_ok (learn now ans t)" by (auto simp: learn_def split: option.splits)
qed

definition relay_inv :: "relay \<Rightarrow> bool" where
  "relay_inv r \<longleftrightarrow> in_flight r = length (waiting r) \<and> in_flight r \<le> MAX_IN_FLIGHT \<and> table_ok (dns_names r)"

lemma relay_inv_step: "dns_step r r' \<Longrightarrow> relay_inv r \<Longrightarrow> relay_inv r'"
  by (induction rule: dns_step.induct)
    (auto simp: relay_inv_def take_question_def answer_question_def Let_def length_remove1 table_ok_learn split: option.split)

interpretation dns_machine: machine dns_step relay_inv
  by unfold_locales (rule relay_inv_step)

section \<open>Properties\<close>

text \<open>
  C32. The relay stays small whatever is asked of it and whatever the servers answer: at most 64 questions are served
  at a time, exactly those taken and not yet answered, and at most 4096 names are kept, one for each address.
\<close>

theorem dns_relay_bounded:
  assumes "dns_step\<^sup>*\<^sup>* relay_new r"
  shows "in_flight r = length (waiting r) \<and> in_flight r \<le> 64 \<and> length (dns_names r) \<le> 4096 \<and> distinct (map fst (dns_names r))"
proof -
  have "relay_inv relay_new" by (simp add: relay_inv_def relay_new_def table_ok_def)
  with assms have "relay_inv r" by (rule dns_machine.run_keeps)
  then show ?thesis by (simp add: relay_inv_def table_ok_def MAX_NAMES_def MAX_IN_FLIGHT_def)
qed

theorem dns_relay_bounded_witness:
  "\<exists>r. dns_step\<^sup>*\<^sup>* relay_new r \<and> in_flight r = 1 \<and> length (waiting r) = 1"
  using dns_relay_bounded [of "take_question True [] 7 relay_new"]
    r_into_rtranclp [of dns_step, OF Arrive [of relay_new True "[]" 7]]
  by (auto simp: take_question_def relay_new_def MAX_IN_FLIGHT_def)

text \<open>
  A name that a server writes is read back in lower case with the position behind it, wherever it stands in
  the message, written out or as a pointer to an earlier place; so it is the name asked for that is noted.
\<close>

theorem dns_name_read_back:
  assumes "list_all label_ok ls" "msg = pre @ encode_name ls @ post"
  shows "read_name msg (length pre) = Some (join_with ''.'' (map to_ascii_lowercase ls), length pre + length (encode_name ls))
    \<and> (\<forall>pos. pos + 1 < length msg \<and> length pre < 16384 \<and> msg ! pos = char_of (0xC0 + length pre div 256)
         \<and> msg ! (pos + 1) = char_of (length pre mod 256)
         \<longrightarrow> read_name msg pos = Some (join_with ''.'' (map to_ascii_lowercase ls), pos + 2))"
proof (intro conjI allI impI)
  show "read_name msg (length pre) = Some (join_with ''.'' (map to_ascii_lowercase ls), length pre + length (encode_name ls))"
    using read_name_at [OF assms, of "[]" None 0] by (simp add: read_name_def)
next
  fix pos
  assume p: "pos + 1 < length msg \<and> length pre < 16384 \<and> msg ! pos = char_of (0xC0 + length pre div 256)
    \<and> msg ! (pos + 1) = char_of (length pre mod 256)"
  have "length pre < length msg" using assms(2) by (simp add: encode_name_def)
  with p have "read_name msg pos = read_name_loop msg (length pre) [] (Some (pos + 2)) 1"
    unfolding read_name_def by (intro read_pointer_at) auto
  then show "read_name msg pos = Some (join_with ''.'' (map to_ascii_lowercase ls), pos + 2)"
    using read_name_at [OF assms, of "[]" "Some (pos + 2)" 1] by simp
qed

theorem dns_name_read_back_witness:
  "read_name (encode_name [''Api'', ''com''] @ [CHR 0xC0, CHR 0x00]) 9 = Some (''api.com'', 11)"
proof -
  let ?ls = "[''Api'', ''com'']"
  have l: "list_all label_ok ?ls" by (simp add: label_ok_def utf8_valid_ascii)
  have "encode_name ?ls @ [CHR 0xC0, CHR 0x00] = [] @ encode_name ?ls @ [CHR 0xC0, CHR 0x00]" by simp
  note t = dns_name_read_back [OF l this]
  have c: "char_of (192 :: nat) = CHR 0xC0" "char_of (0 :: nat) = CHR 0x00" by (simp_all add: char_of_def bit_0)
  have "length (encode_name ?ls) = 9" by (simp add: encode_name_def encode_labels_def)
  then have n: "(encode_name ?ls @ [CHR 0xC0, CHR 0x00]) ! 9 = CHR 0xC0" "(encode_name ?ls @ [CHR 0xC0, CHR 0x00]) ! 10 = CHR 0x00"
      "10 < length (encode_name ?ls @ [CHR 0xC0, CHR 0x00])"
    by (simp_all add: nth_append)
  have "to_ascii_lowercase ''Api'' = ''api''" "to_ascii_lowercase ''com'' = ''com''"
    by (simp_all add: to_ascii_lowercase_def ascii_lower_def char_of_def bit_0)
  then show ?thesis using conjunct2 [OF t, rule_format, of 9] n c by simp
qed

text \<open>
  A reply is passed on as it was received, from a server that was asked, and only with the identifier of the question.
\<close>

theorem reply_is_received:
  "resolve query us = Some m \<Longrightarrow> (\<exists>u \<in> set us. Some m \<in> set (received u)) \<and> take 2 m = take 2 query"
  using ask_servers_sound [of query us m] by (auto simp: resolve_def split: if_splits)

end
