(* ===== verification/Agent_Trace.thy ===== *)
theory Agent_Trace
  imports Dns_Relay
begin

text \<open>
  What the probes report and how the agent names it (\<open>crates/solon-trace-common/src/lib.rs\<close>,
  \<open>crates/solon-agent/src/trace.rs\<close>): the bytes of an event, the clock, the containers by cgroup and by address, and
  the hosts that listen.
\<close>

section \<open>Raw events\<close>

definition COMM_LEN :: nat where "COMM_LEN = 16"
definition KIND_CONNECT :: nat where "KIND_CONNECT = 2"
definition KIND_CONNECT_FAILED :: nat where "KIND_CONNECT_FAILED = 3"
definition KIND_CLOSE :: nat where "KIND_CLOSE = 4"
definition AF_INET :: nat where "AF_INET = 2"
definition AF_INET6 :: nat where "AF_INET6 = 10"

record raw_event =
  raw_kind :: nat
  raw_pid :: nat
  cgroup_id :: nat
  ts_ns :: nat
  duration_ns :: nat
  raw_comm :: bytes
  saddr :: bytes
  daddr :: bytes
  raw_sport :: nat
  raw_dport :: nat
  family :: nat

definition RAW_SIZE :: nat where "RAW_SIZE = 88"

definition comm_bytes :: "raw_event \<Rightarrow> bytes" where
  "comm_bytes raw =
     take (case find_byte (\<lambda>c. code c = 0) (raw_comm raw) of Some i \<Rightarrow> i | None \<Rightarrow> COMM_LEN) (raw_comm raw)"

text \<open>The fields of \<open>repr(C)\<close>, lowest byte first.\<close>

fun le_number :: "bytes \<Rightarrow> nat" where
  "le_number [] = 0"
| "le_number (c # cs) = code c + 256 * le_number cs"

definition field :: "nat \<Rightarrow> nat \<Rightarrow> bytes \<Rightarrow> bytes" where
  "field off n b = take n (drop off b)"

definition decode_event :: "bytes \<Rightarrow> raw_event option" where
  "decode_event b =
     (if length b < RAW_SIZE then None
      else Some \<lparr>raw_kind = le_number (field 0 4 b), raw_pid = le_number (field 4 4 b), cgroup_id = le_number (field 8 8 b),
                 ts_ns = le_number (field 16 8 b), duration_ns = le_number (field 24 8 b), raw_comm = field 32 16 b,
                 saddr = field 48 16 b, daddr = field 64 16 b, raw_sport = le_number (field 80 2 b),
                 raw_dport = le_number (field 82 2 b), family = le_number (field 84 2 b)\<rparr>)"

definition format_ip :: "bytes \<Rightarrow> nat \<Rightarrow> string" where
  "format_ip b fam = (if fam = AF_INET then show_ipv4 (map code (take 4 b)) else show_ipv6 (map code b))"

section \<open>The clock\<close>

definition clock_new :: "int \<Rightarrow> int \<Rightarrow> int option \<Rightarrow> int" where
  "clock_new tv_sec tv_nsec wall_ms = (case wall_ms of Some w \<Rightarrow> w | None \<Rightarrow> 0) - (tv_sec * 1000 + tv_nsec div 1000000)"

definition to_epoch_ms :: "int \<Rightarrow> nat \<Rightarrow> nat" where
  "to_epoch_ms origin_ms ts = nat (max 0 (origin_ms + int (ts div 1000000)))"

section \<open>Names\<close>

text \<open>The order of the lists stands for the order in which the hash maps are walked; times are in milliseconds.\<close>

record trace_names =
  by_cgroup :: "(nat \<times> string) list"
  by_ip :: "(string \<times> container_endpoint) list"
  last_scan :: "nat option"

definition RESCAN_INTERVAL :: nat where "RESCAN_INTERVAL = 2000"

definition names_stale :: "nat \<Rightarrow> trace_names \<Rightarrow> bool" where
  "names_stale now ns = (case last_scan ns of None \<Rightarrow> True | Some t \<Rightarrow> now - t \<ge> RESCAN_INTERVAL)"

definition short :: "string \<Rightarrow> string" where "short i = take 12 i"

definition is_ascii_hexdigit :: "char \<Rightarrow> bool" where
  "is_ascii_hexdigit c \<longleftrightarrow> is_ascii_digit c \<or> (97 \<le> code c \<and> code c \<le> 102) \<or> (65 \<le> code c \<and> code c \<le> 70)"

text \<open>On the name of the last part of the path.\<close>

definition container_id_of :: "string \<Rightarrow> string option" where
  "container_id_of name =
     (let full = (if prefix ''docker-'' name \<and> suffix ''.scope'' (drop 7 name) then take (length name - 13) (drop 7 name) else name)
      in if length full = 64 \<and> list_all is_ascii_hexdigit full then Some (short full) else None)"

text \<open>
  The tree of cgroups as \<open>read_dir\<close> shows it: the subdirectories of a directory with their names and inodes;
  \<open>None\<close> where it cannot be read, and no inode where the metadata cannot.
\<close>

type_synonym cgroup_view = "string \<Rightarrow> (string \<times> nat option) list option"

definition scan_entry :: "string \<Rightarrow> string \<times> nat option \<Rightarrow> (nat \<times> string) list \<times> string list \<Rightarrow> (nat \<times> string) list \<times> string list" where
  "scan_entry dir e s =
     (case container_id_of (fst e) of
        Some i \<Rightarrow> ((case snd e of Some ino \<Rightarrow> AList.update ino i (fst s) | None \<Rightarrow> fst s), snd s)
      | None \<Rightarrow> (fst s, snd s @ [dir @ ''/'' @ fst e]))"

definition scan_dir :: "cgroup_view \<Rightarrow> string \<Rightarrow> (nat \<times> string) list \<times> string list \<Rightarrow> (nat \<times> string) list \<times> string list" where
  "scan_dir view dir s = (case view dir of None \<Rightarrow> s | Some es \<Rightarrow> fold (scan_entry dir) es s)"

text \<open>One level after the other; \<open>n\<close> is what is left of four.\<close>

fun scan_levels :: "cgroup_view \<Rightarrow> nat \<Rightarrow> string list \<Rightarrow> (nat \<times> string) list \<Rightarrow> (nat \<times> string) list" where
  "scan_levels view 0 queue found = found"
| "scan_levels view (Suc n) queue found =
     (if queue = [] then found
      else case fold (scan_dir view) queue (found, []) of (found', deeper) \<Rightarrow> scan_levels view n deeper found')"

definition CGROUP_ROOT :: string where "CGROUP_ROOT = ''/sys/fs/cgroup''"

definition rescan :: "nat \<Rightarrow> cgroup_view \<Rightarrow> container_endpoint list \<Rightarrow> trace_names \<Rightarrow> trace_names" where
  "rescan now view eps ns =
     \<lparr>by_cgroup = scan_levels view 4 [CGROUP_ROOT] [],
      by_ip = fold (\<lambda>e m. AList.update (ep_ip e) e m) (filter (\<lambda>e. ep_ip e \<noteq> []) eps) [],
      last_scan = Some now\<rparr>"

text \<open>What an event is named with: the time, the tree of cgroups, the running containers, the names of the DNS relay.\<close>

record naming =
  nm_now :: nat
  nm_view :: cgroup_view
  nm_endpoints :: "container_endpoint list"
  nm_names :: name_table

definition fresh_names :: "naming \<Rightarrow> trace_names \<Rightarrow> trace_names" where
  "fresh_names env ns = (if names_stale (nm_now env) ns then rescan (nm_now env) (nm_view env) (nm_endpoints env) ns else ns)"

definition endpoint_of :: "trace_names \<Rightarrow> string \<Rightarrow> string option \<Rightarrow> container_endpoint option" where
  "endpoint_of ns ip cg =
     (case map_of (by_ip ns) ip of
        Some e \<Rightarrow> if (case cg of None \<Rightarrow> True | Some i \<Rightarrow> prefix i (ep_id e)) then Some e
                  else Option.bind cg (\<lambda>i. find (\<lambda>e. prefix i (ep_id e)) (map snd (by_ip ns)))
      | None \<Rightarrow> Option.bind cg (\<lambda>i. find (\<lambda>e. prefix i (ep_id e)) (map snd (by_ip ns))))"

definition peer :: "naming \<Rightarrow> string \<Rightarrow> nat option \<Rightarrow> trace_names \<Rightarrow> trace_peer \<times> trace_names" where
  "peer env ip cgroup ns =
     (let ns = fresh_names env ns; cg = Option.bind cgroup (map_of (by_cgroup ns))
      in (case endpoint_of ns ip cg of
            Some e \<Rightarrow> \<lparr>tp_ip = ip, tp_container_id = Some (short (ep_id e)), tp_name = Some (ep_name e),
                        tp_project = ep_compose_project e, tp_service = ep_compose_service e\<rparr>
          | None \<Rightarrow> \<lparr>tp_ip = ip, tp_container_id = cg, tp_name = name_lookup ip (nm_names env), tp_project = None, tp_service = None\<rparr>,
          ns))"

definition outcome_of :: "nat \<Rightarrow> connection_outcome option" where
  "outcome_of k =
     (if k = KIND_CONNECT then Some Established else if k = KIND_CONNECT_FAILED then Some ConnectionFailed
      else if k = KIND_CLOSE then Some Closed else None)"

definition translate :: "naming \<Rightarrow> int \<Rightarrow> raw_event \<Rightarrow> trace_names \<Rightarrow> trace_event option \<times> trace_names" where
  "translate env origin raw ns =
     (case outcome_of (raw_kind raw) of
        None \<Rightarrow> (None, ns)
      | Some out \<Rightarrow>
          (case peer env (format_ip (saddr raw) (family raw)) (Some (cgroup_id raw)) ns of
             (sp, ns) \<Rightarrow>
               (case peer env (format_ip (daddr raw) (family raw)) None ns of
                  (dp, ns) \<Rightarrow>
                    (Some (Connection
                       \<lparr>tc_ts_ms = to_epoch_ms origin (ts_ns raw), outcome = out, tc_src = sp, tc_dst = dp,
                        sport = raw_sport raw, dport = raw_dport raw, comm = from_utf8_lossy (comm_bytes raw), pid = raw_pid raw,
                        tc_duration_ms = (if raw_kind raw = KIND_CLOSE then Some (duration_ns raw div 1000000) else None)\<rparr>), ns))))"

section \<open>The listening hosts\<close>

record probe_hub =
  ph_clients :: "(nat \<times> trace_event list) list"
  ph_status :: trace_event

definition probe_hub_new :: probe_hub where
  "probe_hub_new = \<lparr>ph_clients = [], ph_status = Status False ''sondes en cours de chargement''\<rparr>"

definition probe_broadcast :: "(nat \<Rightarrow> bool) \<Rightarrow> trace_event \<Rightarrow> probe_hub \<Rightarrow> probe_hub" where
  "probe_broadcast ok ev h =
     h\<lparr>ph_clients := map (\<lambda>(c, evs). (c, evs @ [ev])) (filter (\<lambda>(c, evs). ok c) (ph_clients h))\<rparr>"

definition set_probe_status :: "(nat \<Rightarrow> bool) \<Rightarrow> bool \<Rightarrow> string \<Rightarrow> probe_hub \<Rightarrow> probe_hub" where
  "set_probe_status ok active det h = probe_broadcast ok (Status active det) (h\<lparr>ph_status := Status active det\<rparr>)"

definition probe_join :: "nat \<Rightarrow> trace_event list \<Rightarrow> probe_hub \<Rightarrow> probe_hub" where
  "probe_join c evs h = h\<lparr>ph_clients := ph_clients h @ [(c, evs)]\<rparr>"

definition greet_probe_host :: "nat \<Rightarrow> bool \<Rightarrow> probe_hub \<Rightarrow> probe_hub" where
  "greet_probe_host c written h = (if written then probe_join c [ph_status h] h else h)"

text \<open>The entries of the ring buffer, in order.\<close>

definition report :: "(nat \<Rightarrow> bool) \<Rightarrow> naming \<Rightarrow> int \<Rightarrow> bytes \<Rightarrow> probe_hub \<times> trace_names \<Rightarrow> probe_hub \<times> trace_names" where
  "report ok env origin item s =
     (case decode_event item of
        None \<Rightarrow> s
      | Some raw \<Rightarrow>
          (case translate env origin raw (snd s) of
             (None, ns) \<Rightarrow> (fst s, ns)
           | (Some ev, ns) \<Rightarrow> (probe_broadcast ok ev (fst s), ns)))"

definition drain_ring :: "(nat \<Rightarrow> bool) \<Rightarrow> naming \<Rightarrow> int \<Rightarrow> bytes list \<Rightarrow> probe_hub \<times> trace_names \<Rightarrow> probe_hub \<times> trace_names" where
  "drain_ring ok env origin items s = fold (report ok env origin) items s"

section \<open>Lemmas\<close>

definition names_ok :: "trace_names \<Rightarrow> bool" where
  "names_ok ns \<longleftrightarrow> (\<forall>x \<in> set (by_cgroup ns). length (snd x) = 12)"

lemma container_id_length: "container_id_of name = Some i \<Longrightarrow> length i = 12"
  by (auto simp: container_id_of_def short_def Let_def split: if_splits)

lemma set_update_sub: "set (AList.update k v xs) \<subseteq> insert (k, v) (set xs)"
  by (induction xs) auto

lemma scan_entry_ok:
  "\<forall>x \<in> set (fst s). length (snd x) = 12 \<Longrightarrow> \<forall>x \<in> set (fst (scan_entry dir e s)). length (snd x) = 12"
proof -
  assume s: "\<forall>x \<in> set (fst s). length (snd x) = 12"
  show ?thesis
  proof (cases "container_id_of (fst e)")
    case (Some i)
    then have "length i = 12" by (rule container_id_length)
    with s Some set_update_sub [of _ i "fst s"] show ?thesis
      by (cases "snd e") (force simp: scan_entry_def)+
  qed (use s in \<open>simp add: scan_entry_def\<close>)
qed

lemma fold_inv: "(\<And>x s. P s \<Longrightarrow> P (f x s)) \<Longrightarrow> P s \<Longrightarrow> P (fold f xs s)"
  by (induction xs arbitrary: s) auto

lemma scan_levels_ok:
  "\<forall>x \<in> set acc. length (snd x) = 12 \<Longrightarrow> \<forall>x \<in> set (scan_levels view n queue acc). length (snd x) = 12"
proof (induction n arbitrary: queue acc)
  case (Suc n)
  let ?P = "\<lambda>s :: (nat \<times> string) list \<times> string list. \<forall>x \<in> set (fst s). length (snd x) = 12"
  have "?P s \<Longrightarrow> ?P (fold (scan_entry d) es s)" for d s es by (rule fold_inv [where P = ?P]) (rule scan_entry_ok)
  then have dir: "?P s \<Longrightarrow> ?P (scan_dir view d s)" for d s by (simp add: scan_dir_def split: option.split)
  obtain acc' deeper where f: "fold (scan_dir view) queue (acc, []) = (acc', deeper)" by fastforce
  have "?P (fold (scan_dir view) queue (acc, []))" by (rule fold_inv [where P = ?P]) (use dir Suc.prems in auto)
  with f have "\<forall>x \<in> set acc'. length (snd x) = 12" by simp
  with Suc.IH f Suc.prems show ?case by simp
qed simp

lemma fresh_names_ok: "names_ok ns \<Longrightarrow> names_ok (fresh_names env ns)"
  using scan_levels_ok [of "[]" "nm_view env" 4 "[CGROUP_ROOT]"] by (simp add: fresh_names_def names_ok_def rescan_def)

lemma peer_names: "snd (peer env ip cg ns) = fresh_names env ns"
  by (simp add: peer_def Let_def)

lemma endpoint_of_cgroup: "endpoint_of ns ip (Some i) = Some e \<Longrightarrow> prefix i (ep_id e)"
  by (auto simp: endpoint_of_def find_Some_iff split: option.splits if_splits)

lemma prefix_short: "prefix i x \<Longrightarrow> length i = 12 \<Longrightarrow> short x = i"
  by (auto simp: short_def prefix_def)

lemma peer_cgroup:
  assumes "names_ok ns" "map_of (by_cgroup (fresh_names env ns)) cg = Some i"
  shows "tp_container_id (fst (peer env ip (Some cg) ns)) = Some i"
proof -
  have "length i = 12" using fresh_names_ok [OF assms(1), of env] map_of_SomeD [OF assms(2)] by (force simp: names_ok_def)
  then show ?thesis using assms(2) endpoint_of_cgroup [of "fresh_names env ns" ip i] prefix_short [of i]
    by (auto simp: peer_def Let_def split: option.split)
qed

section \<open>Properties\<close>

text \<open>
  The caller of a connection is named by its cgroup: whenever the kernel's number is that of a container, the event
  carries that container, whatever stands in the list of addresses, even when the address belongs to another one; and both
  ends keep their addresses.
\<close>

theorem caller_named_by_cgroup:
  assumes "names_ok ns" "translate env origin raw ns = (Some (Connection c), ns')"
  shows "(\<forall>i. map_of (by_cgroup (fresh_names env ns)) (cgroup_id raw) = Some i \<longrightarrow> tp_container_id (tc_src c) = Some i)
    \<and> tp_ip (tc_src c) = format_ip (saddr raw) (family raw) \<and> tp_ip (tc_dst c) = format_ip (daddr raw) (family raw)
    \<and> (tc_duration_ms c \<noteq> None \<longleftrightarrow> outcome c = Closed) \<and> names_ok ns'"
proof -
  obtain sp n1 where p1: "peer env (format_ip (saddr raw) (family raw)) (Some (cgroup_id raw)) ns = (sp, n1)" by fastforce
  obtain dp n2 where p2: "peer env (format_ip (daddr raw) (family raw)) None n1 = (dp, n2)" by fastforce
  from assms(2) p1 p2 have c: "tc_src c = sp" "tc_dst c = dp" "ns' = n2" "outcome_of (raw_kind raw) = Some (outcome c)"
      "tc_duration_ms c = (if raw_kind raw = KIND_CLOSE then Some (duration_ns raw div 1000000) else None)"
    by (auto simp: translate_def split: option.splits)
  have "tp_ip (fst (peer env ip cg x)) = ip" for ip cg x by (simp add: peer_def Let_def split: option.split)
  with p1 p2 have "tp_ip sp = format_ip (saddr raw) (family raw)" "tp_ip dp = format_ip (daddr raw) (family raw)"
    by (metis fst_conv)+
  moreover have "names_ok n2"
    using peer_names [of env _ "Some (cgroup_id raw)" ns] peer_names [of env _ None n1] p1 p2 fresh_names_ok assms(1) by (metis snd_conv)
  moreover have "(tc_duration_ms c \<noteq> None) = (outcome c = Closed)"
    using c(4,5) by (auto simp: outcome_of_def KIND_CONNECT_def KIND_CONNECT_FAILED_def KIND_CLOSE_def split: if_splits)
  ultimately show ?thesis using c peer_cgroup [OF assms(1), of env "cgroup_id raw" _ "format_ip (saddr raw) (family raw)"] p1 by simp
qed

definition sample_names :: trace_names where
  "sample_names =
     \<lparr>by_cgroup = [(94, ''aaaaaaaaaaaa'')],
      by_ip = [(''172.18.0.4'', \<lparr>ep_id = ''bbbbbbbbbbbbbbbb'', ep_name = ''other'', ep_compose_project = None, ep_compose_service = None,
                 ep_ip = ''172.18.0.4'', exposed_tcp = [], published_tcp = []\<rparr>)],
      last_scan = Some 0\<rparr>"

definition sample_raw :: raw_event where
  "sample_raw =
     \<lparr>raw_kind = 2, raw_pid = 1, cgroup_id = 94, ts_ns = 0, duration_ns = 0, raw_comm = [], saddr = map char_of [172 :: nat, 18, 0, 4],
      daddr = map char_of [1 :: nat, 1, 1, 1], raw_sport = 1, raw_dport = 2, family = 2\<rparr>"

theorem caller_named_by_cgroup_witness:
  "\<exists>c. fst (translate \<lparr>nm_now = 0, nm_view = Map.empty, nm_endpoints = [], nm_names = []\<rparr> 0 sample_raw sample_names) = Some (Connection c)
     \<and> tp_container_id (tc_src c) = Some ''aaaaaaaaaaaa''"
proof -
  let ?env = "\<lparr>nm_now = 0, nm_view = Map.empty, nm_endpoints = [], nm_names = []\<rparr>"
  obtain c ns' where t: "translate ?env 0 sample_raw sample_names = (Some (Connection c), ns')"
    by (fastforce simp: translate_def sample_raw_def outcome_of_def KIND_CONNECT_def split: prod.splits)
  have n: "names_ok sample_names" by (simp add: names_ok_def sample_names_def)
  have "fresh_names ?env sample_names = sample_names"
    by (simp add: fresh_names_def names_stale_def sample_names_def RESCAN_INTERVAL_def)
  then have "map_of (by_cgroup (fresh_names ?env sample_names)) (cgroup_id sample_raw) = Some ''aaaaaaaaaaaa''"
    by (simp add: sample_names_def sample_raw_def)
  with caller_named_by_cgroup [OF n t] t show ?thesis by auto
qed

text \<open>
  A state of the probes that is set between the greeting of a host and its joining is never told to it, which then waits
  for facts that do not come.
\<close>

theorem probe_status_missed_while_greeting:
  "let h = probe_hub_new; h' = probe_join c [ph_status h] (set_probe_status ok False det h)
   in ph_status h' = Status False det \<and> snd (last (ph_clients h')) = [Status False ''sondes en cours de chargement'']"
  by (simp add: probe_hub_new_def probe_join_def set_probe_status_def probe_broadcast_def Let_def)

end
