(* ===== verification/Project_Scan.thy ===== *)
theory Project_Scan
  imports Windows_Paths Service_Types "HOL-Library.AList" "HOL-Library.Multiset" "HOL-Library.Product_Lexorder" "HOL-Library.List_Lexorder" "HOL-Library.Char_ord"
begin

text \<open>
  The search for Docker projects on the disks of the computer (\<open>crates/solon-service/src/scan.rs\<close>): the records of
  the file table of an NTFS volume, the paths of their directories, the walk through likely directories elsewhere, and the
  report.  \<open>lower\<close> is the Unicode lower case of the Rust library, on UTF-8 bytes.
\<close>

section \<open>What counts\<close>

definition MARKERS :: "(string \<times> string) list" where
  "MARKERS =
     [(''compose.yaml'', ''compose''), (''compose.yml'', ''compose''), (''docker-compose.yml'', ''compose''),
      (''docker-compose.yaml'', ''compose''), (''dockerfile'', ''dockerfile''), (''devcontainer.json'', ''devcontainer'')]"

definition MARKER_LENGTHS :: "nat list" where "MARKER_LENGTHS = [10, 11, 12, 17, 18, 19]"

definition EXCLUDED_SEGMENTS :: "string list" where
  "EXCLUDED_SEGMENTS =
     [''node_modules'', ''.git'', ''appdata'', ''program files'', ''program files (x86)'', ''programdata'', ''windows'',
      ''$recycle.bin'', ''vendor'', ''site-packages'', ''.cargo'', ''.rustup'', ''.npm'', ''.nuget'', ''.cache'',
      ''.vscode-server'', ''recovery'', ''system volume information'']"

definition excluded :: "(string \<Rightarrow> string) \<Rightarrow> string \<Rightarrow> bool" where
  "excluded lower path \<longleftrightarrow> list_ex (\<lambda>seg. seg \<in> set EXCLUDED_SEGMENTS) (drop 1 (split_on (CHR 0x5C) (lower path)))"

definition marker_kind :: "(string \<Rightarrow> string) \<Rightarrow> string \<Rightarrow> string option" where
  "marker_kind lower name = map_option snd (find (\<lambda>(m, k). m = lower name) MARKERS)"

text \<open>The order of the list stands for the order in which the hash map is walked.\<close>

type_synonym found = "(string \<times> found_project) list"

definition push_new :: "'a \<Rightarrow> 'a list \<Rightarrow> 'a list" where
  "push_new x xs = (if x \<in> set xs then xs else xs @ [x])"

definition record_project :: "(string \<Rightarrow> string) \<Rightarrow> (string \<Rightarrow> bool) \<Rightarrow> string \<Rightarrow> string \<Rightarrow> string \<Rightarrow> found \<Rightarrow> found" where
  "record_project lower exists dir kind fname out =
     (if excluded lower dir then out
      else let e = (case map_of out (lower dir) of
                      Some e \<Rightarrow> e
                    | None \<Rightarrow> \<lparr>fp_dir = dir, fp_kinds = [], fp_files = [], git = exists (join_path dir ''.git'')\<rparr>)
           in AList.update (lower dir) (e\<lparr>fp_kinds := push_new kind (fp_kinds e), fp_files := push_new fname (fp_files e)\<rparr>) out)"

section \<open>Drives\<close>

text \<open>The letters of \<open>GetLogicalDrives\<close> whose type is fixed, and whether the volume is NTFS.\<close>

definition fixed_drives :: "32 word \<Rightarrow> (string \<Rightarrow> nat) \<Rightarrow> (string \<Rightarrow> string option) \<Rightarrow> (char \<times> bool) list" where
  "fixed_drives drive_mask drive_type filesystem =
     concat (map (\<lambda>i. let letter = char_of (65 + i); root = [letter, CHR '':'', CHR 0x5C]
                      in if \<not> bit drive_mask i then [] else if drive_type root \<noteq> 3 then [] else [(letter, filesystem root = Some ''NTFS'')])
                 [0..<26])"

section \<open>Records of the file table\<close>

fun le_value :: "bytes \<Rightarrow> nat" where
  "le_value [] = 0"
| "le_value (c # cs) = code c + 256 * le_value cs"

definition le_at :: "nat \<Rightarrow> nat \<Rightarrow> bytes \<Rightarrow> nat" where
  "le_at off n b = le_value (take n (drop off b))"

text \<open>The fields of a \<open>USN_RECORD_V2\<close>, whose size is 64.\<close>

record usn_record =
  record_length :: nat
  file_reference :: nat
  parent_reference :: nat
  file_attributes :: nat
  name_length :: nat
  name_offset :: nat

definition USN_RECORD_SIZE :: nat where "USN_RECORD_SIZE = 64"

definition usn_at :: "nat \<Rightarrow> bytes \<Rightarrow> usn_record" where
  "usn_at off b =
     \<lparr>record_length = le_at off 4 b, file_reference = le_at (off + 8) 8 b, parent_reference = le_at (off + 16) 8 b,
      file_attributes = le_at (off + 52) 4 b, name_length = le_at (off + 56) 2 b, name_offset = le_at (off + 58) 2 b\<rparr>"

text \<open>UTF-16 with a replacement for what is not paired, as UTF-8.\<close>

fun decode_utf16 :: "nat list \<Rightarrow> nat list" where
  "decode_utf16 [] = []"
| "decode_utf16 [u] = [if 0xD800 \<le> u \<and> u < 0xE000 then 0xFFFD else u]"
| "decode_utf16 (u # v # us) =
     (if u < 0xD800 \<or> 0xE000 \<le> u then u # decode_utf16 (v # us)
      else if u < 0xDC00 \<and> 0xDC00 \<le> v \<and> v < 0xE000
        then (0x10000 + (u - 0xD800) * 0x400 + (v - 0xDC00)) # decode_utf16 us
      else 0xFFFD # decode_utf16 (v # us))"

definition utf8_of :: "nat \<Rightarrow> bytes" where
  "utf8_of n =
     (if n < 0x80 then [char_of n]
      else if n < 0x800 then [char_of (0xC0 + n div 64), char_of (0x80 + n mod 64)]
      else if n < 0x10000 then [char_of (0xE0 + n div 4096), char_of (0x80 + n div 64 mod 64), char_of (0x80 + n mod 64)]
      else [char_of (0xF0 + n div 262144), char_of (0x80 + n div 4096 mod 64), char_of (0x80 + n div 64 mod 64), char_of (0x80 + n mod 64)])"

definition name_at :: "nat \<Rightarrow> nat \<Rightarrow> bytes \<Rightarrow> string" where
  "name_at off n b = concat (map utf8_of (decode_utf16 (map (\<lambda>i. le_at (off + 2 * i) 2 b) [0..<n])))"

text \<open>Directories by number with their parent and name, and marker files with their directory and kind.\<close>

record file_table =
  dirs :: "nat \<rightharpoonup> nat \<times> string"
  hits :: "(nat \<times> string \<times> string) list"

definition is_directory :: "usn_record \<Rightarrow> bool" where
  "is_directory r \<longleftrightarrow> odd (file_attributes r div 16)"

definition note_record :: "(string \<Rightarrow> string) \<Rightarrow> usn_record \<Rightarrow> string \<Rightarrow> file_table \<Rightarrow> file_table" where
  "note_record lower r name t =
     (if is_directory r then t\<lparr>dirs := (dirs t)(file_reference r \<mapsto> (parent_reference r, name))\<rparr>
      else (case marker_kind lower name of
              Some kind \<Rightarrow> t\<lparr>hits := hits t @ [(parent_reference r, name, kind)]\<rparr>
            | None \<Rightarrow> t))"

function read_records :: "(string \<Rightarrow> string) \<Rightarrow> bytes \<Rightarrow> nat \<Rightarrow> nat \<Rightarrow> file_table \<Rightarrow> file_table" where
  "read_records lower b returned off t =
     (if off + USN_RECORD_SIZE \<le> returned then
        let r = usn_at off b; len = record_length r
        in if len = 0 \<or> off + len > returned then t
           else let name_off = off + name_offset r; name_len = name_length r div 2
                in if name_off + 2 * name_len > off + len then t
                   else read_records lower b returned (off + len)
                          (if is_directory r \<or> name_len \<in> set MARKER_LENGTHS
                           then note_record lower r (name_at name_off name_len b) t else t)
      else t)"
  by pat_completeness auto
termination
  by (relation "measure (\<lambda>(lower, b, returned, off, t). returned - off)") (auto simp: USN_RECORD_SIZE_def)

declare read_records.simps [simp del]

text \<open>
  The answers of \<open>FSCTL_ENUM_USN_DATA\<close>, one for each request: the number of bytes put into the buffer with the whole
  buffer, or the error.  With no answer left the deadline passes.
\<close>

datatype enum_answer = EnumData nat bytes | EnumEof | EnumFailed string

fun enumerate_table :: "(string \<Rightarrow> string) \<Rightarrow> char \<Rightarrow> enum_answer list \<Rightarrow> file_table \<Rightarrow> string + file_table" where
  "enumerate_table lower letter [] t = Inl (''volume '' @ [letter] @ '': : d'' @ [CHR 0xC3, CHR 0xA9] @ ''lai d'' @ [CHR 0xC3, CHR 0xA9] @ ''pass'' @ [CHR 0xC3, CHR 0xA9])"
| "enumerate_table lower letter (EnumEof # as) t = Inr t"
| "enumerate_table lower letter (EnumFailed e # as) t = Inl (''enum'' @ [CHR 0xC3, CHR 0xA9] @ ''ration MFT '' @ [letter] @ '': : '' @ e)"
| "enumerate_table lower letter (EnumData returned b # as) t =
     (if returned < 8 then Inr t else enumerate_table lower letter as (read_records lower b returned 8 t))"

section \<open>Paths\<close>

type_synonym path_cache = "nat \<rightharpoonup> string option"

definition drive_text :: "char \<Rightarrow> string" where "drive_text letter = [letter, CHR '':'']"

text \<open>The path of a directory, with the paths worked out before; \<open>n\<close> is what is left of 65 levels.\<close>

fun path_of :: "char \<Rightarrow> (nat \<rightharpoonup> nat \<times> string) \<Rightarrow> nat \<Rightarrow> nat \<Rightarrow> path_cache \<Rightarrow> string option \<times> path_cache" where
  "path_of letter ds n frn cache =
     (case cache frn of
        Some p \<Rightarrow> (p, cache)
      | None \<Rightarrow>
          (case n of
             0 \<Rightarrow> (None, cache)
           | Suc n' \<Rightarrow>
               (case ds frn of
                  None \<Rightarrow> ((if frn mod 2 ^ 48 = 5 then Some (drive_text letter) else None), cache)
                | Some (par, name) \<Rightarrow>
                    if par = frn \<or> name = ''.'' then (Some (drive_text letter), cache(frn \<mapsto> Some (drive_text letter)))
                    else (case path_of letter ds n' par cache of
                            (None, cache) \<Rightarrow> (None, cache)
                          | (Some base, cache) \<Rightarrow>
                              (Some (base @ [CHR 0x5C] @ name), cache(frn \<mapsto> Some (base @ [CHR 0x5C] @ name)))))))"

declare path_of.simps [simp del]

text \<open>The parent of a path with a separator: the root of a drive keeps its separator.\<close>

definition win_parent :: "string \<Rightarrow> string" where
  "win_parent p =
     (let t = rev (dropWhile is_sep (dropWhile (\<lambda>c. \<not> is_sep c) (rev p)))
      in if length t = 2 \<and> has_drive t then t @ [CHR 0x5C] else t)"

definition DEVCONTAINER :: string where "DEVCONTAINER = [CHR 0x5C] @ ''.devcontainer''"

text \<open>The directory of the project a marker in \<open>dir\<close> stands for.\<close>

definition project_dir :: "(string \<Rightarrow> string) \<Rightarrow> string \<Rightarrow> string \<Rightarrow> string option" where
  "project_dir lower kind dir =
     (if kind = ''devcontainer'' then (if suffix DEVCONTAINER (lower dir) then Some (win_parent dir) else None) else Some dir)"

definition record_hit ::
  "(string \<Rightarrow> string) \<Rightarrow> (string \<Rightarrow> bool) \<Rightarrow> char \<Rightarrow> (nat \<rightharpoonup> nat \<times> string) \<Rightarrow> nat \<times> string \<times> string \<Rightarrow> path_cache \<times> found \<Rightarrow> path_cache \<times> found" where
  "record_hit lower exists letter ds hit s =
     (case hit of (par, fname, kind) \<Rightarrow>
        (case path_of letter ds 65 par (fst s) of
           (None, cache) \<Rightarrow> (cache, snd s)
         | (Some dir, cache) \<Rightarrow>
             (case project_dir lower kind dir of
                None \<Rightarrow> (cache, snd s)
              | Some dir \<Rightarrow> (cache, if length dir \<le> 2 then snd s else record_project lower exists dir kind fname (snd s)))))"

definition scan_ntfs ::
  "(string \<Rightarrow> string) \<Rightarrow> (string \<Rightarrow> bool) \<Rightarrow> char \<Rightarrow> string + enum_answer list \<Rightarrow> found \<Rightarrow> (string + unit) \<times> found" where
  "scan_ntfs lower exists letter volume out =
     (case volume of
        Inl e \<Rightarrow> (Inl (''ouverture du volume '' @ [letter] @ '': : '' @ e), out)
      | Inr answers \<Rightarrow>
          (case enumerate_table lower letter answers \<lparr>dirs = Map.empty, hits = []\<rparr> of
             Inl e \<Rightarrow> (Inl e, out)
           | Inr t \<Rightarrow> (Inr (), snd (fold (record_hit lower exists letter (dirs t)) (hits t) (Map.empty, out)))))"

section \<open>The walk through directories\<close>

text \<open>An entry of a directory: its name and what it is; \<open>None\<close> when its type cannot be had.\<close>

datatype entry_kind = PlainEntry | DirEntry | LinkEntry

record walk_env =
  wk_entries :: "string \<Rightarrow> (string \<times> entry_kind option) list option"
  wk_late :: "string \<Rightarrow> bool"
  wk_exists :: "string \<Rightarrow> bool"
  wk_is_dir :: "string \<Rightarrow> bool"

definition visit ::
  "(string \<Rightarrow> string) \<Rightarrow> walk_env \<Rightarrow> (string \<Rightarrow> found \<Rightarrow> found) \<Rightarrow> string \<Rightarrow> string \<times> entry_kind option \<Rightarrow> found \<Rightarrow> found" where
  "visit lower env deeper dir entry out =
     (case entry of (name, kind) \<Rightarrow>
        (case kind of
           None \<Rightarrow> out
         | Some DirEntry \<Rightarrow> if lower name \<in> set EXCLUDED_SEGMENTS then out else deeper (join_path dir name) out
         | Some _ \<Rightarrow>
             (case marker_kind lower name of
                None \<Rightarrow> out
              | Some mk \<Rightarrow>
                  (case project_dir lower mk dir of
                     None \<Rightarrow> out
                   | Some proj \<Rightarrow> record_project lower (wk_exists env) proj mk name out))))"

text \<open>\<open>n\<close> is what is left of 7 levels.\<close>

fun walk :: "(string \<Rightarrow> string) \<Rightarrow> walk_env \<Rightarrow> nat \<Rightarrow> string \<Rightarrow> found \<Rightarrow> found" where
  "walk lower env 0 dir out = out"
| "walk lower env (Suc n) dir out =
     (if wk_late env dir then out
      else (case wk_entries env dir of
              None \<Rightarrow> out
            | Some es \<Rightarrow> fold (visit lower env (walk lower env n) dir) es out))"

definition HOME_DIRS :: "string list" where
  "HOME_DIRS =
     [''Desktop'', ''Documents'', ''Downloads'', ''Projects'', ''projects'', ''dev'', ''src'', ''code'', ''repos'', ''git'', ''work'', ''source'']"

definition likely_roots :: "(string \<Rightarrow> string) \<Rightarrow> walk_env \<Rightarrow> char \<Rightarrow> string list" where
  "likely_roots lower env letter =
     (let drive = [letter, CHR '':'', CHR 0x5C]
      in if letter = CHR ''C'' then
           (case wk_entries env (join_path drive ''Users'') of
              None \<Rightarrow> []
            | Some users \<Rightarrow>
                concat (map (\<lambda>(u, k). if lower u \<in> {''public'', ''default'', ''default user'', ''all users''} then []
                                      else filter (wk_is_dir env) (map (join_path (join_path (join_path drive ''Users'') u)) HOME_DIRS)) users))
         else [drive])"

section \<open>The report\<close>

record scan_report =
  sr_projects :: "found_project list"
  sr_drives :: "string list"
  sr_notes :: "string list"

text \<open>A drive: its letter, whether it is NTFS, its volume, and whether the deadline has passed behind it.\<close>

record scan_drive =
  sd_letter :: char
  sd_ntfs :: bool
  sd_volume :: "string + enum_answer list"
  sd_late :: bool

definition scan_drive_step ::
  "(string \<Rightarrow> string) \<Rightarrow> walk_env \<Rightarrow> scan_drive \<Rightarrow> found \<times> string list \<Rightarrow> found \<times> string list" where
  "scan_drive_step lower env d s =
     (let (result, out) = (if sd_ntfs d then scan_ntfs lower (wk_exists env) (sd_letter d) (sd_volume d) (fst s)
                           else (Inl ([sd_letter d] @ '': n'' @ [CHR 0x27] @ ''est pas NTFS : parcours des dossiers probables''), fst s))
      in case result of
           Inr _ \<Rightarrow> (out, snd s)
         | Inl e \<Rightarrow> (fold (\<lambda>root. walk lower env 7 root) (likely_roots lower env (sd_letter d)) out, snd s @ [e]))"

fun scan_drives ::
  "(string \<Rightarrow> string) \<Rightarrow> walk_env \<Rightarrow> scan_drive list \<Rightarrow> found \<times> string list \<Rightarrow> string list \<Rightarrow> found \<times> string list \<times> string list" where
  "scan_drives lower env [] s ds = (fst s, snd s, ds)"
| "scan_drives lower env (d # rest) s ds =
     (let (out, ns) = scan_drive_step lower env d s; ds = ds @ [drive_text (sd_letter d)]
      in if sd_late d then (out, ns @ [''d'' @ [CHR 0xC3, CHR 0xA9] @ ''lai atteint : r'' @ [CHR 0xC3, CHR 0xA9] @ ''sultats partiels''], ds)
         else scan_drives lower env rest (out, ns) ds)"

definition project_rank :: "(string \<Rightarrow> string) \<Rightarrow> found_project \<Rightarrow> nat \<times> string" where
  "project_rank lower p = ((if ''compose'' \<in> set (fp_kinds p) then 0 else 1), lower (fp_dir p))"

definition scan_projects :: "(string \<Rightarrow> string) \<Rightarrow> walk_env \<Rightarrow> scan_drive list \<Rightarrow> scan_report" where
  "scan_projects lower env ds =
     (case scan_drives lower env ds ([], []) [] of
        (out, ns, drs) \<Rightarrow> \<lparr>sr_projects = sort_key (project_rank lower) (map snd out), sr_drives = drs, sr_notes = ns\<rparr>)"

section \<open>Only what was returned is read\<close>

lemma le_at_cong: "take k b = take k b' \<Longrightarrow> off + n \<le> k \<Longrightarrow> le_at off n b = le_at off n b'"
proof -
  assume e: "take k b = take k b'" and k: "off + n \<le> k"
  have "take n (drop off x) = take n (drop off (take k x))" for x :: bytes using k by (simp add: drop_take)
  with e show ?thesis unfolding le_at_def by metis
qed

lemma usn_at_cong: "take k b = take k b' \<Longrightarrow> off + USN_RECORD_SIZE \<le> k \<Longrightarrow> usn_at off b = usn_at off b'"
  unfolding usn_at_def USN_RECORD_SIZE_def by (auto intro!: le_at_cong [of k])

lemma name_at_cong: "take k b = take k b' \<Longrightarrow> off + 2 * n \<le> k \<Longrightarrow> name_at off n b = name_at off n b'"
proof -
  assume "take k b = take k b'" "off + 2 * n \<le> k"
  then have "map (\<lambda>i. le_at (off + 2 * i) 2 b) [0..<n] = map (\<lambda>i. le_at (off + 2 * i) 2 b') [0..<n]"
    by (intro map_cong refl le_at_cong [of k]) auto
  then show ?thesis unfolding name_at_def by (simp only:)
qed

lemma read_records_within:
  "take returned b = take returned b' \<Longrightarrow> read_records lower b returned off t = read_records lower b' returned off t"
proof (induction lower b returned off t rule: read_records.induct)
  case (1 lower b returned off t)
  let ?r = "usn_at off b"
  show ?case
  proof (cases "off + USN_RECORD_SIZE \<le> returned")
    case True
    then have r: "usn_at off b' = ?r" using usn_at_cong [OF "1.prems" True] by simp
    show ?thesis
    proof (cases "record_length ?r = 0 \<or> off + record_length ?r > returned
        \<or> off + name_offset ?r + 2 * (name_length ?r div 2) > off + record_length ?r")
      case stop: True
      have "read_records lower x returned off t = t" if "usn_at off x = ?r" for x
        using that True stop by (subst read_records.simps) (auto simp: Let_def)
      with r show ?thesis by simp
    next
      case False
      then have "name_at (off + name_offset ?r) (name_length ?r div 2) b = name_at (off + name_offset ?r) (name_length ?r div 2) b'"
        by (intro name_at_cong [OF "1.prems"]) linarith
      with 1 True False r show ?thesis
        by (simp add: read_records.simps [of lower b returned off] read_records.simps [of lower b' returned off] Let_def)
    qed
  qed (simp add: read_records.simps [of lower b] read_records.simps [of lower b'])
qed

section \<open>Paths without the cache\<close>

fun plain_path :: "char \<Rightarrow> (nat \<rightharpoonup> nat \<times> string) \<Rightarrow> nat \<Rightarrow> nat \<Rightarrow> string option" where
  "plain_path letter ds 0 frn = None"
| "plain_path letter ds (Suc n) frn =
     (case ds frn of
        None \<Rightarrow> if frn mod 2 ^ 48 = 5 then Some (drive_text letter) else None
      | Some (par, name) \<Rightarrow>
          if par = frn \<or> name = ''.'' then Some (drive_text letter)
          else map_option (\<lambda>base. base @ [CHR 0x5C] @ name) (plain_path letter ds n par))"

declare plain_path.simps(2) [simp del]

lemma plain_path_step:
  "ds frn = Some (par, name) \<Longrightarrow> par \<noteq> frn \<Longrightarrow> name \<noteq> ''.'' \<Longrightarrow>
     plain_path letter ds (Suc n) frn = map_option (\<lambda>base. base @ [CHR 0x5C] @ name) (plain_path letter ds n par)"
  by (simp add: plain_path.simps)

lemma plain_path_Suc: "plain_path letter ds n frn = Some p \<Longrightarrow> plain_path letter ds (Suc n) frn = Some p"
proof (induction n arbitrary: frn p)
  case (Suc n)
  consider "ds frn = None" | par name where "ds frn = Some (par, name)" "par = frn \<or> name = ''.''"
    | par name where "ds frn = Some (par, name)" "par \<noteq> frn" "name \<noteq> ''.''" by (cases "ds frn") auto
  then show ?case
  proof cases
    case 3
    with Suc.prems obtain b where "plain_path letter ds n par = Some b" "p = b @ [CHR 0x5C] @ name"
      by (auto simp: plain_path_step [of ds, OF 3])
    with Suc.IH [of par b] show ?thesis by (simp add: plain_path_step [of ds, OF 3])
  qed (use Suc.prems in \<open>auto simp: plain_path.simps\<close>)
qed simp

lemma plain_path_mono: "plain_path letter ds n frn = Some p \<Longrightarrow> n \<le> m \<Longrightarrow> plain_path letter ds m frn = Some p"
  by (induction m) (auto simp: le_Suc_eq plain_path_Suc)

definition cache_ok :: "char \<Rightarrow> (nat \<rightharpoonup> nat \<times> string) \<Rightarrow> path_cache \<Rightarrow> bool" where
  "cache_ok letter ds cache \<longleftrightarrow> (\<forall>k x. cache k = Some x \<longrightarrow> (\<exists>m p. x = Some p \<and> plain_path letter ds m k = Some p))"

lemma path_of_sound:
  "cache_ok letter ds cache \<Longrightarrow> path_of letter ds n frn cache = (res, cache') \<Longrightarrow>
     cache_ok letter ds cache' \<and> (\<forall>p. res = Some p \<longrightarrow> (\<exists>m. plain_path letter ds m frn = Some p))
     \<and> (\<forall>p. plain_path letter ds n frn = Some p \<longrightarrow> res = Some p)"
proof (induction n arbitrary: frn res cache')
  case 0
  then show ?case by (auto simp: path_of.simps [of letter ds 0] cache_ok_def split: option.splits)
next
  case (Suc n)
  show ?case
  proof (cases "cache frn")
    case (Some x)
    with Suc.prems(1) obtain m p where m: "x = Some p" "plain_path letter ds m frn = Some p" unfolding cache_ok_def by blast
    moreover from m have "plain_path letter ds (Suc n) frn = Some q \<Longrightarrow> q = p" for q
      using plain_path_mono [of letter ds m frn p "max m (Suc n)"] plain_path_mono [of letter ds "Suc n" frn q "max m (Suc n)"] by simp
    ultimately show ?thesis using Some Suc.prems by (auto simp: path_of.simps [of letter ds "Suc n"])
  next
    case None
    show ?thesis
    proof (cases "ds frn")
      case none: None
      have "\<exists>m. plain_path letter ds m frn = Some (drive_text letter)" if "frn mod 2 ^ 48 = 5"
        by (rule exI [of _ "Suc 0"]) (use none that in \<open>simp add: plain_path.simps\<close>)
      then show ?thesis using None none Suc.prems
        by (auto simp: path_of.simps [of letter ds "Suc n"] plain_path.simps(2) [of letter ds n] split: if_splits)
    next
      case (Some e)
      obtain par name where e: "e = (par, name)" by fastforce
      show ?thesis
      proof (cases "par = frn \<or> name = ''.''")
        case True
        have p: "plain_path letter ds (Suc m) frn = Some (drive_text letter)" for m
          using Some e True by (auto simp: plain_path.simps)
        have r: "res = Some (drive_text letter)" "cache' = cache(frn \<mapsto> Some (drive_text letter))"
          using True None Some e Suc.prems(2) by (auto simp: path_of.simps [of letter ds "Suc n"])
        moreover have "cache_ok letter ds cache'" unfolding r(2) cache_ok_def
          using p [of 0] Suc.prems(1) by (auto simp: cache_ok_def)
        ultimately show ?thesis using p by (metis option.inject)
      next
        case False
        obtain r1 c1 where r1: "path_of letter ds n par cache = (r1, c1)" by fastforce
        note ih = Suc.IH [OF Suc.prems(1) r1]
        have up: "plain_path letter ds (Suc m) frn = map_option (\<lambda>base. base @ [CHR 0x5C] @ name) (plain_path letter ds m par)" for m
          using Some e False by (simp add: plain_path_step)
        show ?thesis
        proof (cases r1)
          case none: None
          with ih have "plain_path letter ds n par = None" by (cases "plain_path letter ds n par") auto
          with none None Some e False r1 Suc.prems ih up show ?thesis by (auto simp: path_of.simps [of letter ds "Suc n"])
        next
          case base: (Some b)
          with ih obtain m where m: "plain_path letter ds m par = Some b" by auto
          with up have m': "plain_path letter ds (Suc m) frn = Some (b @ [CHR 0x5C] @ name)" by simp
          have "res = Some (b @ [CHR 0x5C] @ name)" "cache' = c1(frn \<mapsto> Some (b @ [CHR 0x5C] @ name))"
            using base None Some e False r1 Suc.prems(2) by (auto simp: path_of.simps [of letter ds "Suc n"])
          moreover have "cache_ok letter ds (c1(frn \<mapsto> Some (b @ [CHR 0x5C] @ name)))" using ih m' by (auto simp: cache_ok_def)
          moreover have "q = b @ [CHR 0x5C] @ name" if "plain_path letter ds (Suc n) frn = Some q" for q
            using that up [of n] ih base by auto
          ultimately show ?thesis using m' by blast
        qed
      qed
    qed
  qed
qed

text \<open>The hits worked through without a cache.\<close>

definition plain_hit ::
  "(string \<Rightarrow> string) \<Rightarrow> (string \<Rightarrow> bool) \<Rightarrow> char \<Rightarrow> (nat \<rightharpoonup> nat \<times> string) \<Rightarrow> nat \<times> string \<times> string \<Rightarrow> found \<Rightarrow> found" where
  "plain_hit lower exists letter ds hit out =
     (case hit of (par, fname, kind) \<Rightarrow>
        (case Option.bind (plain_path letter ds 65 par) (project_dir lower kind) of
           Some dir \<Rightarrow> if length dir \<le> 2 then out else record_project lower exists dir kind fname out
         | None \<Rightarrow> out))"

definition shallow :: "char \<Rightarrow> (nat \<rightharpoonup> nat \<times> string) \<Rightarrow> bool" where
  "shallow letter ds \<longleftrightarrow> (\<forall>m k p. plain_path letter ds m k = Some p \<longrightarrow> plain_path letter ds 65 k = Some p)"

lemma path_of_shallow:
  assumes "shallow letter ds" "cache_ok letter ds cache"
  shows "fst (path_of letter ds 65 k cache) = plain_path letter ds 65 k \<and> cache_ok letter ds (snd (path_of letter ds 65 k cache))"
proof -
  obtain res c' where r: "path_of letter ds 65 k cache = (res, c')" by fastforce
  from path_of_sound [OF assms(2) r] assms(1) have "res = plain_path letter ds 65 k" "cache_ok letter ds c'"
    by (cases res; cases "plain_path letter ds 65 k"; auto simp: shallow_def)+
  with r show ?thesis by simp
qed

lemma record_hit_plain:
  assumes "shallow letter ds" "cache_ok letter ds (fst s)"
  shows "cache_ok letter ds (fst (record_hit lower exists letter ds hit s))
    \<and> snd (record_hit lower exists letter ds hit s) = plain_hit lower exists letter ds hit (snd s)"
proof -
  obtain par fname kind where h: "hit = (par, fname, kind)" by (metis prod_cases3)
  obtain res c' where r: "path_of letter ds 65 par (fst s) = (res, c')" by fastforce
  with path_of_shallow [OF assms, of par] have "plain_path letter ds 65 par = res" "cache_ok letter ds c'" by simp_all
  with h r show ?thesis by (auto simp: record_hit_def plain_hit_def split: option.split)
qed

lemma fold_record_hit:
  "shallow letter ds \<Longrightarrow> cache_ok letter ds (fst s) \<Longrightarrow>
   snd (fold (record_hit lower exists letter ds) hs s) = fold (plain_hit lower exists letter ds) hs (snd s)"
proof (induction hs arbitrary: s)
  case (Cons h hs)
  with record_hit_plain [of letter ds s lower exists h] show ?case by simp
qed simp

section \<open>What is found\<close>

definition project_ok :: "(string \<Rightarrow> string) \<Rightarrow> string \<times> found_project \<Rightarrow> bool" where
  "project_ok lower x \<longleftrightarrow>
     (case x of (k, p) \<Rightarrow> k = lower (fp_dir p) \<and> \<not> excluded lower (fp_dir p) \<and> fp_kinds p \<noteq> [] \<and> distinct (fp_kinds p)
        \<and> fp_files p \<noteq> [] \<and> distinct (fp_files p))"

definition found_ok :: "(string \<Rightarrow> string) \<Rightarrow> found \<Rightarrow> bool" where
  "found_ok lower out \<longleftrightarrow> distinct (map fst out) \<and> (\<forall>x \<in> set out. project_ok lower x)"

lemma push_new_props [simp]: "distinct (push_new x xs) \<longleftrightarrow> distinct xs" "push_new x xs \<noteq> []"
  by (auto simp: push_new_def)

lemma set_update_subset: "set (AList.update k v xs) \<subseteq> insert (k, v) (set xs)"
  by (induction xs) auto

lemma found_ok_record:
  assumes "found_ok lower out"
  shows "found_ok lower (record_project lower exists dir kind fname out)"
proof (cases "excluded lower dir")
  case False
  define e where "e = (case map_of out (lower dir) of
      Some e \<Rightarrow> e | None \<Rightarrow> \<lparr>fp_dir = dir, fp_kinds = [], fp_files = [], git = exists (join_path dir ''.git'')\<rparr>)"
  let ?v = "e\<lparr>fp_kinds := push_new kind (fp_kinds e), fp_files := push_new fname (fp_files e)\<rparr>"
  have e: "lower (fp_dir e) = lower dir \<and> distinct (fp_kinds e) \<and> distinct (fp_files e)"
    using assms(1) by (auto simp: e_def found_ok_def project_ok_def split: option.split dest!: map_of_SomeD)
  then have "project_ok lower (lower dir, ?v)" using False by (simp add: project_ok_def excluded_def)
  moreover have "record_project lower exists dir kind fname out = AList.update (lower dir) ?v out"
    using False by (simp add: record_project_def e_def Let_def)
  ultimately show ?thesis
    using assms(1) set_update_subset [of "lower dir" ?v out] by (auto simp: found_ok_def distinct_update)
qed (simp add: record_project_def assms(1))

lemma fold_keeps: "(\<And>x s. P s \<Longrightarrow> P (f x s)) \<Longrightarrow> P s \<Longrightarrow> P (fold f xs s)"
  by (induction xs arbitrary: s) auto

lemma found_ok_visit:
  "(\<And>d out. found_ok lower out \<Longrightarrow> found_ok lower (deeper d out)) \<Longrightarrow> found_ok lower out \<Longrightarrow>
   found_ok lower (visit lower env deeper dir entry out)"
  by (auto simp: visit_def found_ok_record split: prod.split option.split entry_kind.split)

lemma found_ok_walk: "found_ok lower out \<Longrightarrow> found_ok lower (walk lower env n dir out)"
proof (induction n arbitrary: dir out)
  case (Suc n)
  then have "found_ok lower (fold (visit lower env (walk lower env n) dir) es out)" for es
    by (intro fold_keeps [where P = "found_ok lower"] found_ok_visit)
  with Suc.prems show ?case by (auto split: option.split)
qed simp

lemma found_ok_hits: "found_ok lower (snd s) \<Longrightarrow> found_ok lower (snd (fold (record_hit lower exists letter ds) hs s))"
  by (rule fold_keeps [where P = "\<lambda>s. found_ok lower (snd s)"])
    (auto simp: record_hit_def found_ok_record split: prod.split option.split)

lemma found_ok_ntfs: "found_ok lower out \<Longrightarrow> found_ok lower (snd (scan_ntfs lower exists letter volume out))"
  by (auto simp: scan_ntfs_def found_ok_hits split: sum.split)

lemma found_ok_drive: "found_ok lower (fst s) \<Longrightarrow> found_ok lower (fst (scan_drive_step lower env d s))"
proof -
  assume s: "found_ok lower (fst s)"
  obtain result out where r: "(if sd_ntfs d then scan_ntfs lower (wk_exists env) (sd_letter d) (sd_volume d) (fst s)
      else (Inl ([sd_letter d] @ '': n'' @ [CHR 0x27] @ ''est pas NTFS : parcours des dossiers probables''), fst s)) = (result, out)"
    by fastforce
  have "found_ok lower out"
    using r s found_ok_ntfs [of lower "fst s" "wk_exists env" "sd_letter d" "sd_volume d"] by (auto split: if_splits)
  then have "found_ok lower (fold (\<lambda>root. walk lower env 7 root) roots out)" for roots
    by (intro fold_keeps [where P = "found_ok lower"] found_ok_walk)
  with \<open>found_ok lower out\<close> show ?thesis unfolding scan_drive_step_def r by (simp split: sum.split)
qed

lemma found_ok_drives: "found_ok lower (fst s) \<Longrightarrow> found_ok lower (fst (scan_drives lower env drs s ds))"
proof (induction drs arbitrary: s ds)
  case (Cons d drs)
  obtain out ns where r: "scan_drive_step lower env d s = (out, ns)" by fastforce
  with found_ok_drive [OF Cons.prems, of env d] have "found_ok lower out" by simp
  with Cons.IH [of "(out, ns)"] r show ?case by (simp add: Let_def)
qed simp

lemma distinct_ranks: "found_ok lower out \<Longrightarrow> distinct (map (\<lambda>p. lower (fp_dir p)) (map snd out))"
proof -
  assume o: "found_ok lower out"
  then have "map (\<lambda>p. lower (fp_dir p)) (map snd out) = map fst out" by (auto simp: found_ok_def project_ok_def)
  with o show ?thesis unfolding found_ok_def by (simp only:)
qed

section \<open>Properties\<close>

text \<open>
  C36. A report is well formed whatever the disks hold: each directory appears once, regardless of case; none lies in
  a dependency, system or cache directory; each has a kind and a file, none twice; and the order is strict, projects
  with a compose file first and then by name, so it does not depend on the order of the hash map.
\<close>

theorem scan_report_well_formed:
  "let ps = sr_projects (scan_projects lower env ds)
   in sorted_wrt (\<lambda>p q. project_rank lower p < project_rank lower q) ps \<and> distinct (map (\<lambda>p. lower (fp_dir p)) ps)
      \<and> list_all (\<lambda>p. \<not> excluded lower (fp_dir p) \<and> fp_kinds p \<noteq> [] \<and> distinct (fp_kinds p)
           \<and> fp_files p \<noteq> [] \<and> distinct (fp_files p)) ps"
proof -
  obtain out ns drs where s: "scan_drives lower env ds ([], []) [] = (out, ns, drs)" by (metis prod_cases3)
  have o: "found_ok lower out" using found_ok_drives [of lower "([], [])" env ds "[]"] s by (simp add: found_ok_def)
  define ps where "ps = sort_key (project_rank lower) (map snd out)"
  have m: "mset (map (\<lambda>p. lower (fp_dir p)) ps) = mset (map (\<lambda>p. lower (fp_dir p)) (map snd out))"
    by (simp only: mset_map ps_def mset_sort)
  then have d: "distinct (map (\<lambda>p. lower (fp_dir p)) ps)" using distinct_ranks [OF o] mset_eq_imp_distinct_iff by blast
  have "distinct (map (project_rank lower) ps)" using d by (auto simp: distinct_map inj_on_def project_rank_def)
  moreover have "sorted (map (project_rank lower) ps)" by (simp add: ps_def)
  ultimately have "sorted_wrt (<) (map (project_rank lower) ps)" by (simp add: strict_sorted_iff)
  then have "sorted_wrt (\<lambda>p q. project_rank lower p < project_rank lower q) ps" by (simp add: sorted_wrt_map)
  moreover have "list_all (\<lambda>p. \<not> excluded lower (fp_dir p) \<and> fp_kinds p \<noteq> [] \<and> distinct (fp_kinds p)
           \<and> fp_files p \<noteq> [] \<and> distinct (fp_files p)) ps"
    using o by (auto simp: ps_def list_all_iff found_ok_def project_ok_def)
  ultimately show ?thesis using d s by (simp add: scan_projects_def ps_def)
qed

text \<open>
  C37. A volume read from its file table gives what the hits give with every path worked out anew from the table: the
  paths kept from earlier hits change nothing, as long as no directory lies deeper than the limit of 65 levels.
\<close>

theorem ntfs_scan_exact:
  assumes "enumerate_table lower letter answers \<lparr>dirs = Map.empty, hits = []\<rparr> = Inr t" "shallow letter (dirs t)"
  shows "scan_ntfs lower exists letter (Inr answers) out
    = (Inr (), fold (plain_hit lower exists letter (dirs t)) (hits t) out)"
  using assms fold_record_hit [OF assms(2), of "(Map.empty, out)"] by (simp add: scan_ntfs_def cache_ok_def)

text \<open>
  Of each answer only the bytes that were returned are read, although the buffer is used again and keeps older ones.
\<close>

theorem table_read_within_answer:
  "take returned b = take returned b' \<Longrightarrow>
   enumerate_table lower letter (EnumData returned b # as) t = enumerate_table lower letter (EnumData returned b' # as) t"
  using read_records_within [of returned b b' lower 8 t] by simp

text \<open>
  A \<open>.devcontainer\<close> directory at the root of a drive makes the root a project, which is meant never to happen: the root is
  written with its separator there.
\<close>

theorem drive_root_recorded:
  "project_dir to_ascii_lowercase ''devcontainer'' (''C:'' @ DEVCONTAINER) = Some [CHR ''C'', CHR '':'', CHR 0x5C]"
  by (simp add: project_dir_def DEVCONTAINER_def win_parent_def to_ascii_lowercase_def ascii_lower_def is_sep_def
      has_drive_def is_ascii_alphabetic_def char_of_def bit_0 suffix_def)

text \<open>A directory \<open>pq\<close> in the root and a \<open>Dockerfile\<close> in it, as the file table has them.\<close>

definition sample_buffer :: bytes where
  "sample_buffer = map char_of ([9, 0, 0, 0, 0, 0, 0, 0,
     64, 0, 0, 0, 2, 0, 0, 0, 7, 0, 0, 0, 0, 0, 0, 0, 5, 0, 0, 0, 0, 0, 0, 0, 0, 0, 0, 0, 0, 0, 0, 0, 0, 0, 0, 0, 0, 0, 0, 0,
     0, 0, 0, 0, 0, 0, 0, 0, 0, 0, 0, 0, 16, 0, 0, 0, 4, 0, 60, 0, 112, 0, 113, 0,
     80, 0, 0, 0, 2, 0, 0, 0, 8, 0, 0, 0, 0, 0, 0, 0, 7, 0, 0, 0, 0, 0, 0, 0, 0, 0, 0, 0, 0, 0, 0, 0, 0, 0, 0, 0, 0, 0, 0, 0,
     0, 0, 0, 0, 0, 0, 0, 0, 0, 0, 0, 0, 32, 0, 0, 0, 20, 0, 60, 0,
     68, 0, 111, 0, 99, 0, 107, 0, 101, 0, 114, 0, 102, 0, 105, 0, 108, 0, 101, 0] :: nat list)"

lemma sample_records:
  "usn_at 8 sample_buffer = \<lparr>record_length = 64, file_reference = 7, parent_reference = 5, file_attributes = 16, name_length = 4, name_offset = 60\<rparr>"
  "usn_at 72 sample_buffer = \<lparr>record_length = 80, file_reference = 8, parent_reference = 7, file_attributes = 32, name_length = 20, name_offset = 60\<rparr>"
  by (simp_all add: sample_buffer_def usn_at_def le_at_def)

lemma sample_names:
  "name_at 68 2 sample_buffer = ''pq''" "name_at 132 10 sample_buffer = ''Dockerfile''"
  by (simp_all add: sample_buffer_def name_at_def le_at_def upt_rec utf8_of_def char_of_def bit_0)

lemma sample_table:
  "enumerate_table to_ascii_lowercase (CHR ''D'') [EnumData 152 sample_buffer, EnumEof] \<lparr>dirs = Map.empty, hits = []\<rparr>
     = Inr \<lparr>dirs = [7 \<mapsto> (5, ''pq'')], hits = [(7, ''Dockerfile'', ''dockerfile'')]\<rparr>"
  by (simp add: read_records.simps sample_records sample_names USN_RECORD_SIZE_def Let_def is_directory_def note_record_def
      marker_kind_def MARKERS_def MARKER_LENGTHS_def to_ascii_lowercase_def ascii_lower_def char_of_def bit_0)

lemma sample_shallow: "shallow letter [7 \<mapsto> (5, ''pq'')]"
  unfolding shallow_def
proof (intro allI impI)
  let ?p = "plain_path letter [7 \<mapsto> (5, ''pq'')]"
  have s: "?p (Suc (Suc m)) k = ?p (Suc (Suc 0)) k" for m k by (simp add: plain_path.simps)
  fix m k p assume p: "?p m k = Some p"
  show "?p 65 k = Some p"
  proof (cases "m \<le> 65")
    case True
    with p show ?thesis by (rule plain_path_mono)
  next
    case False
    then have "m = Suc (Suc (m - 2))" "65 = Suc (Suc 63)" by simp_all
    with p s [of "m - 2" k] s [of 63 k] show ?thesis by metis
  qed
qed

theorem ntfs_scan_exact_witness:
  "scan_ntfs to_ascii_lowercase (\<lambda>_. False) (CHR ''D'') (Inr [EnumData 152 sample_buffer, EnumEof]) []
     = (Inr (), [(''d:'' @ [CHR 0x5C] @ ''pq'', \<lparr>fp_dir = ''D:'' @ [CHR 0x5C] @ ''pq'', fp_kinds = [''dockerfile''], fp_files = [''Dockerfile''], git = False\<rparr>)])"
proof -
  have p: "plain_path (CHR ''D'') [7 \<mapsto> (5, ''pq'')] 65 7 = Some (''D:'' @ [CHR 0x5C] @ ''pq'')"
    by (rule plain_path_mono [of _ _ "Suc (Suc 0)"]) (simp_all add: plain_path.simps drive_text_def)
  show ?thesis
    unfolding ntfs_scan_exact [OF sample_table, simplified file_table.simps, OF sample_shallow]
    by (simp add: plain_hit_def p project_dir_def record_project_def excluded_def EXCLUDED_SEGMENTS_def push_new_def
        to_ascii_lowercase_def ascii_lower_def char_of_def bit_0)
qed

end
