(* ===== verification/Control_Pipe.thy ===== *)
theory Control_Pipe
  imports Engine Project_Scan
begin

text \<open>
  The control pipe between application and service (\<open>crates/solon-service/src/ipc.rs\<close>): one connection with its two
  subscriptions, and what every command does to the engine, the settings and the hub of observed exchanges.
\<close>

section \<open>Answers\<close>

datatype ipc_value =
    VersionValue string
  | ExecValue exec_result
  | ShareValue share_info
  | SharesValue "host_share list"
  | ScanValue scan_report
  | MetricsValue machine_metrics
  | StatusValue engine_snapshot
  | PrereqValue prereq_report
  | SettingsValue solon_settings
  | AppliedOnNextStart
  | NullValue

text \<open>A line written to the connection: an answer, an event of the engine, or an observed fact.\<close>

datatype pipe_line = Answer nat "string + ipc_value" | EventLine service_event | FactLine trace_event

text \<open>
  What the commands ask outside: the agent's answers, Windows at a start and at a stop, the search, the settings with
  their JSON form, and how an error is shown.
\<close>

record pipe_env =
  pe_version :: string
  pe_exec :: "agent_command \<Rightarrow> solon_error + exec_result"
  pe_metrics :: "solon_error + machine_metrics"
  pe_share :: share_env
  pe_scan :: "string + scan_report"
  pe_prereq :: prereq_report
  pe_host :: host_env
  pe_stop :: stop_env
  pe_read_settings :: "string \<Rightarrow> solon_settings option"
  pe_print_settings :: "solon_settings \<Rightarrow> string option"
  pe_processors :: "nat option"
  pe_settings_path :: string
  pe_show_error :: "solon_error \<Rightarrow> string"
  pe_show_save :: "save_error \<Rightarrow> string"

text \<open>
  The service as the connection sees it.  \<open>svc_started\<close> and \<open>svc_restarted\<close> are the tasks that will start and restart the
  engine, \<open>svc_quit\<close> whether the process was asked to end; \<open>None\<close> where that is not allowed.
\<close>

record pipe_service =
  svc_engine :: engine
  svc_disk :: disk
  svc_started :: nat
  svc_restarted :: nat
  svc_quit :: "bool option"

record connection =
  cn_lines :: "pipe_line list"
  cn_subscribed :: bool
  cn_trace_subscribed :: bool

definition connection_new :: connection where
  "connection_new = \<lparr>cn_lines = [], cn_subscribed = False, cn_trace_subscribed = False\<rparr>"

definition shown :: "pipe_env \<Rightarrow> ('a \<Rightarrow> ipc_value) \<Rightarrow> solon_error + 'a \<Rightarrow> string + ipc_value" where
  "shown env f r = (case r of Inr x \<Rightarrow> Inr (f x) | Inl e \<Rightarrow> Inl (pe_show_error env e))"

definition with_engine :: "pipe_env \<Rightarrow> ('a \<Rightarrow> ipc_value) \<Rightarrow> engine \<times> (solon_error + 'a) \<Rightarrow> pipe_service \<Rightarrow> pipe_service \<times> (string + ipc_value)" where
  "with_engine env f r s = (s\<lparr>svc_engine := fst r\<rparr>, shown env f (snd r))"

definition change_settings :: "pipe_env \<Rightarrow> solon_settings \<Rightarrow> pipe_service \<Rightarrow> pipe_service \<times> (string + ipc_value)" where
  "change_settings env stg s =
     (case save_settings (pe_print_settings env) (pe_settings_path env) stg of
        Inl e \<Rightarrow> (s, Inl (pe_show_save env e))
      | Inr ops \<Rightarrow>
          let e = apply_sleep_settings stg (svc_engine s)
          in (s\<lparr>svc_disk := run_ops ops (svc_disk s),
                svc_engine := e\<lparr>eng_trace := set_body_projects (trace_bodies stg) (eng_trace e)\<rparr>\<rparr>,
              Inr AppliedOnNextStart))"

text \<open>The commands that do not subscribe.\<close>

fun serve_request :: "pipe_env \<Rightarrow> service_command \<Rightarrow> pipe_service \<Rightarrow> pipe_service \<times> (string + ipc_value)" where
  "serve_request env CmdVersion s = (s, Inr (VersionValue (pe_version env)))"
| "serve_request env (CmdExec cmd t) s =
     with_engine env ExecValue (engine_exec (pe_exec env) cmd (case t of Some n \<Rightarrow> n | None \<Rightarrow> 120) (svc_engine s)) s"
| "serve_request env (CmdEnsureShare hp) s = with_engine env ShareValue (ensure_share (pe_share env) hp (svc_engine s)) s"
| "serve_request env CmdListShares s = (s, Inr (SharesValue (list_shares (svc_engine s))))"
| "serve_request env CmdScanProjects s = (s, case pe_scan env of Inr r \<Rightarrow> Inr (ScanValue r) | Inl e \<Rightarrow> Inl e)"
| "serve_request env CmdMetrics s = with_engine env MetricsValue (engine_metrics (pe_metrics env) (svc_engine s)) s"
| "serve_request env CmdQuit s =
     (case svc_quit s of
        Some _ \<Rightarrow> (s\<lparr>svc_quit := Some True\<rparr>, Inr NullValue)
      | None \<Rightarrow> (s, Inl (''quit n'' @ [CHR 0x27] @ ''est disponible qu'' @ [CHR 0x27] @ ''en mode console'')))"
| "serve_request env CmdStatus s = (s, Inr (StatusValue (eng_snapshot (svc_engine s))))"
| "serve_request env CmdPrerequisites s = (s, Inr (PrereqValue (pe_prereq env)))"
| "serve_request env CmdStart s = (s\<lparr>svc_started := Suc (svc_started s)\<rparr>, Inr NullValue)"
| "serve_request env (CmdStop force) s = (s\<lparr>svc_engine := stop (pe_stop env) force (svc_engine s)\<rparr>, Inr NullValue)"
| "serve_request env CmdRestart s = (s\<lparr>svc_restarted := Suc (svc_restarted s)\<rparr>, Inr NullValue)"
| "serve_request env CmdGetSettings s =
     (s, Inr (SettingsValue (load_settings (pe_read_settings env) (pe_processors env) (pe_settings_path env) (svc_disk s))))"
| "serve_request env (CmdSetSettings stg) s = change_settings env stg s"
| "serve_request env (CmdTraceClear proj) s =
     (s\<lparr>svc_engine := (svc_engine s)\<lparr>eng_trace := hub_clear proj (eng_trace (svc_engine s))\<rparr>\<rparr>, Inr NullValue)"
| "serve_request env CmdSubscribe s = (s, Inr NullValue)"
| "serve_request env CmdTraceSubscribe s = (s, Inr NullValue)"

text \<open>
  A subscription has a task of its own, which writes the present state or the history first; its first lines are
  listed where it starts.
\<close>

definition subscribe :: "service_command \<Rightarrow> pipe_service \<Rightarrow> connection \<Rightarrow> connection" where
  "subscribe cmd s c =
     (case cmd of
        CmdSubscribe \<Rightarrow>
          if cn_subscribed c then c
          else c\<lparr>cn_subscribed := True, cn_lines := cn_lines c @ [EventLine (EvState (eng_snapshot (svc_engine s)))]\<rparr>
      | CmdTraceSubscribe \<Rightarrow>
          if cn_trace_subscribed c then c
          else c\<lparr>cn_trace_subscribed := True, cn_lines := cn_lines c @ map FactLine (backlog (eng_trace (svc_engine s)))\<rparr>
      | _ \<Rightarrow> c)"

definition answer_request :: "pipe_env \<Rightarrow> ipc_request \<Rightarrow> pipe_service \<times> connection \<Rightarrow> pipe_service \<times> connection" where
  "answer_request env req sc =
     (case serve_request env (ipc_command req) (fst sc) of
        (s, v) \<Rightarrow> let c = subscribe (ipc_command req) (fst sc) (snd sc)
                  in (s, c\<lparr>cn_lines := cn_lines c @ [Answer (ipc_id req) v]\<rparr>))"

section \<open>Lines\<close>

definition MAX_LINE :: nat where "MAX_LINE = 2 ^ 20"

text \<open>
  A line of at most a mebibyte: the end of the connection, a line with its end, or one that is refused because it is too
  long, cut off or no UTF-8.
\<close>

datatype pipe_read = PipeEnd | PipeLine bytes bytes | PipeRefused

definition read_pipe_line :: "bytes \<Rightarrow> pipe_read" where
  "read_pipe_line b =
     (if b = [] then PipeEnd
      else case find_byte (\<lambda>c. c = LF) (take MAX_LINE b) of
             Some i \<Rightarrow> if utf8_valid (take (Suc i) b) then PipeLine (take (Suc i) b) (drop (Suc i) b) else PipeRefused
           | None \<Rightarrow> PipeRefused)"

lemma read_pipe_line_shorter: "read_pipe_line b = PipeLine l r \<Longrightarrow> length r < length b"
  by (auto simp: read_pipe_line_def split: if_splits option.splits)

text \<open>
  How a connection ends: \<open>True\<close> at its end, when the tasks of the subscriptions are stopped, \<open>False\<close> on a line that is
  refused.
\<close>

function handle_pipe :: "(string \<Rightarrow> string + ipc_request) \<Rightarrow> pipe_env \<Rightarrow> bytes \<Rightarrow> pipe_service \<times> connection \<Rightarrow> (pipe_service \<times> connection) \<times> bool" where
  "handle_pipe parse env b sc =
     (case read_pipe_line b of
        PipeEnd \<Rightarrow> ((fst sc, (snd sc)\<lparr>cn_subscribed := False, cn_trace_subscribed := False\<rparr>), True)
      | PipeRefused \<Rightarrow> (sc, False)
      | PipeLine l r \<Rightarrow>
          (case parse (trim l) of
             Inl e \<Rightarrow> handle_pipe parse env r
                 (fst sc, (snd sc)\<lparr>cn_lines := cn_lines (snd sc) @ [Answer 0 (Inl (''requ'' @ [CHR 0xC3, CHR 0xAA] @ ''te illisible : '' @ e))]\<rparr>)
           | Inr req \<Rightarrow> handle_pipe parse env r (answer_request env req sc)))"
  by pat_completeness auto
termination
  by (relation "measure (\<lambda>(parse, env, b, sc). length b)") (auto dest: read_pipe_line_shorter)

declare handle_pipe.simps [simp del]

section \<open>Properties\<close>

fun answer_ids :: "pipe_line list \<Rightarrow> nat list" where
  "answer_ids [] = []"
| "answer_ids (Answer i v # ls) = i # answer_ids ls"
| "answer_ids (EventLine e # ls) = answer_ids ls"
| "answer_ids (FactLine f # ls) = answer_ids ls"

definition request_id :: "(string \<Rightarrow> string + ipc_request) \<Rightarrow> bytes \<Rightarrow> nat" where
  "request_id parse l = (case parse (trim l) of Inr req \<Rightarrow> ipc_id req | Inl _ \<Rightarrow> 0)"

definition pipe_line_ok :: "bytes \<Rightarrow> bool" where
  "pipe_line_ok l \<longleftrightarrow> l \<noteq> [] \<and> last l = LF \<and> LF \<notin> set (butlast l) \<and> length l \<le> MAX_LINE \<and> utf8_valid l"

lemma answer_ids_append [simp]: "answer_ids (a @ b) = answer_ids a @ answer_ids b"
  by (induction a rule: answer_ids.induct) auto

lemma answer_ids_facts [simp]: "answer_ids (map FactLine fs) = []"
  by (induction fs) auto

lemma read_pipe_line_ok:
  assumes "pipe_line_ok l"
  shows "read_pipe_line (l @ rest) = PipeLine l rest"
proof -
  let ?i = "length l - 1"
  have l: "l = butlast l @ [LF]" "length l = Suc ?i"
    using assms append_butlast_last_id [of l] by (auto simp: pipe_line_ok_def)
  have no: "\<forall>j < ?i. l ! j \<noteq> LF"
    using assms by (auto simp: pipe_line_ok_def in_set_conv_nth nth_butlast)
  have "(l @ rest) ! ?i = LF" by (subst l(1)) (simp add: nth_append)
  moreover have "?i < MAX_LINE" "?i < length l" using assms l(2) unfolding pipe_line_ok_def by linarith+
  ultimately have "find_byte (\<lambda>c. c = LF) (take MAX_LINE (l @ rest)) = Some ?i"
    unfolding find_byte_Some using no by (simp add: nth_append)
  then show ?thesis using assms l(2) by (simp add: read_pipe_line_def pipe_line_ok_def)
qed

lemma subscribe_answers: "answer_ids (cn_lines (subscribe cmd s c)) = answer_ids (cn_lines c)"
  by (cases cmd) (auto simp: subscribe_def)

lemma answer_request_ids:
  "answer_ids (cn_lines (snd (answer_request env req sc))) = answer_ids (cn_lines (snd sc)) @ [ipc_id req]"
  by (simp add: answer_request_def Let_def subscribe_answers split: prod.split)

text \<open>
  C38. Every line of a connection is answered exactly once, in order and with the number of its request, an unreadable
  one with 0, whatever the commands do; the events and facts of subscriptions between the answers change nothing of that, and
  at the end no subscription is left.
\<close>

theorem pipe_requests_answered:
  assumes "list_all pipe_line_ok ls"
  shows "let r = handle_pipe parse env (concat ls) (s, c)
    in snd r \<and> answer_ids (cn_lines (snd (fst r))) = answer_ids (cn_lines c) @ map (request_id parse) ls
       \<and> \<not> cn_subscribed (snd (fst r)) \<and> \<not> cn_trace_subscribed (snd (fst r))"
  using assms
proof (induction ls arbitrary: s c)
  case Nil
  then show ?case by (simp add: handle_pipe.simps [of parse env "[]"] read_pipe_line_def)
next
  case (Cons l ls)
  then have r: "read_pipe_line (l @ concat ls) = PipeLine l (concat ls)" using read_pipe_line_ok by simp
  note h = handle_pipe.simps [of parse env "l @ concat ls" "(s, c)", unfolded r, simplified]
  show ?case
  proof (cases "parse (trim l)")
    case (Inl e)
    with Cons.IH Cons.prems show ?thesis by (simp add: h request_id_def Let_def)
  next
    case (Inr req)
    obtain s' c' where a: "answer_request env req (s, c) = (s', c')" by fastforce
    with answer_request_ids [of env req "(s, c)"] have "answer_ids (cn_lines c') = answer_ids (cn_lines c) @ [ipc_id req]" by simp
    with Cons.IH [of s' c'] Cons.prems Inr a show ?thesis by (simp add: h request_id_def Let_def)
  qed
qed

theorem pipe_requests_answered_witness:
  "\<forall>env s. answer_ids (cn_lines (snd (fst (handle_pipe (\<lambda>_. Inr \<lparr>ipc_id = 7, ipc_command = CmdSubscribe\<rparr>) env (concat [[LF], [LF]]) (s, connection_new)))))
     = [7, 7]"
proof (intro allI)
  fix env s
  have "list_all pipe_line_ok [[LF], [LF]]" by (simp add: pipe_line_ok_def MAX_LINE_def utf8_valid_ascii LF_def)
  from pipe_requests_answered [OF this, of "\<lambda>_. Inr \<lparr>ipc_id = 7, ipc_command = CmdSubscribe\<rparr>" env s connection_new]
  show "answer_ids (cn_lines (snd (fst (handle_pipe (\<lambda>_. Inr \<lparr>ipc_id = 7, ipc_command = CmdSubscribe\<rparr>) env (concat [[LF], [LF]]) (s, connection_new)))))
     = [7, 7]"
    by (simp add: Let_def connection_new_def request_id_def)
qed

text \<open>Settings that were accepted are what is read afterwards, and refused ones change nothing.\<close>

theorem settings_set_then_read:
  assumes "\<And>t. pe_print_settings env stg = Some t \<Longrightarrow> pe_read_settings env t = Some stg"
    and "serve_request env (CmdSetSettings stg) s = (s', r)"
  shows "(case r of
            Inr _ \<Rightarrow> serve_request env CmdGetSettings s' = (s', Inr (SettingsValue stg))
          | Inl _ \<Rightarrow> s' = s)"
proof (cases "save_settings (pe_print_settings env) (pe_settings_path env) stg")
  case (Inl e)
  with assms(2) show ?thesis by (auto simp: change_settings_def)
next
  case (Inr ops)
  then obtain t where t: "pe_print_settings env stg = Some t"
      "ops = [WriteFile (with_extension (pe_settings_path env) ''json.tmp'') t,
              RenameFile (with_extension (pe_settings_path env) ''json.tmp'') (pe_settings_path env)]"
    by (auto simp: save_settings_def Let_def split: sum.splits option.splits if_splits)
  with Inr assms show ?thesis by (auto simp: change_settings_def Let_def load_settings_def run_ops_def)
qed

text \<open>
  A line that is too long ends the reading, but the task of a subscription still runs and keeps the connection open.
\<close>

theorem refused_line_keeps_subscription:
  assumes "read_pipe_line b = PipeRefused"
  shows "handle_pipe parse env b (s, c) = ((s, c), False)"
  using assms by (simp add: handle_pipe.simps [of parse env b])

end
