(* ===== verification/Docker_Shim.thy ===== *)
theory Docker_Shim
  imports Settings_Store Json_Values
begin

text \<open>
  The \<open>docker.exe\<close> of Solon (\<open>crates/solon-docker-shim/src/main.rs\<close>): whether the user chose an engine, the list of
  plugin directories in the configuration of the Docker command line, and what is run.
\<close>

section \<open>The choice of an engine\<close>

definition SOLON_HOST :: string where "SOLON_HOST = ''npipe:////./pipe/solon''"

definition WITH_VALUE :: "string list" where
  "WITH_VALUE = [''--config'', ''-c'', ''--context'', ''-H'', ''--host'', ''-l'', ''--log-level'', ''--tlscacert'', ''--tlscert'', ''--tlskey'']"

fun targets_engine_explicitly :: "string list \<Rightarrow> bool" where
  "targets_engine_explicitly [] = False"
| "targets_engine_explicitly (a # args) =
     (if \<not> prefix ''-'' a then False
      else if a = ''-H'' \<or> a = ''--host'' \<or> prefix ''--host='' a then True
      else if a = ''-c'' \<or> a = ''--context'' then (case args of [] \<Rightarrow> [] | v # _ \<Rightarrow> v) \<noteq> ''default''
      else if prefix ''--context='' a then drop (length ''--context='') a \<noteq> ''default''
      else if a \<in> set WITH_VALUE then targets_engine_explicitly (drop 1 args)
      else targets_engine_explicitly args)"

section \<open>Plugin directories\<close>

text \<open>The names of a path behind its drive or share, without empty ones and \<open>.\<close>.\<close>

definition split_seps :: "string \<Rightarrow> string list" where
  "split_seps p = split_on (CHR 0x5C) (map (\<lambda>c. if is_sep c then CHR 0x5C else c) p)"

definition path_names :: "string \<Rightarrow> string list" where
  "path_names p =
     (let names = filter (\<lambda>n. n \<noteq> [] \<and> n \<noteq> ''.'') (split_seps (if has_drive p then drop 2 p else p))
      in if length p \<ge> 2 \<and> is_sep (p ! 0) \<and> is_sep (p ! 1) then drop 2 names else names)"

definition is_solon_install :: "string \<Rightarrow> bool" where
  "is_solon_install name \<longleftrightarrow>
     eq_ignore_ascii_case name ''solon'' \<or> suffix ''.solon'' (to_ascii_lowercase (hd (split_on (CHR ''_'') name)))"

definition is_solon_plugin_dir :: "string \<Rightarrow> bool" where
  "is_solon_plugin_dir p \<longleftrightarrow>
     (case rev (path_names p) of
        plugins # bin # install # _ \<Rightarrow>
          eq_ignore_ascii_case plugins ''cli-plugins'' \<and> eq_ignore_ascii_case bin ''bin'' \<and> is_solon_install install
      | _ \<Rightarrow> False)"

text \<open>Whether an entry of the list stays: only texts that name a stale directory of Solon go.\<close>

definition keep_entry :: "(string \<Rightarrow> bool) \<Rightarrow> string \<Rightarrow> json \<Rightarrow> bool" where
  "keep_entry is_file wanted j =
     (case j of
        JString dir \<Rightarrow>
          eq_ignore_ascii_case dir wanted \<or> \<not> is_solon_plugin_dir dir \<or> is_file (join_path dir ''docker-compose.exe'')
      | _ \<Rightarrow> True)"

definition names_dir :: "string \<Rightarrow> json \<Rightarrow> bool" where
  "names_dir wanted j = (case j of JString dir \<Rightarrow> eq_ignore_ascii_case dir wanted | _ \<Rightarrow> False)"

definition update_plugin_dir_list :: "(string \<Rightarrow> bool) \<Rightarrow> string \<Rightarrow> json list \<Rightarrow> json list" where
  "update_plugin_dir_list is_file wanted js =
     (let js = filter (keep_entry is_file wanted) js
      in if list_ex (names_dir wanted) js then js else js @ [JString wanted])"

section \<open>The configuration file\<close>

record shim_env =
  sh_docker_config :: "string option"
  sh_userprofile :: "string option"
  sh_is_file :: "string \<Rightarrow> bool"
  sh_from_str :: "string \<Rightarrow> json option"
  sh_pretty :: "json \<Rightarrow> string option"
  sh_made_dirs :: bool
  sh_written :: bool
  sh_renamed :: bool
  sh_pid :: nat

definition config_dir :: "shim_env \<Rightarrow> string option" where
  "config_dir env =
     (case sh_docker_config env of
        Some d \<Rightarrow> Some d
      | None \<Rightarrow> map_option (\<lambda>h. join_path h ''.docker'') (sh_userprofile env))"

definition EXTRA_DIRS :: string where "EXTRA_DIRS = ''cliPluginsExtraDirs''"

definition config_root :: "shim_env \<Rightarrow> string option \<Rightarrow> json" where
  "config_root env original = (case Option.bind original (sh_from_str env) of Some j \<Rightarrow> j | None \<Rightarrow> JObject [])"

text \<open>The new configuration, unless it or the list in it has an unexpected form.\<close>

definition with_plugin_dir :: "(string \<Rightarrow> bool) \<Rightarrow> string \<Rightarrow> json \<Rightarrow> json option" where
  "with_plugin_dir is_file wanted root =
     (case root of
        JObject kvs \<Rightarrow>
          let kvs = (if map_of kvs EXTRA_DIRS = None then kvs @ [(EXTRA_DIRS, JArray [])] else kvs)
          in (case map_of kvs EXTRA_DIRS of
                Some (JArray js) \<Rightarrow> Some (obj_set EXTRA_DIRS (JArray (update_plugin_dir_list is_file wanted js)) (JObject kvs))
              | _ \<Rightarrow> None)
      | _ \<Rightarrow> None)"

definition ensure_plugin_dir :: "shim_env \<Rightarrow> string \<Rightarrow> disk \<Rightarrow> disk" where
  "ensure_plugin_dir env plugins_dir d =
     (case config_dir env of
        None \<Rightarrow> d
      | Some dir \<Rightarrow>
          let path = join_path dir ''config.json''; original = d path
          in (case with_plugin_dir (sh_is_file env) plugins_dir (config_root env original) of
                None \<Rightarrow> d
              | Some root \<Rightarrow>
                  if \<not> sh_made_dirs env then d
                  else (case sh_pretty env root of
                          None \<Rightarrow> d
                        | Some text \<Rightarrow>
                            if original = Some text then d
                            else let tmp = with_extension path (''json.'' @ dec_of_nat (sh_pid env) @ ''.tmp'')
                                 in if \<not> sh_written env then d
                                    else let d = run_op (WriteFile tmp text) d
                                         in if sh_renamed env then run_op (RenameFile tmp path) d else d(tmp := None))))"

section \<open>The command\<close>

record shim_world =
  sw_exe_dir :: "string + string"
  sw_has_cli :: bool
  sw_docker_host :: "string option"
  sw_docker_context :: "string option"
  sw_status :: "string + int option"

text \<open>The command that is run: its arguments, and the engine it is told; then the exit code.\<close>

definition context_is_default :: "shim_world \<Rightarrow> bool" where
  "context_is_default w = (case sw_docker_context w of Some c \<Rightarrow> c = ''default'' | None \<Rightarrow> True)"

definition chosen_host :: "shim_world \<Rightarrow> string list \<Rightarrow> string option" where
  "chosen_host w args =
     (if \<not> targets_engine_explicitly args \<and> sw_docker_host w = None \<and> context_is_default w then Some SOLON_HOST
      else sw_docker_host w)"

definition shim_main :: "shim_env \<Rightarrow> shim_world \<Rightarrow> string list \<Rightarrow> disk \<Rightarrow> int \<times> disk" where
  "shim_main env w args d =
     (case sw_exe_dir w of
        Inl e \<Rightarrow> (127, d)
      | Inr dir \<Rightarrow>
          if \<not> sw_has_cli w then (127, d)
          else let d = ensure_plugin_dir env (join_path dir ''cli-plugins'') d
               in (case sw_status w of
                     Inr c \<Rightarrow> ((case c of Some n \<Rightarrow> n | None \<Rightarrow> 1), d)
                   | Inl e \<Rightarrow> (127, d)))"

section \<open>Lemmas\<close>

lemma keep_wanted [simp]: "keep_entry is_file wanted (JString wanted)" "names_dir wanted (JString wanted)"
  by (simp_all add: keep_entry_def names_dir_def eq_ignore_ascii_case_def)

lemma update_list_has: "list_ex (names_dir wanted) (update_plugin_dir_list is_file wanted js)"
  by (simp add: update_plugin_dir_list_def Let_def)

lemma update_list_idem:
  "update_plugin_dir_list is_file wanted (update_plugin_dir_list is_file wanted js) = update_plugin_dir_list is_file wanted js"
proof -
  let ?u = "update_plugin_dir_list is_file wanted js"
  have "filter (keep_entry is_file wanted) ?u = ?u" by (simp add: update_plugin_dir_list_def Let_def)
  then show ?thesis using update_list_has [of wanted is_file js]
    by (simp add: update_plugin_dir_list_def [of is_file wanted ?u] Let_def)
qed

definition extra_dirs :: "json \<Rightarrow> json list" where
  "extra_dirs root = (case obj_get EXTRA_DIRS root of Some (JArray js) \<Rightarrow> js | _ \<Rightarrow> [])"

lemma with_plugin_dir_shape:
  assumes "with_plugin_dir is_file wanted root = Some root'"
  shows "\<exists>kvs. root' = JObject kvs \<and> map_of kvs EXTRA_DIRS = Some (JArray (update_plugin_dir_list is_file wanted (extra_dirs root)))
    \<and> (\<forall>k. k \<noteq> EXTRA_DIRS \<longrightarrow> obj_get k root' = obj_get k root) \<and> with_plugin_dir is_file wanted root' = Some root'"
proof -
  from assms obtain kvs where r: "root = JObject kvs" by (cases root) (simp_all add: with_plugin_dir_def)
  define kvs' where "kvs' = (if map_of kvs EXTRA_DIRS = None then kvs @ [(EXTRA_DIRS, JArray [])] else kvs)"
  from assms r obtain js where js: "map_of kvs' EXTRA_DIRS = Some (JArray js)"
      "root' = obj_set EXTRA_DIRS (JArray (update_plugin_dir_list is_file wanted js)) (JObject kvs')"
    by (auto simp: with_plugin_dir_def Let_def kvs'_def split: option.splits json.splits)
  have e: "extra_dirs root = js" using js(1) r by (auto simp: extra_dirs_def kvs'_def map_add_def split: if_splits)
  have "obj_get k root' = obj_get k root" if "k \<noteq> EXTRA_DIRS" for k
  proof -
    have "obj_get k root' = map_of kvs' k" unfolding js(2) using that by (subst obj_get_set_other) auto
    also have "\<dots> = map_of kvs k" using that by (simp add: kvs'_def map_add_def split: option.split)
    finally show ?thesis by (simp add: r)
  qed
  moreover have g: "obj_get EXTRA_DIRS root' = Some (JArray (update_plugin_dir_list is_file wanted js))"
    unfolding js(2) by (rule obj_get_set_same) (simp add: js(1))
  moreover from g obtain kvs2 where k2: "root' = JObject kvs2" by (cases root') auto
  moreover have "with_plugin_dir is_file wanted root' = Some root'"
  proof -
    have "obj_set EXTRA_DIRS (JArray (update_plugin_dir_list is_file wanted js)) root' = root'"
      unfolding js(2) by (rule obj_set_set)
    with g k2 show ?thesis by (simp add: with_plugin_dir_def update_list_idem)
  qed
  ultimately show ?thesis using e by auto
qed

section \<open>Properties\<close>

text \<open>
  When the configuration can be read and written, it then names the plugin directory, keeps every other key, and
  drops from the list only stale directories of Solon; and running the command again writes nothing.
\<close>

theorem plugin_dir_installed:
  assumes codec: "\<And>j. \<exists>t. sh_pretty env j = Some t \<and> sh_from_str env t = Some j"
    and dir: "config_dir env = Some dir" and ok: "sh_made_dirs env" "sh_written env" "sh_renamed env"
    and root: "with_plugin_dir (sh_is_file env) wanted (config_root env (d (join_path dir ''config.json''))) = Some root'"
  shows "let path = join_path dir ''config.json''; old = config_root env (d path); d' = ensure_plugin_dir env wanted d;
             new = config_root env (d' path)
    in (\<forall>k. k \<noteq> EXTRA_DIRS \<longrightarrow> obj_get k new = obj_get k old)
       \<and> extra_dirs new = update_plugin_dir_list (sh_is_file env) wanted (extra_dirs old)
       \<and> list_ex (names_dir wanted) (extra_dirs new) \<and> ensure_plugin_dir env wanted d' = d'"
proof -
  let ?path = "join_path dir ''config.json''"
  obtain t where t: "sh_pretty env root' = Some t" "sh_from_str env t = Some root'" using codec by blast
  let ?d = "ensure_plugin_dir env wanted d"
  have d: "?d ?path = Some t"
    using dir ok root t by (auto simp: ensure_plugin_dir_def Let_def)
  then have new: "config_root env (?d ?path) = root'" by (simp add: config_root_def t(2))
  note w = with_plugin_dir_shape [OF root]
  then have "extra_dirs root' = update_plugin_dir_list (sh_is_file env) wanted (extra_dirs (config_root env (d ?path)))"
    by (auto simp: extra_dirs_def)
  moreover have again: "with_plugin_dir (sh_is_file env) wanted root' = Some root'" using w by blast
  moreover have "ensure_plugin_dir env wanted ?d = ?d"
    unfolding ensure_plugin_dir_def [of env wanted ?d] using dir d new again t(1) by (simp add: Let_def)
  moreover have "\<forall>k. k \<noteq> EXTRA_DIRS \<longrightarrow> obj_get k root' = obj_get k (config_root env (d ?path))" using w by blast
  ultimately show ?thesis using new by (simp add: Let_def update_list_has)
qed

text \<open>A configuration that is there and cannot be read as JSON is replaced, with all the user had in it.\<close>

theorem unreadable_config_replaced:
  assumes "config_dir env = Some dir" "sh_made_dirs env" "sh_written env" "sh_renamed env"
    and "d (join_path dir ''config.json'') = Some text" "sh_from_str env text = None"
    and "sh_pretty env (JObject [(EXTRA_DIRS, JArray [JString wanted])]) = Some text'" "text \<noteq> text'"
  shows "ensure_plugin_dir env wanted d (join_path dir ''config.json'') = Some text'"
  using assms
  by (auto simp: ensure_plugin_dir_def config_root_def with_plugin_dir_def update_plugin_dir_list_def Let_def)

text \<open>What follows the subcommand does not choose an engine.\<close>

theorem subcommand_ends_options:
  "\<not> prefix ''-'' cmd \<Longrightarrow> list_all (\<lambda>a. prefix ''-'' a \<and> a \<notin> set WITH_VALUE \<and> \<not> prefix ''--host='' a \<and> \<not> prefix ''--context='' a) opts \<Longrightarrow>
   \<not> targets_engine_explicitly (opts @ cmd # rest)"
  by (induction opts) (auto simp: WITH_VALUE_def)

end
