(* ===== verification/Vm_Hcs.thy ===== *)
theory Vm_Hcs
  imports Service_Types Json_Values "HOL-Library.Multiset" "HOL-Library.Product_Lexorder" "HOL-Library.List_Lexorder" "HOL-Library.Char_ord"
begin

unbundle bit_operations_syntax

text \<open>
  The machine as Windows is asked for it (\<open>crates/solon-vm-hcs\<close>): the configuration document (\<open>schema.rs\<close>), the
  classification of error codes (\<open>hresult.rs\<close>), and the operations on machines (\<open>lib.rs\<close>) over the calls of the Host
  Compute System, which are parameters.
\<close>

section \<open>The document\<close>

definition OWNER :: string where "OWNER = ''Solon''"

record schema_version = major :: nat minor :: nat

record linux_kernel_direct =
  kernel_file_path :: string
  init_rd_path :: "string option"
  kernel_cmd_line :: string

record memory_topology =
  size_in_mb :: nat
  allow_overcommit :: "bool option"
  enable_deferred_commit :: "bool option"
  enable_hot_hint :: "bool option"
  enable_cold_hint :: "bool option"
  enable_cold_discard_hint :: "bool option"

datatype attachment_type = VirtualDisk | Iso | PassThru
datatype caching_mode = Uncached | Cached | ReadOnlyCached

record attachment =
  at_kind :: attachment_type
  at_path :: string
  at_read_only :: bool
  at_caching_mode :: "caching_mode option"

record hv_socket_config =
  default_bind_sd :: "string option"
  default_connect_sd :: "string option"

definition READ_ONLY :: "32 word" where "READ_ONLY = 0x1"
definition LINUX_METADATA :: "32 word" where "LINUX_METADATA = 0x4"
definition CASE_SENSITIVE :: "32 word" where "CASE_SENSITIVE = 0x8"
definition RESTRICT_FILE_ACCESS :: "32 word" where "RESTRICT_FILE_ACCESS = 0x10"

record plan9_share =
  p9_name :: string
  p9_access_name :: string
  p9_path :: string
  p9_port :: nat
  p9_flags :: "32 word"

text \<open>A \<open>BTreeMap\<close> is its entries in the order of the keys.\<close>

definition btree_of :: "(string \<times> 'a) list \<Rightarrow> (string \<times> 'a) list" where
  "btree_of xs = sort_key fst xs"

record devices =
  dv_scsi :: "(string \<times> (string \<times> attachment) list) list option"
  dv_com_ports :: "(string \<times> string) list option"
  dv_hv_socket :: "hv_socket_config option"
  dv_plan9 :: "plan9_share list option"
  dv_network_adapters :: "(string \<times> network_adapter_config) list option"

record compute_document =
  cd_schema :: schema_version
  cd_owner :: string
  terminate_on_last_handle :: bool
  stop_on_reset :: bool
  cd_kernel :: "linux_kernel_direct option"
  cd_memory :: memory_topology
  cd_processors :: nat
  cd_devices :: devices

definition SDDL_SYSTEM_AND_ADMINS :: string where "SDDL_SYSTEM_AND_ADMINS = ''D:P(A;;FA;;;SY)(A;;FA;;;BA)''"

definition share_of_host :: "host_share \<Rightarrow> plan9_share" where
  "share_of_host sh =
     \<lparr>p9_name = share_name sh, p9_access_name = share_name sh, p9_path = share_host_path sh, p9_port = share_port sh,
      p9_flags = (if share_read_only sh then LINUX_METADATA OR READ_ONLY else LINUX_METADATA)\<rparr>"

definition attachments_of :: "disk_attachment list \<Rightarrow> (string \<times> attachment) list" where
  "attachments_of ds =
     btree_of (map (\<lambda>(lun, d). (dec_of_nat lun, \<lparr>at_kind = VirtualDisk, at_path = disk_path d, at_read_only = disk_read_only d, at_caching_mode = None\<rparr>))
       (enumerate 0 ds))"

definition devices_of :: "vm_config \<Rightarrow> devices" where
  "devices_of c =
     \<lparr>dv_scsi = (if disks c \<noteq> [] then Some [(''0'', attachments_of (disks c))] else None),
      dv_com_ports = map_option (\<lambda>p. [(''0'', p)]) (serial_pipe c),
      dv_hv_socket = Some \<lparr>default_bind_sd = Some SDDL_SYSTEM_AND_ADMINS, default_connect_sd = Some SDDL_SYSTEM_AND_ADMINS\<rparr>,
      dv_plan9 = Some (map share_of_host (shares c)),
      dv_network_adapters = map_option (\<lambda>nic. [(na_endpoint_id nic, nic)]) (network_adapter c)\<rparr>"

definition from_config :: "vm_config \<Rightarrow> compute_document" where
  "from_config c =
     \<lparr>cd_schema = \<lparr>major = 2, minor = 2\<rparr>, cd_owner = OWNER, terminate_on_last_handle = False, stop_on_reset = True,
      cd_kernel = Some \<lparr>kernel_file_path = vm_kernel c, init_rd_path = Some (vm_initrd c), kernel_cmd_line = cmdline c\<rparr>,
      cd_memory = \<lparr>size_in_mb = vm_memory_mb c, allow_overcommit = Some True, enable_deferred_commit = Some True,
                    enable_hot_hint = Some True, enable_cold_hint = Some True, enable_cold_discard_hint = Some True\<rparr>,
      cd_processors = vm_processors c, cd_devices = devices_of c\<rparr>"

section \<open>Its JSON form\<close>

text \<open>Fields in their order, those that are absent left out.\<close>

definition num :: "nat \<Rightarrow> json" where "num n = JNumber (dec_of_nat n)"

definition some_field :: "string \<Rightarrow> ('a \<Rightarrow> json) \<Rightarrow> 'a option \<Rightarrow> (string \<times> json) list" where
  "some_field k f v = (case v of Some x \<Rightarrow> [(k, f x)] | None \<Rightarrow> [])"

definition map_json :: "('a \<Rightarrow> json) \<Rightarrow> (string \<times> 'a) list \<Rightarrow> json" where
  "map_json f m = JObject (map (\<lambda>(k, v). (k, f v)) m)"

definition version_json :: "schema_version \<Rightarrow> json" where
  "version_json v = JObject [(''Major'', num (major v)), (''Minor'', num (minor v))]"

definition kernel_json :: "linux_kernel_direct \<Rightarrow> json" where
  "kernel_json k =
     JObject ([(''KernelFilePath'', JString (kernel_file_path k))] @ some_field ''InitRdPath'' JString (init_rd_path k)
       @ [(''KernelCmdLine'', JString (kernel_cmd_line k))])"

definition memory_json :: "memory_topology \<Rightarrow> json" where
  "memory_json m =
     JObject ([(''SizeInMB'', num (size_in_mb m))] @ some_field ''AllowOvercommit'' JBool (allow_overcommit m)
       @ some_field ''EnableDeferredCommit'' JBool (enable_deferred_commit m) @ some_field ''EnableHotHint'' JBool (enable_hot_hint m)
       @ some_field ''EnableColdHint'' JBool (enable_cold_hint m) @ some_field ''EnableColdDiscardHint'' JBool (enable_cold_discard_hint m))"

fun type_json :: "attachment_type \<Rightarrow> json" where
  "type_json VirtualDisk = JString ''VirtualDisk''"
| "type_json Iso = JString ''Iso''"
| "type_json PassThru = JString ''PassThru''"

fun caching_json :: "caching_mode \<Rightarrow> json" where
  "caching_json Uncached = JString ''Uncached''"
| "caching_json Cached = JString ''Cached''"
| "caching_json ReadOnlyCached = JString ''ReadOnlyCached''"

definition attachment_json :: "attachment \<Rightarrow> json" where
  "attachment_json a =
     JObject ([(''Type'', type_json (at_kind a)), (''Path'', JString (at_path a))]
       @ (if at_read_only a then [(''ReadOnly'', JBool True)] else []) @ some_field ''CachingMode'' caching_json (at_caching_mode a))"

definition scsi_json :: "(string \<times> attachment) list \<Rightarrow> json" where
  "scsi_json m = JObject [(''Attachments'', map_json attachment_json m)]"

definition com_port_json :: "string \<Rightarrow> json" where
  "com_port_json p = JObject [(''NamedPipe'', JString p)]"

definition hv_socket_json :: "hv_socket_config \<Rightarrow> json" where
  "hv_socket_json h =
     JObject [(''HvSocketConfig'',
       JObject (some_field ''DefaultBindSecurityDescriptor'' JString (default_bind_sd h)
         @ some_field ''DefaultConnectSecurityDescriptor'' JString (default_connect_sd h)))]"

definition share_json :: "plan9_share \<Rightarrow> json" where
  "share_json s =
     JObject [(''Name'', JString (p9_name s)), (''AccessName'', JString (p9_access_name s)), (''Path'', JString (p9_path s)),
              (''Port'', num (p9_port s)), (''Flags'', num (unat (p9_flags s)))]"

definition plan9_json :: "plan9_share list \<Rightarrow> json" where
  "plan9_json ss = JObject [(''Shares'', JArray (map share_json ss))]"

definition adapter_json :: "network_adapter_config \<Rightarrow> json" where
  "adapter_json n = JObject ([(''EndpointId'', JString (na_endpoint_id n))] @ some_field ''MacAddress'' JString (mac_address n))"

definition devices_json :: "devices \<Rightarrow> json" where
  "devices_json d =
     JObject (some_field ''Scsi'' (map_json scsi_json) (dv_scsi d) @ some_field ''ComPorts'' (map_json com_port_json) (dv_com_ports d)
       @ some_field ''HvSocket'' hv_socket_json (dv_hv_socket d) @ some_field ''Plan9'' plan9_json (dv_plan9 d)
       @ some_field ''NetworkAdapters'' (map_json adapter_json) (dv_network_adapters d))"

definition document_json :: "compute_document \<Rightarrow> json" where
  "document_json d =
     JObject [(''SchemaVersion'', version_json (cd_schema d)), (''Owner'', JString (cd_owner d)),
              (''ShouldTerminateOnLastHandleClosed'', JBool (terminate_on_last_handle d)),
              (''VirtualMachine'', JObject [
                 (''StopOnReset'', JBool (stop_on_reset d)),
                 (''Chipset'', JObject (some_field ''LinuxKernelDirect'' kernel_json (cd_kernel d))),
                 (''ComputeTopology'', JObject [(''Memory'', memory_json (cd_memory d)),
                                                (''Processor'', JObject [(''Count'', num (cd_processors d))])]),
                 (''Devices'', devices_json (cd_devices d))])]"

section \<open>Changes of a running machine\<close>

datatype request_type = AddRequest | RemoveRequest | UpdateRequest

fun request_json :: "request_type \<Rightarrow> json" where
  "request_json AddRequest = JString ''Add''"
| "request_json RemoveRequest = JString ''Remove''"
| "request_json UpdateRequest = JString ''Update''"

definition PLAN9_SHARES :: string where "PLAN9_SHARES = ''VirtualMachine/Devices/Plan9/Shares''"

definition modify_json :: "request_type \<Rightarrow> plan9_share option \<Rightarrow> json" where
  "modify_json rt s =
     JObject ([(''ResourcePath'', JString PLAN9_SHARES), (''RequestType'', request_json rt)] @ some_field ''Settings'' share_json s)"

section \<open>Error codes\<close>

definition HCS_E_IMAGE_MISMATCH :: "32 word" where "HCS_E_IMAGE_MISMATCH = 0x80370101"
definition HCS_E_HYPERV_NOT_INSTALLED :: "32 word" where "HCS_E_HYPERV_NOT_INSTALLED = 0x80370102"
definition HCS_E_CONNECTION_TIMEOUT :: "32 word" where "HCS_E_CONNECTION_TIMEOUT = 0x80370109"
definition HCS_E_INVALID_JSON :: "32 word" where "HCS_E_INVALID_JSON = 0x8037010D"
definition HCS_E_SYSTEM_NOT_FOUND :: "32 word" where "HCS_E_SYSTEM_NOT_FOUND = 0x8037010E"
definition HCS_E_SYSTEM_ALREADY_STOPPED :: "32 word" where "HCS_E_SYSTEM_ALREADY_STOPPED = 0x80370110"
definition HCS_E_WINDOWS_INSIDER_REQUIRED :: "32 word" where "HCS_E_WINDOWS_INSIDER_REQUIRED = 0x80370113"
definition HCS_E_SERVICE_NOT_AVAILABLE :: "32 word" where "HCS_E_SERVICE_NOT_AVAILABLE = 0x80370114"
definition HCS_E_OPERATION_TIMEOUT :: "32 word" where "HCS_E_OPERATION_TIMEOUT = 0x80370118"
definition HCS_E_ACCESS_DENIED :: "32 word" where "HCS_E_ACCESS_DENIED = 0x8037011B"
definition HCS_E_SERVICE_DISCONNECT :: "32 word" where "HCS_E_SERVICE_DISCONNECT = 0x8037011E"
definition E_ACCESSDENIED :: "32 word" where "E_ACCESSDENIED = 0x80070005"
definition E_INVALIDARG :: "32 word" where "E_INVALIDARG = 0x80070057"
definition RPC_S_SERVER_UNAVAILABLE :: "32 word" where "RPC_S_SERVER_UNAVAILABLE = 0x800706BA"
definition ERROR_FILE_NOT_FOUND :: "32 word" where "ERROR_FILE_NOT_FOUND = 0x80070002"
definition ERROR_PATH_NOT_FOUND :: "32 word" where "ERROR_PATH_NOT_FOUND = 0x80070003"
definition ERROR_VIRTUALIZATION_NOT_RUNNING :: "32 word" where "ERROR_VIRTUALIZATION_NOT_RUNNING = 0x80071D18"

definition classify :: "32 word \<Rightarrow> error_code" where
  "classify h =
     (if h \<in> {HCS_E_HYPERV_NOT_INSTALLED, ERROR_VIRTUALIZATION_NOT_RUNNING} then HypervisorNotRunning
      else if h \<in> {HCS_E_SERVICE_NOT_AVAILABLE, HCS_E_SERVICE_DISCONNECT, RPC_S_SERVER_UNAVAILABLE} then HostComputeServiceUnavailable
      else if h \<in> {HCS_E_ACCESS_DENIED, E_ACCESSDENIED} then InsufficientPrivileges
      else if h \<in> {HCS_E_INVALID_JSON, E_INVALIDARG, HCS_E_WINDOWS_INSIDER_REQUIRED, HCS_E_IMAGE_MISMATCH} then VmConfigurationRejected
      else if h \<in> {ERROR_FILE_NOT_FOUND, ERROR_PATH_NOT_FOUND} then ImageCorrupted
      else if h \<in> {HCS_E_OPERATION_TIMEOUT, HCS_E_CONNECTION_TIMEOUT} then VmBootTimeout
      else HcsError)"

text \<open>The first \<open>n\<close> characters of a UTF-8 text: a continuation byte belongs to the character before it.\<close>

fun take_chars :: "nat \<Rightarrow> string \<Rightarrow> string" where
  "take_chars n [] = []"
| "take_chars n (c # cs) =
     (if 0x80 \<le> code c \<and> code c < 0xC0 then c # take_chars n cs
      else (case n of 0 \<Rightarrow> [] | Suc m \<Rightarrow> c # take_chars m cs))"

definition json_text :: "json option \<Rightarrow> string option" where
  "json_text j = (case j of Some (JString s) \<Rightarrow> Some s | _ \<Rightarrow> None)"

definition event_messages :: "json \<Rightarrow> string list" where
  "event_messages v =
     (case obj_get ''ErrorEvents'' v of
        Some (JArray es) \<Rightarrow> List.map_filter (\<lambda>e. json_text (obj_get ''Message'' e)) es
      | _ \<Rightarrow> [])"

definition shortened :: "string \<Rightarrow> string" where
  "shortened doc = (let s = take_chars 400 doc in if length s < length doc then s @ [CHR 0xE2, CHR 0x80, CHR 0xA6] else s)"

definition summarize_result_document :: "(string \<Rightarrow> json option) \<Rightarrow> string \<Rightarrow> string" where
  "summarize_result_document from_str doc =
     (case from_str doc of
        None \<Rightarrow> shortened doc
      | Some v \<Rightarrow>
          (case json_text (obj_get ''ErrorMessage'' v) of
             Some msg \<Rightarrow> msg
           | None \<Rightarrow> if event_messages v \<noteq> [] then join_with '' | '' (event_messages v) else shortened doc))"

definition upper_hex :: "nat \<Rightarrow> char" where
  "upper_hex d = (if d < 10 then char_of (48 + d) else char_of (55 + d))"

definition hex_08 :: "32 word \<Rightarrow> string" where
  "hex_08 w = map (\<lambda>i. upper_hex (unat w div 16 ^ (7 - i) mod 16)) [0..<8]"

definition from_windows :: "(string \<Rightarrow> json option) \<Rightarrow> string \<Rightarrow> 32 word \<Rightarrow> string \<Rightarrow> string option \<Rightarrow> solon_error" where
  "from_windows from_str ctx h msg doc =
     (let text = ctx @ '' : '' @ msg @ '' (0x'' @ hex_08 h @ '')'';
          text = (case doc of
                    Some d \<Rightarrow> if trim d \<noteq> [] then text @ [CHR '' '', CHR 0xE2, CHR 0x80, CHR 0x94, CHR '' ''] @ summarize_result_document from_str d else text
                  | None \<Rightarrow> text)
      in with_hresult (solon_error_new (classify h) text) h)"

section \<open>Machines\<close>

datatype access = ReadAccess | ReadWriteAccess

text \<open>What the machine's process must be able to open, in the order it is granted.\<close>

definition grants :: "vm_config \<Rightarrow> (string \<times> access) list" where
  "grants c = [(vm_kernel c, ReadAccess), (vm_initrd c, ReadAccess)]
     @ map (\<lambda>d. (disk_path d, if disk_read_only d then ReadAccess else ReadWriteAccess)) (disks c)"

fun grant_all :: "(string \<times> access \<Rightarrow> solon_error + unit) \<Rightarrow> (string \<times> access) list \<Rightarrow> solon_error + unit" where
  "grant_all grant [] = Inr ()"
| "grant_all grant (g # gs) = (case grant g of Inl e \<Rightarrow> Inl e | Inr _ \<Rightarrow> grant_all grant gs)"

definition vm_create ::
  "(string \<times> access \<Rightarrow> solon_error + unit) \<Rightarrow> (string \<Rightarrow> json \<Rightarrow> solon_error + 'sys) \<Rightarrow> vm_config \<Rightarrow> solon_error + (string \<times> 'sys)" where
  "vm_create grant hcs_create c =
     (case grant_all grant (grants c) of
        Inl e \<Rightarrow> Inl e
      | Inr _ \<Rightarrow>
          (case hcs_create (vm_config_id c) (document_json (from_config c)) of
             Inl e \<Rightarrow> Inl e
           | Inr sys \<Rightarrow> Inr (vm_config_id c, sys)))"

definition runtime_id :: "(json \<Rightarrow> string) \<Rightarrow> json \<Rightarrow> solon_error + string" where
  "runtime_id show_json props =
     (case json_text (obj_get ''RuntimeId'' props) of
        Some i \<Rightarrow> Inr i
      | None \<Rightarrow> Inl (internal_error (''RuntimeId absent des propri'' @ [CHR 0xC3, CHR 0xA9] @ ''t'' @ [CHR 0xC3, CHR 0xA9] @ ''s HCS : '' @ show_json props)))"

definition add_share_request :: "host_share \<Rightarrow> json" where
  "add_share_request sh = modify_json AddRequest (Some (share_of_host sh))"

definition remove_share_request :: "host_share \<Rightarrow> json" where
  "remove_share_request sh = modify_json RemoveRequest (Some (share_of_host sh))"

definition owners_query :: json where
  "owners_query = JObject [(''Owners'', JArray [JString OWNER])]"

text \<open>
  The machines listed, each opened and terminated unless it is the one to keep; the calls that terminate are noted.
\<close>

fun terminate_each ::
  "(string \<Rightarrow> solon_error + unit) \<Rightarrow> (string \<Rightarrow> solon_error + unit) \<Rightarrow> string option \<Rightarrow> string list \<Rightarrow> string list \<Rightarrow> string list \<times> (solon_error + string list)" where
  "terminate_each open_vm terminate keep [] acc = ([], Inr acc)"
| "terminate_each open_vm terminate keep (i # ids) acc =
     (if Some i = keep then terminate_each open_vm terminate keep ids acc
      else (case open_vm i of
              Inl e \<Rightarrow> if hresult e = Some HCS_E_SYSTEM_NOT_FOUND then terminate_each open_vm terminate keep ids acc else ([], Inl e)
            | Inr _ \<Rightarrow>
                (case terminate i of
                   Inl e \<Rightarrow> if err_code e \<noteq> HcsError \<or> hresult e \<noteq> Some HCS_E_SYSTEM_ALREADY_STOPPED then ([i], Inl e)
                            else (case terminate_each open_vm terminate keep ids (acc @ [i]) of (cs, r) \<Rightarrow> (i # cs, r))
                 | Inr _ \<Rightarrow> (case terminate_each open_vm terminate keep ids (acc @ [i]) of (cs, r) \<Rightarrow> (i # cs, r)))))"

definition terminate_orphans ::
  "solon_error + string list \<Rightarrow> (string \<Rightarrow> solon_error + unit) \<Rightarrow> (string \<Rightarrow> solon_error + unit) \<Rightarrow> string option \<Rightarrow> string list \<times> (solon_error + string list)" where
  "terminate_orphans listed open_vm terminate keep =
     (case listed of Inl e \<Rightarrow> ([], Inl e) | Inr ids \<Rightarrow> terminate_each open_vm terminate keep ids [])"

section \<open>Lemmas\<close>

lemma take_chars_prefix: "prefix (take_chars n s) s"
  by (induction n s rule: take_chars.induct) (auto split: nat.split)

definition gone :: "(string \<Rightarrow> solon_error + unit) \<Rightarrow> string \<Rightarrow> bool" where
  "gone open_vm i \<longleftrightarrow> (\<exists>e. open_vm i = Inl e \<and> hresult e = Some HCS_E_SYSTEM_NOT_FOUND)"

lemma terminate_each_kept:
  "terminate_each open_vm terminate keep ids acc = (cs, r) \<Longrightarrow>
     set cs \<subseteq> set ids - set_option keep \<and> (\<forall>ended. r = Inr ended \<longrightarrow> ended = acc @ cs \<and> set ids \<subseteq> set cs \<union> set_option keep \<union> Collect (gone open_vm))"
proof (induction ids arbitrary: acc cs r)
  case (Cons i ids)
  let ?t = "terminate_each open_vm terminate keep"
  consider (skip) "?t (i # ids) acc = ?t ids acc" "i \<in> set_option keep \<or> gone open_vm i"
    | (stop) e cs0 where "?t (i # ids) acc = (cs0, Inl e)" "set cs0 \<subseteq> {i} - set_option keep"
    | (go) cs' r' where "?t ids (acc @ [i]) = (cs', r')" "?t (i # ids) acc = (i # cs', r')" "i \<notin> set_option keep"
  proof -
    obtain cs' r' where t: "?t ids (acc @ [i]) = (cs', r')" by fastforce
    show thesis
    proof (cases "Some i = keep")
      case True
      then show thesis by (intro skip) auto
    next
      case False
      then have k: "i \<notin> set_option keep" by (cases keep) auto
      show thesis
      proof (cases "open_vm i")
        case (Inl e)
        then show thesis
          by (cases "hresult e = Some HCS_E_SYSTEM_NOT_FOUND")
            (rule skip, use False in \<open>simp_all add: gone_def\<close>, rule stop, use False in auto)
      next
        case (Inr u)
        show thesis
        proof (cases "terminate i")
          case (Inl e)
          show thesis
          proof (cases "err_code e \<noteq> HcsError \<or> hresult e \<noteq> Some HCS_E_SYSTEM_ALREADY_STOPPED")
            case True
            then show thesis by (rule_tac stop [of "[i]" e]) (use False Inr Inl k in auto)
          next
            case go': False
            show thesis by (rule go [OF t _ k]) (use t go' False Inr Inl in auto)
          qed
        next
          case inr: (Inr v)
          show thesis by (rule go [OF t _ k]) (use t False Inr inr in auto)
        qed
      qed
    qed
  qed
  then show ?case
  proof cases
    case skip
    with Cons.IH [of acc cs r] Cons.prems show ?thesis by auto
  next
    case stop
    with Cons.prems show ?thesis by auto
  next
    case go
    with Cons.IH [OF go(1)] Cons.prems show ?thesis by auto
  qed
qed simp

lemma map_of_btree: "distinct (map fst xs) \<Longrightarrow> map_of (btree_of xs) = map_of xs"
proof -
  assume d: "distinct (map fst xs)"
  have "mset (map fst (btree_of xs)) = mset (map fst xs)" unfolding btree_of_def mset_map mset_sort ..
  then have "distinct (map fst (btree_of xs))" using d mset_eq_imp_distinct_iff by blast
  then show ?thesis using d by (subst map_of_inject_set) (simp_all add: btree_of_def)
qed

lemma dec_of_nat_inj:
  assumes "dec_of_nat m = dec_of_nat n"
  shows "m = n"
proof -
  have "parse_uint 10 (m + n + 1) (dec_of_nat m) = Some m" "parse_uint 10 (m + n + 1) (dec_of_nat n) = Some n"
    by (rule parse_uint_dec_of_nat; simp)+
  with assms show ?thesis by simp
qed

lemma map_of_luns:
  "map_of (map (\<lambda>(lun, d). (dec_of_nat lun, f d)) (enumerate k xs)) (dec_of_nat i)
     = (if k \<le> i \<and> i < k + length xs then Some (f (xs ! (i - k))) else None)"
proof (induction xs arbitrary: k)
  case (Cons x xs)
  show ?case
  proof (cases "i = k")
    case False
    then have "dec_of_nat i \<noteq> dec_of_nat k" using dec_of_nat_inj by blast
    with Cons.IH [of "Suc k"] False show ?thesis by (auto simp: nth_Cons' Suc_diff_Suc)
  qed simp
qed simp

lemma distinct_luns: "distinct (map fst (map (\<lambda>(lun, d). (dec_of_nat lun, f d)) (enumerate k xs)))"
proof -
  have "map fst (map (\<lambda>(lun, d). (dec_of_nat lun, f d)) (enumerate k xs)) = map dec_of_nat (map fst (enumerate k xs))"
    unfolding map_map by (rule map_cong [OF refl]) (simp add: case_prod_unfold)
  then show ?thesis by (simp only: map_fst_enumerate) (auto simp: distinct_map inj_on_def dest: dec_of_nat_inj)
qed

lemma map_of_attachments:
  "map_of (attachments_of ds) (dec_of_nat i)
     = (if i < length ds then Some \<lparr>at_kind = VirtualDisk, at_path = disk_path (ds ! i), at_read_only = disk_read_only (ds ! i), at_caching_mode = None\<rparr>
        else None)"
  unfolding attachments_of_def
  using map_of_luns [of "\<lambda>d. \<lparr>at_kind = VirtualDisk, at_path = disk_path d, at_read_only = disk_read_only d, at_caching_mode = None\<rparr>" 0 ds i]
  by (subst map_of_btree [OF distinct_luns]) simp

section \<open>Properties\<close>

fun json_at :: "string list \<Rightarrow> json \<Rightarrow> json option" where
  "json_at [] j = Some j"
| "json_at (k # ks) j = Option.bind (obj_get k j) (json_at ks)"

lemma map_json_get: "obj_get k (map_json f m) = map_option f (map_of m k)"
  by (induction m) (auto simp: map_json_def)

lemma devices_get:
  "obj_get ''Scsi'' (devices_json d) = map_option (map_json scsi_json) (dv_scsi d)"
  "obj_get ''Plan9'' (devices_json d) = map_option plan9_json (dv_plan9 d)"
  by (auto simp: devices_json_def some_field_def split: option.split)

text \<open>
  The document asks for exactly what the configuration says: disk \<open>i\<close> stands at LUN \<open>i\<close> and is marked read-only
  exactly when it is, no other LUN is there, and the device for shares is always there.
\<close>

theorem machine_document_exact:
  "let j = document_json (from_config c); dv = [''VirtualMachine'', ''Devices'']; lun = (\<lambda>i. dv @ [''Scsi'', ''0'', ''Attachments'', dec_of_nat i])
   in json_at [''Owner''] j = Some (JString ''Solon'') \<and> json_at [''ShouldTerminateOnLastHandleClosed''] j = Some (JBool False)
      \<and> json_at [''VirtualMachine'', ''Chipset'', ''LinuxKernelDirect'', ''KernelCmdLine''] j = Some (JString (cmdline c))
      \<and> json_at [''VirtualMachine'', ''ComputeTopology'', ''Memory'', ''SizeInMB''] j = Some (JNumber (dec_of_nat (vm_memory_mb c)))
      \<and> json_at (dv @ [''Plan9'', ''Shares'']) j = Some (JArray (map (share_json \<circ> share_of_host) (shares c)))
      \<and> (\<forall>i. json_at (lun i @ [''Path'']) j = (if i < length (disks c) then Some (JString (disk_path (disks c ! i))) else None)
             \<and> json_at (lun i @ [''ReadOnly'']) j = (if i < length (disks c) \<and> disk_read_only (disks c ! i) then Some (JBool True) else None))"
proof -
  let ?j = "document_json (from_config c)"
  have dv: "json_at ([''VirtualMachine'', ''Devices''] @ ks) ?j = json_at ks (devices_json (devices_of c))" for ks
    by (simp add: document_json_def from_config_def)
  have lun: "json_at ([''VirtualMachine'', ''Devices''] @ [''Scsi'', ''0'', ''Attachments'', dec_of_nat i] @ ks) ?j
      = (if i < length (disks c) then json_at ks (attachment_json \<lparr>at_kind = VirtualDisk, at_path = disk_path (disks c ! i),
           at_read_only = disk_read_only (disks c ! i), at_caching_mode = None\<rparr>) else None)" for i ks
    unfolding dv
    by (cases "disks c") (auto simp: devices_get devices_of_def map_json_get scsi_json_def map_of_attachments)
  have "json_at ([''VirtualMachine'', ''Devices''] @ [''Plan9'', ''Shares'']) ?j = Some (JArray (map (share_json \<circ> share_of_host) (shares c)))"
    unfolding dv by (simp add: devices_get devices_of_def plan9_json_def)
  moreover have "json_at [''Path''] (attachment_json a) = Some (JString (at_path a))"
      "json_at [''ReadOnly''] (attachment_json a) = (if at_read_only a then Some (JBool True) else None)" for a
    by (auto simp: attachment_json_def some_field_def split: option.split)
  moreover have "json_at [''Owner''] ?j = Some (JString ''Solon'')" "json_at [''ShouldTerminateOnLastHandleClosed''] ?j = Some (JBool False)"
      "json_at [''VirtualMachine'', ''Chipset'', ''LinuxKernelDirect'', ''KernelCmdLine''] ?j = Some (JString (cmdline c))"
      "json_at [''VirtualMachine'', ''ComputeTopology'', ''Memory'', ''SizeInMB''] ?j = Some (JNumber (dec_of_nat (vm_memory_mb c)))"
    by (simp_all add: document_json_def from_config_def OWNER_def some_field_def kernel_json_def memory_json_def num_def)
  ultimately show ?thesis using lun by (simp only: Let_def append_assoc) auto
qed

text \<open>
  Ending orphans never touches the machine to keep; when it succeeds, every other machine that was listed has been
  terminated or is gone, and exactly the terminated ones are returned.
\<close>

theorem orphans_terminated:
  "terminate_orphans (Inr ids) open_vm terminate keep = (cs, Inr ended) \<Longrightarrow>
     ended = cs \<and> set_option keep \<inter> set cs = {} \<and> set ids \<subseteq> set cs \<union> set_option keep \<union> Collect (gone open_vm)"
  using terminate_each_kept [of open_vm terminate keep ids "[]" cs "Inr ended"] by (auto simp: terminate_orphans_def)

end
