(* ===== verification/Docker_Pipe.thy ===== *)
theory Docker_Pipe
  imports Byte_Streams
begin

text \<open>
  The pipe of the Docker API in message mode (\<open>crates/solon-service/src/docker_pipe.rs\<close>): overlapped reads and writes, and
  the two threads of a connection between the pipe and the byte stream of the relay.
\<close>

section \<open>Overlapped calls\<close>

definition BUF :: nat where "BUF = 65536"

text \<open>
  The answer of \<open>ReadFile\<close>: a whole message or its end, a part with more of the message to come, an error, or that the
  call is pending; \<open>GetOverlappedResult\<close> then answers once more.
\<close>

datatype pipe_answer = Whole bytes | Part bytes | PipeError string | Pending

definition settled :: "pipe_answer \<Rightarrow> pipe_answer \<Rightarrow> pipe_answer" where
  "settled first later = (case first of Pending \<Rightarrow> later | _ \<Rightarrow> first)"

definition read_overlapped :: "pipe_answer \<Rightarrow> pipe_answer \<Rightarrow> string + bytes \<times> bool" where
  "read_overlapped first later =
     (case settled first later of
        Whole b \<Rightarrow> Inr (b, False)
      | Part b \<Rightarrow> Inr (b, True)
      | PipeError e \<Rightarrow> Inl e
      | Pending \<Rightarrow> Inl ''ERROR_IO_PENDING'')"

text \<open>A write takes some of the bytes or fails.\<close>

datatype write_answer = Took nat | WriteError string

text \<open>What was written, and the result; with no answer left the call does not return.\<close>

fun write_overlapped :: "bytes \<Rightarrow> write_answer list \<Rightarrow> bytes \<times> (string + unit) option" where
  "write_overlapped data as =
     (if data = [] then ([], Some (Inr ()))
      else (case as of
              [] \<Rightarrow> ([], None)
            | WriteError e # _ \<Rightarrow> ([], Some (Inl e))
            | Took n # rest \<Rightarrow>
                let k = min n (length data)
                in if n = 0 then (take k data, Some (Inr ()))
                   else (case write_overlapped (drop k data) rest of (w, r) \<Rightarrow> (take k data @ w, r))))"

declare write_overlapped.simps [simp del]

section \<open>From the pipe to the stream\<close>

text \<open>
  The reading thread: each answer with what comes later for a pending call, and whether the stream takes the bytes.  It gives
  what the stream received, which is then closed.
\<close>

fun pipe_to_stream :: "(pipe_answer \<times> pipe_answer \<times> bool) list \<Rightarrow> bytes" where
  "pipe_to_stream [] = []"
| "pipe_to_stream ((first, later, taken) # rest) =
     (case read_overlapped first later of
        Inl e \<Rightarrow> []
      | Inr (b, further) \<Rightarrow> if b = [] \<and> \<not> further then [] else if \<not> taken then [] else b @ pipe_to_stream rest)"

section \<open>From the stream to the pipe\<close>

text \<open>The writing thread: reads of the stream until its end, each written out; then the empty message.\<close>

fun stream_to_pipe :: "(io_error + bytes) list \<Rightarrow> write_answer list list \<Rightarrow> bytes list" where
  "stream_to_pipe [] ws = [[]]"
| "stream_to_pipe (Inl e # rs) ws = [[]]"
| "stream_to_pipe (Inr b # rs) ws =
     (if b = [] then [[]]
      else (case ws of
              [] \<Rightarrow> []
            | w # ws' \<Rightarrow>
                (case write_overlapped b w of
                   (out, None) \<Rightarrow> [out]
                 | (out, Some (Inl e)) \<Rightarrow> [out, []]
                 | (out, Some (Inr _)) \<Rightarrow> out # stream_to_pipe rs ws')))"

text \<open>The wait for the client before the pipe is disconnected: at most fifty looks, a tenth of a second apart.\<close>

fun linger :: "nat \<Rightarrow> (nat \<Rightarrow> bool) \<Rightarrow> nat" where
  "linger 0 reader_done = 0"
| "linger (Suc n) reader_done = (if reader_done (50 - Suc n) then 0 else 100 + linger n reader_done)"

section \<open>Lemmas\<close>

text \<open>How Windows hands a message to reads of a buffer: full parts, then the rest.\<close>

function message_reads :: "bytes \<Rightarrow> pipe_answer list" where
  "message_reads m = (if length m \<le> BUF then [Whole m] else Part (take BUF m) # message_reads (drop BUF m))"
  by pat_completeness auto
termination by (relation "measure length") (auto simp: BUF_def)

declare message_reads.simps [simp del]

definition delivered :: "pipe_answer list \<Rightarrow> (pipe_answer \<times> pipe_answer \<times> bool) list" where
  "delivered as = map (\<lambda>a. (a, a, True)) as"

lemma pipe_to_stream_message:
  "m \<noteq> [] \<Longrightarrow> pipe_to_stream (delivered (message_reads m @ rest)) = m @ pipe_to_stream (delivered rest)"
proof (induction m rule: message_reads.induct)
  case (1 m)
  show ?case
  proof (cases "length m \<le> BUF")
    case True
    with "1.prems" show ?thesis by (simp add: message_reads.simps [of m] delivered_def read_overlapped_def settled_def)
  next
    case False
    then have "drop BUF m \<noteq> []" "take BUF m \<noteq> []" by (auto simp: BUF_def)
    with 1 False show ?thesis
      by (simp add: message_reads.simps [of m] delivered_def read_overlapped_def settled_def)
  qed
qed

lemma write_overlapped_whole:
  "list_all (\<lambda>a. \<exists>n. a = Took n \<and> 0 < n) as \<Longrightarrow> length data \<le> length as \<Longrightarrow> write_overlapped data as = (data, Some (Inr ()))"
proof (induction as arbitrary: data)
  case (Cons a as)
  then obtain n where n: "a = Took n" "0 < n" by auto
  have "write_overlapped (drop (min n (length data)) data) as = (drop (min n (length data)) data, Some (Inr ()))"
    using Cons n by (intro Cons.IH) auto
  with n show ?case by (cases "data = []") (simp_all add: write_overlapped.simps [of data] write_overlapped.simps [of "[]"] Let_def)
qed (simp add: write_overlapped.simps)

section \<open>Properties\<close>

text \<open>
  The bytes of a client's messages reach the stream whole and in order, however long the messages, up to the empty message
  by which it says that it has finished writing.
\<close>

theorem pipe_messages_relayed:
  assumes "\<forall>m \<in> set ms. m \<noteq> []"
  shows "pipe_to_stream (delivered (concat (map message_reads ms) @ message_reads [] @ later)) = concat ms"
  using assms
proof (induction ms)
  case Nil
  then show ?case by (simp add: message_reads.simps delivered_def read_overlapped_def settled_def)
next
  case (Cons m ms)
  then show ?case by (simp add: pipe_to_stream_message)
qed

text \<open>A write that takes nothing counts as success: the rest of the bytes is dropped and the relay goes on.\<close>

theorem empty_write_drops_bytes: "data \<noteq> [] \<Longrightarrow> write_overlapped data (Took 0 # as) = ([], Some (Inr ()))"
  by (simp add: write_overlapped.simps [of data])

text \<open>The pipe is disconnected after five seconds at the latest.\<close>

theorem linger_bounded: "linger n reader_done \<le> 100 * n"
  by (induction n) auto

end
