(* ===== verification/Agent_Streams.thy ===== *)
theory Agent_Streams
  imports Protocol Byte_Streams
begin

text \<open>
  The other channels of the agent: commands with streamed output (\<open>crates/solon-agent/src/execstream.rs\<close>), relayed
  connections to containers (\<open>ports.rs\<close>, \<open>forward.rs\<close>), and the network of the machine (\<open>net.rs\<close>).
\<close>

section \<open>Frames of a command\<close>

function chunks :: "nat \<Rightarrow> bytes \<Rightarrow> bytes list" where
  "chunks n b = (if b = [] \<or> n = 0 then [] else take n b # chunks n (drop n b))"
  by pat_completeness auto
termination by (relation "measure (\<lambda>(n, b). length b)") auto

declare chunks.simps [simp del]

definition exec_frame :: "nat \<Rightarrow> bytes \<Rightarrow> bytes" where
  "exec_frame kind c = [char_of kind, char_of (length c div 256), char_of (length c mod 256)] @ c"

definition write_frame :: "nat \<Rightarrow> bytes \<Rightarrow> bytes" where
  "write_frame kind payload = concat (map (exec_frame kind) (chunks 65535 payload))"

definition show_code :: "int \<Rightarrow> string" where
  "show_code n = (if n < 0 then ''-'' @ dec_of_nat (nat (- n)) else dec_of_nat (nat n))"

text \<open>
  What is written for a request: the request or why it cannot be read, whether the shell starts, the pieces of both outputs in
  the order in which their threads get the connection, and the exit code.
\<close>

definition exec_session :: "string + exec_stream_request \<Rightarrow> string + unit \<Rightarrow> (nat \<times> bytes) list \<Rightarrow> int option \<Rightarrow> (nat \<times> bytes) list" where
  "exec_session req spawned pieces ec =
     (case req of
        Inl e \<Rightarrow> [(EXEC_FRAME_STDERR, ''requ'' @ [CHR 0xC3, CHR 0xAA] @ ''te illisible : '' @ e @ [LF]), (EXEC_FRAME_EXIT, ''2'')]
      | Inr r \<Rightarrow>
          (case spawned of
             Inl e \<Rightarrow> [(EXEC_FRAME_STDERR, ''lancement impossible : '' @ e @ [LF]), (EXEC_FRAME_EXIT, ''127'')]
           | Inr _ \<Rightarrow> pieces @ [(EXEC_FRAME_EXIT, show_code (case ec of Some c \<Rightarrow> c | None \<Rightarrow> -1))]))"

definition session_bytes :: "(nat \<times> bytes) list \<Rightarrow> bytes" where
  "session_bytes ws = concat (map (\<lambda>(k, p). write_frame k p) ws)"

section \<open>Relayed connections\<close>

text \<open>A copy in one direction up to the end of the stream, an error, or a write that fails; then the other side is told.\<close>

fun copy_then_shutdown :: "(io_error + bytes) list \<Rightarrow> bool list \<Rightarrow> bytes" where
  "copy_then_shutdown [] oks = []"
| "copy_then_shutdown (Inl e # rs) oks = []"
| "copy_then_shutdown (Inr b # rs) oks =
     (if b = [] then [] else case oks of [] \<Rightarrow> [] | ok # oks' \<Rightarrow> if ok then b @ copy_then_shutdown rs oks' else [])"

function reads_of :: "nat \<Rightarrow> reader \<Rightarrow> (io_error + bytes) list" where
  "reads_of n r =
     (case read_some n r of
        (Inl e, r') \<Rightarrow> [Inl e]
      | (Inr c, r') \<Rightarrow> if c = [] then [Inr []] else Inr c # reads_of n r')"
  by pat_completeness auto
termination
  by (relation "measure (\<lambda>(n, r). rd_size r)") (auto dest: read_some_decreases [OF sym])

declare reads_of.simps [simp del]

text \<open>What the agent acknowledges, and what it sends to the container.\<close>

record relay_target =
  rt_header :: "string \<Rightarrow> string + port_relay_header"
  rt_address :: "string \<Rightarrow> string + string"
  rt_connect :: "string \<Rightarrow> string + unit"

definition line_end :: "bytes \<Rightarrow> nat option" where
  "line_end b = map_option Suc (find_byte (\<lambda>c. c = LF) b)"

definition relay_choice :: "relay_target \<Rightarrow> string \<Rightarrow> string + unit" where
  "relay_choice t line =
     (case rt_header t (trim line) of
        Inl e \<Rightarrow> Inl (''en-t'' @ [CHR 0xC3, CHR 0xAA] @ ''te illisible : '' @ e)
      | Inr h \<Rightarrow>
          (case rt_address t (rh_container_ip h @ '':'' @ dec_of_nat (rh_container_port h)) of
             Inl e \<Rightarrow> Inl e
           | Inr a \<Rightarrow> (case rt_connect t a of Inl e \<Rightarrow> Inl (''connexion au conteneur '' @ a @ '' : '' @ e) | Inr _ \<Rightarrow> Inr ())))"

definition relay_port :: "relay_target \<Rightarrow> reader \<Rightarrow> (string + unit) option \<times> bytes" where
  "relay_port t r =
     (case fill line_end 8192 [] r of
        (Inl (Failed e), b, r') \<Rightarrow> (None, [])
      | (Inl Eof, b, r') \<Rightarrow> (case relay_choice t b of Inl e \<Rightarrow> (Some (Inl e), []) | Inr _ \<Rightarrow> (Some (Inr ()), []))
      | (Inr k, b, r') \<Rightarrow>
          (case relay_choice t (take k b) of
             Inl e \<Rightarrow> (Some (Inl e), [])
           | Inr _ \<Rightarrow>
               (Some (Inr ()), drop k b @ copy_then_shutdown (reads_of 65536 r') (replicate (rd_size r') True))))"

section \<open>The network of the machine\<close>

definition ip_commands :: "network_config \<Rightarrow> (bool \<times> string list) list" where
  "ip_commands cfg =
     (let dev = interface cfg
      in [(False, [''addr'', ''flush'', ''dev'', dev])]
         @ (case mtu cfg of Some m \<Rightarrow> [(True, [''link'', ''set'', ''dev'', dev, ''mtu'', dec_of_nat m])] | None \<Rightarrow> [])
         @ [(True, [''link'', ''set'', ''dev'', dev, ''up'']),
            (True, [''addr'', ''add'', address cfg @ ''/'' @ dec_of_nat (prefix_len cfg), ''dev'', dev]),
            (False, [''route'', ''del'', ''default'']),
            (True, [''route'', ''add'', ''default'', ''via'', gateway cfg, ''dev'', dev])])"

text \<open>The commands in order; a failure of one that must succeed ends.\<close>

fun run_ip :: "(string list \<Rightarrow> string + unit) \<Rightarrow> (bool \<times> string list) list \<Rightarrow> string + unit" where
  "run_ip ip [] = Inr ()"
| "run_ip ip ((must, args) # rest) =
     (case ip args of Inl e \<Rightarrow> if must then Inl e else run_ip ip rest | Inr _ \<Rightarrow> run_ip ip rest)"

definition relay_usable :: "string + unit \<Rightarrow> string option \<Rightarrow> network_config \<Rightarrow> bool" where
  "relay_usable started listening cfg \<longleftrightarrow> (\<exists>u. started = Inr u) \<or> listening = Some (address cfg)"

definition resolv_conf :: "bool \<Rightarrow> network_config \<Rightarrow> string" where
  "resolv_conf relay cfg =
     (if relay then ''nameserver '' @ address cfg @ [LF] else [])
     @ concat (map (\<lambda>d. ''nameserver '' @ d @ [LF]) (dns cfg))
     @ (if search_domains cfg \<noteq> [] then ''search '' @ join_with '' '' (search_domains cfg) @ [LF] else [])
     @ ''options timeout:2 attempts:2'' @ [LF]"

definition configure ::
  "bool \<Rightarrow> (string list \<Rightarrow> string + unit) \<Rightarrow> string + unit \<Rightarrow> string option \<Rightarrow> (string \<Rightarrow> string + unit) \<Rightarrow> network_config \<Rightarrow> string + unit" where
  "configure appears ip started listening write_resolv cfg =
     (if \<not> appears then Inl (''interface '' @ interface cfg @ '' absente'')
      else (case run_ip ip (ip_commands cfg) of
              Inl e \<Rightarrow> Inl e
            | Inr _ \<Rightarrow>
                (case write_resolv (resolv_conf (relay_usable started listening cfg) cfg) of
                   Inl e \<Rightarrow> Inl (''resolv.conf : '' @ e)
                 | Inr _ \<Rightarrow> Inr ())))"

section \<open>Rules for the host\<close>

text \<open>The remembered gateway is set once.\<close>

definition remember_gateway :: "string \<Rightarrow> string option \<Rightarrow> string option" where
  "remember_gateway g known = (case known of Some k \<Rightarrow> Some k | None \<Rightarrow> Some g)"

definition ensure_rule :: "(string list \<Rightarrow> bool) \<Rightarrow> string list \<Rightarrow> string list \<Rightarrow> string list list" where
  "ensure_rule run check insert_cmd = (if run check then [check] else [check, insert_cmd])"

definition raw_check :: "string \<Rightarrow> string list" where
  "raw_check g = [''-t'', ''raw'', ''-C'', ''PREROUTING'', ''-i'', ''eth0'', ''-s'', g, ''-j'', ''ACCEPT'']"
definition raw_insert :: "string \<Rightarrow> string list" where
  "raw_insert g = [''-t'', ''raw'', ''-I'', ''PREROUTING'', ''1'', ''-i'', ''eth0'', ''-s'', g, ''-j'', ''ACCEPT'']"
definition user_check :: "string \<Rightarrow> string list" where
  "user_check g = [''-C'', ''DOCKER-USER'', ''-s'', g, ''-j'', ''ACCEPT'']"
definition user_insert :: "string \<Rightarrow> string list" where
  "user_insert g = [''-I'', ''DOCKER-USER'', ''1'', ''-s'', g, ''-j'', ''ACCEPT'']"

text \<open>The commands given to iptables; \<open>tries\<close> says for each second whether the chain of Docker is there.\<close>

fun await_chain :: "(string list \<Rightarrow> bool) \<Rightarrow> string \<Rightarrow> bool list \<Rightarrow> string list list" where
  "await_chain run g [] = []"
| "await_chain run g (there # later) =
     [''-S'', ''DOCKER-USER''] # (if there then ensure_rule run (user_check g) (user_insert g) else await_chain run g later)"

definition reapply_host_rules :: "(string list \<Rightarrow> bool) \<Rightarrow> string option \<Rightarrow> bool list \<Rightarrow> string list list" where
  "reapply_host_rules run known tries =
     (case known of
        None \<Rightarrow> []
      | Some g \<Rightarrow> ensure_rule run (raw_check g) (raw_insert g) @ await_chain run g (take 120 tries))"

section \<open>Lemmas\<close>

text \<open>How a reader takes the frames apart.\<close>

function parse_frames :: "bytes \<Rightarrow> (nat \<times> bytes) list" where
  "parse_frames b =
     (if length b < 3 then []
      else let n = code (b ! 1) * 256 + code (b ! 2)
           in if length b < 3 + n then [] else (code (b ! 0), take n (drop 3 b)) # parse_frames (drop (3 + n) b))"
  by pat_completeness auto
termination by (relation "measure length") auto

declare parse_frames.simps [simp del]

lemma parse_exec_frame:
  assumes "kind < 256" "length c \<le> 65535"
  shows "parse_frames (exec_frame kind c @ rest) = (kind, c) # parse_frames rest"
proof -
  let ?b = "exec_frame kind c @ rest"
  have "length c div 256 < 256" using assms(2) by simp
  then have n: "code (?b ! 1) * 256 + code (?b ! 2) = length c" "code (?b ! 0) = kind" "3 + length c \<le> length ?b"
    using assms by (simp_all add: exec_frame_def div_mult_mod_eq)
  have "drop 3 ?b = c @ rest" by (simp add: exec_frame_def)
  moreover then have "drop (3 + length c) ?b = rest" by (metis add.commute append_eq_conv_conj drop_drop)
  ultimately show ?thesis using n by (subst parse_frames.simps) (simp add: Let_def)
qed

lemma parse_write_frame:
  "kind < 256 \<Longrightarrow> parse_frames (write_frame kind payload @ rest) = map (Pair kind) (chunks 65535 payload) @ parse_frames rest"
proof (induction "65535 :: nat" payload rule: chunks.induct)
  case (1 payload)
  show ?case
  proof (cases "payload = []")
    case True
    then show ?thesis by (simp add: write_frame_def chunks.simps [of _ "[]"])
  next
    case False
    then have c: "chunks 65535 payload = take 65535 payload # chunks 65535 (drop 65535 payload)" by (subst chunks.simps) simp
    have "write_frame kind payload @ rest = exec_frame kind (take 65535 payload) @ write_frame kind (drop 65535 payload) @ rest"
      by (simp add: write_frame_def c)
    with parse_exec_frame [of kind "take 65535 payload"] 1 False show ?thesis by (simp add: c)
  qed
qed

lemma concat_chunks: "0 < n \<Longrightarrow> concat (chunks n b) = b"
  by (induction n b rule: chunks.induct) (subst chunks.simps, auto)

lemma parse_session:
  "list_all (\<lambda>w. fst w < 256) ws \<Longrightarrow> parse_frames (session_bytes ws) = concat (map (\<lambda>(k, p). map (Pair k) (chunks 65535 p)) ws)"
  by (induction ws) (auto simp: session_bytes_def parse_frames.simps [of "[]"] parse_write_frame)

lemma copy_reads:
  "no_read_errors r \<Longrightarrow> 0 < n \<Longrightarrow> rd_size r \<le> k \<Longrightarrow> copy_then_shutdown (reads_of n r) (replicate k True) = pending r"
proof (induction n r arbitrary: k rule: reads_of.induct)
  case (1 n r)
  obtain x r' where rd: "read_some n r = (x, r')" by fastforce
  with "1.prems"(1) obtain c where c: "x = Inr c" "no_read_errors r'" using read_some_no_errors by blast
  have p: "pending r = c @ pending r'" using read_some_pending rd c(1) by blast
  show ?case
  proof (cases "c = []")
    case True
    then have "pending r = []" using read_some_eof [of n r r'] rd c(1) "1.prems" by simp
    with True rd c show ?thesis by (simp add: reads_of.simps [of n r])
  next
    case False
    then have "rd_size r' < rd_size r" using read_some_decreases rd c(1) by blast
    then obtain k' where k: "k = Suc k'" "rd_size r' \<le> k'" using "1.prems"(3) by (cases k) auto
    have "copy_then_shutdown (reads_of n r') (replicate k' True) = pending r'"
      using "1.IH" [OF rd [symmetric] c(1) False c(2) "1.prems"(2) k(2)] .
    with False rd c k p show ?thesis by (simp add: reads_of.simps [of n r])
  qed
qed

section \<open>Properties\<close>

text \<open>
  Both outputs of a command are read back whole: for every order in which the two threads write their pieces, of any
  length, the frames of a kind put together are the pieces of that kind in their order.
\<close>

theorem exec_output_read_back:
  assumes "list_all (\<lambda>w. fst w < 256) ws"
  shows "concat (map snd (filter (\<lambda>f. fst f = k) (parse_frames (session_bytes ws)))) = concat (map snd (filter (\<lambda>w. fst w = k) ws))"
proof -
  have "concat (map snd (filter (\<lambda>f. fst f = k) (concat (map (\<lambda>(k, p). map (Pair k) (chunks 65535 p)) ws)))) = concat (map snd (filter (\<lambda>w. fst w = k) ws))"
    by (induction ws) (auto simp: filter_map comp_def concat_chunks)
  then show ?thesis by (simp add: parse_session [OF assms])
qed

text \<open>
  Behind the line with the header every byte of the host goes to the container, for every cut into reads, also those that
  arrive together with the header.
\<close>

theorem relayed_bytes_exact:
  assumes "no_read_errors r" "pending r = line @ LF # rest" "LF \<notin> set line" "relay_choice t (line @ [LF]) = Inr ()"
  shows "relay_port t r = (Some (Inr ()), rest)"
proof -
  have at: "line_end b = None \<or> line_end b = Some (Suc (length line))" if "prefix b ([] @ pending r)" for b
  proof (cases "length b \<le> length line")
    case True
    then have "prefix b line" using that assms(2) by (auto intro: prefix_length_prefix)
    then have "LF \<notin> set b" using assms(3) set_mono_prefix by blast
    then show ?thesis by (auto simp: line_end_def find_byte_None)
  next
    case False
    from that obtain z where z: "line @ LF # rest = b @ z" using assms(2) by (auto simp: prefix_def)
    have "b ! j = (line @ LF # rest) ! j" if "j < length b" for j using z that by (simp add: nth_append)
    then have "find_byte (\<lambda>c. c = LF) b = Some (length line)"
      unfolding find_byte_Some using False assms(3) by (auto simp: nth_append in_set_conv_nth)
    then show ?thesis by (simp add: line_end_def)
  qed
  have whole: "line_end ([] @ pending r) = Some (Suc (length line))"
  proof -
    have "find_byte (\<lambda>c. c = LF) (pending r) = Some (length line)"
      unfolding find_byte_Some assms(2) using assms(3) by (auto simp: nth_append in_set_conv_nth)
    then show ?thesis by (simp add: line_end_def)
  qed
  obtain b r' where f: "fill line_end 8192 [] r = (Inr (Suc (length line)), b, r')"
    using fill_finds [of "[]" r line_end "Suc (length line)" 8192] at whole assms(1) by auto
  have "line_end b = Some (Suc (length line))" by (rule fill_answer [OF f])
  then have l: "length (line @ [LF]) \<le> length b" by (auto simp: line_end_def find_byte_Some)
  have "b @ pending r' = (line @ [LF]) @ rest" using fill_conserves [OF f] assms(2) by simp
  note s = append_eq_split [OF l this]
  have "copy_then_shutdown (reads_of 65536 r') (replicate (rd_size r') True) = pending r'"
    by (rule copy_reads) (use fill_no_errors [OF f assms(1)] in auto)
  with f s assms(4) show ?thesis by (simp add: relay_port_def)
qed

text \<open>The gateway of the first configuration is kept: after another one the rules still name the old host.\<close>

theorem gateway_not_updated:
  "remember_gateway g2 (remember_gateway g1 None) = Some g1"
  by (simp add: remember_gateway_def)

end
