(* ===== verification/Client_Update.thy ===== *)
theory Client_Update
  imports Docker_Shim
begin

text \<open>
  The update of Solon (\<open>crates/solon-client/src/update.rs\<close>): the comparison of versions, the published
  version, the download of an installer with the check of its digest, and its launch.  The answers of GitHub, the
  SHA-256 of the \<open>sha2\<close> crate, the outcome of the file operations and of \<open>ShellExecuteW\<close> are parameters.
\<close>

section \<open>Versions\<close>

definition version_number :: "string \<Rightarrow> nat" where
  "version_number p = (case parse_u64 (takeWhile is_ascii_digit p) of Some n \<Rightarrow> n | None \<Rightarrow> 0)"

definition version_parts :: "string \<Rightarrow> nat list" where
  "version_parts v = map version_number (split_on (CHR ''.'') (trim_start_matches (CHR ''v'') v))"

definition part_at :: "nat list \<Rightarrow> nat \<Rightarrow> nat" where
  "part_at a i = (if i < length a then a ! i else 0)"

fun newer_at :: "nat list \<Rightarrow> nat list \<Rightarrow> nat list \<Rightarrow> bool" where
  "newer_at a b [] = False"
| "newer_at a b (i # js) = (if part_at a i \<noteq> part_at b i then part_at a i > part_at b i else newer_at a b js)"

definition is_newer :: "string \<Rightarrow> string \<Rightarrow> bool" where
  "is_newer candidate current =
     (let a = version_parts candidate; b = version_parts current
      in newer_at a b [0..<max (length a) (length b)])"

section \<open>The published version\<close>

definition RELEASE_DOWNLOADS :: string where
  "RELEASE_DOWNLOADS = ''https://github.com/v94lere/solon/releases/download/''"

definition LATEST_API :: string where
  "LATEST_API = ''https://api.github.com/repos/v94lere/solon/releases/latest''"

definition RELEASES_PAGE :: string where
  "RELEASES_PAGE = ''https://github.com/v94lere/solon/releases''"

record solon_release =
  rel_version :: string
  rel_page :: string
  rel_installer :: "string option"
  rel_sums :: "string option"
  rel_notes :: string

datatype update_progress = Downloading nat "nat option" | Verifying

text \<open>
  What a run meets: the environment variable, the making of the directory, the client, the answers to its
  requests (a JSON document, a text, or a length and pieces that may end in an error), the digest, which reads, creations,
  writes, flushes, removals and renamings succeed, and after which pieces 150 milliseconds have gone by.
\<close>

record update_env =
  up_local :: "string option"
  up_made_dirs :: "string + unit"
  up_client :: "string + unit"
  up_json :: "string \<Rightarrow> string + json"
  up_text :: "string \<Rightarrow> string + string"
  up_get :: "string \<Rightarrow> string + nat option \<times> (string + bytes) list"
  up_digest :: "bytes \<Rightarrow> bytes"
  up_read :: "string + unit"
  up_create :: "string + unit"
  up_write :: "nat \<Rightarrow> string + unit"
  up_flush :: "string + unit"
  up_remove :: "string \<Rightarrow> bool"
  up_rename :: "string + unit"
  up_elapsed :: "nat \<Rightarrow> bool"
  up_entries :: "string list option"
  up_shell :: int

definition updates_dir :: "update_env \<Rightarrow> string + string" where
  "updates_dir env =
     (case up_local env of
        None \<Rightarrow> Inl ''LOCALAPPDATA is not set''
      | Some base \<Rightarrow>
          let dir = join_path (join_path base ''Solon'') ''updates''
          in (case up_made_dirs env of Inl e \<Rightarrow> Inl (dir @ '': '' @ e) | Inr _ \<Rightarrow> Inr dir))"

definition check_url :: "string \<Rightarrow> string + unit" where
  "check_url url =
     (if prefix RELEASE_DOWNLOADS url then Inr ()
      else Inl (''address refused (outside Solon's GitHub releases): '' @ url))"

definition text_field :: "string \<Rightarrow> json \<Rightarrow> string option" where
  "text_field k j = (case obj_get k j of Some (JString s) \<Rightarrow> Some s | _ \<Rightarrow> None)"

definition installer_name :: "string \<Rightarrow> string" where
  "installer_name vers = ''Solon_'' @ vers @ ''_x64-setup.exe''"

definition take_asset :: "string \<Rightarrow> json \<Rightarrow> string option \<times> string option \<Rightarrow> string option \<times> string option" where
  "take_asset wanted a urls =
     (let name = (case text_field ''name'' a of Some n \<Rightarrow> n | None \<Rightarrow> []);
          url = text_field ''browser_download_url'' a
      in if name = wanted then (url, snd urls)
         else if name = ''SHA256SUMS.txt'' then (fst urls, url) else urls)"

definition release_of :: "json \<Rightarrow> string + solon_release" where
  "release_of v =
     (case text_field ''tag_name'' v of
        None \<Rightarrow> Inl ''GitHub: no tag_name''
      | Some tag \<Rightarrow>
          let vers = trim_start_matches (CHR ''v'') tag;
              urls = (case obj_get ''assets'' v of
                        Some (JArray assets) \<Rightarrow> fold (take_asset (installer_name vers)) assets (None, None)
                      | _ \<Rightarrow> (None, None))
          in Inr \<lparr>rel_version = vers,
                  rel_page = (case text_field ''html_url'' v of Some u \<Rightarrow> u | None \<Rightarrow> RELEASES_PAGE),
                  rel_installer = fst urls, rel_sums = snd urls,
                  rel_notes = (case text_field ''body'' v of Some b \<Rightarrow> b | None \<Rightarrow> [])\<rparr>)"

definition latest :: "update_env \<Rightarrow> string + solon_release" where
  "latest env =
     (case up_client env of
        Inl e \<Rightarrow> Inl e
      | Inr _ \<Rightarrow> (case up_json env LATEST_API of Inl e \<Rightarrow> Inl (''GitHub: '' @ e) | Inr v \<Rightarrow> release_of v))"

section \<open>The list of digests\<close>

fun listed_hash :: "string \<Rightarrow> string list \<Rightarrow> string option" where
  "listed_hash file_name [] = None"
| "listed_hash file_name (line # rest) =
     (case split_whitespace line of
        hash # name # _ \<Rightarrow>
          if trim_start_matches (CHR ''*'') name = file_name \<and> length hash = 64 then Some (to_ascii_lowercase hash)
          else listed_hash file_name rest
      | _ \<Rightarrow> listed_hash file_name rest)"

definition expected_hash :: "update_env \<Rightarrow> string \<Rightarrow> string \<Rightarrow> string + string" where
  "expected_hash env sums_url file_name =
     (case up_text env sums_url of
        Inl e \<Rightarrow> Inl (''SHA256SUMS.txt: '' @ e)
      | Inr t \<Rightarrow> (case listed_hash file_name (str_lines t) of
                      Some h \<Rightarrow> Inr h
                    | None \<Rightarrow> Inl (file_name @ '' is not listed in SHA256SUMS.txt'')))"

definition byte_hex :: "char \<Rightarrow> string" where
  "byte_hex b = map (\<lambda>d. if d < 10 then char_of (48 + d) else char_of (87 + d)) [code b div 16, code b mod 16]"

definition hex_of :: "bytes \<Rightarrow> string" where
  "hex_of bs = concat (map byte_hex bs)"

definition hash_file :: "update_env \<Rightarrow> bytes \<Rightarrow> string + string" where
  "hash_file env bs = (case up_read env of Inl e \<Rightarrow> Inl e | Inr _ \<Rightarrow> Inr (hex_of (up_digest env bs)))"

section \<open>The download\<close>

definition version_char :: "char \<Rightarrow> bool" where
  "version_char c \<longleftrightarrow> is_ascii_alphanumeric c \<or> c = CHR ''.'' \<or> c = CHR ''-''"

text \<open>The conditions on the published version: the name of the file and the two addresses.\<close>

definition check_release :: "solon_release \<Rightarrow> string + string \<times> string \<times> string" where
  "check_release r =
     (case rel_installer r of
        None \<Rightarrow> Inl ''this release has no installer attached''
      | Some installer_url \<Rightarrow>
     (case rel_sums r of
        None \<Rightarrow> Inl ''this release has no SHA256SUMS.txt: no install from here''
      | Some sums_url \<Rightarrow>
     (case check_url installer_url of Inl e \<Rightarrow> Inl e | Inr _ \<Rightarrow>
     (case check_url sums_url of Inl e \<Rightarrow> Inl e | Inr _ \<Rightarrow>
        let vers = rel_version r; file_name = installer_name vers
        in if vers = [] \<or> \<not> list_all version_char vers then Inl (''unexpected version number: '' @ vers)
           else if \<not> suffix (''/'' @ file_name) installer_url
             then Inl (''the published installer does not match version '' @ vers)
           else Inr (file_name, installer_url, sums_url)))))"

text \<open>The pieces of the body: each is added to the digest, then written; \<open>i\<close> pieces came before.\<close>

fun take_pieces ::
  "update_env \<Rightarrow> nat option \<Rightarrow> nat \<Rightarrow> (string + bytes) list \<Rightarrow> bytes \<Rightarrow> (string + bytes) \<times> bytes \<times> update_progress list" where
  "take_pieces env len i [] saved = (Inr saved, saved, [])"
| "take_pieces env len i (Inl e # ps) saved = (Inl (''download interrupted: '' @ e), saved, [])"
| "take_pieces env len i (Inr c # ps) saved =
     (case up_write env i of
        Inl e \<Rightarrow> (Inl (''write: '' @ e), saved, [])
      | Inr _ \<Rightarrow>
          let (r, s, ev) = take_pieces env len (Suc i) ps (saved @ c)
          in (r, s, (if up_elapsed env i then [Downloading (length (saved @ c)) len] else []) @ ev))"

definition removed :: "update_env \<Rightarrow> string \<Rightarrow> disk \<Rightarrow> disk" where
  "removed env p d = (if up_remove env p then d(p := None) else d)"

definition DIGEST_DIFFERS :: string where
  "DIGEST_DIFFERS =
     ''the SHA-256 of the downloaded file does not match SHA256SUMS.txt: file discarded (corrupted or altered download)''"

definition fetch_installer ::
  "update_env \<Rightarrow> string \<Rightarrow> string \<Rightarrow> string \<Rightarrow> string \<Rightarrow> disk \<Rightarrow> (string + string) \<times> disk \<times> update_progress list" where
  "fetch_installer env installer_url expected path part d =
     (case up_get env installer_url of
        Inl e \<Rightarrow> (Inl (''download: '' @ e), d, [])
      | Inr (len, pieces) \<Rightarrow>
     (case up_create env of
        Inl e \<Rightarrow> (Inl (part @ '': '' @ e), d, [])
      | Inr _ \<Rightarrow>
          let (r, saved, ev) = take_pieces env len 0 pieces [];
              d = d(part \<mapsto> saved);
              ev = Downloading 0 len # ev
          in (case r of
                Inl e \<Rightarrow> (Inl e, d, ev)
              | Inr hashed \<Rightarrow>
             (case up_flush env of
                Inl e \<Rightarrow> (Inl e, d, ev)
              | Inr _ \<Rightarrow>
                  let ev = ev @ [Downloading (length hashed) (Some (length hashed)), Verifying]
                  in if hex_of (up_digest env hashed) \<noteq> expected then (Inl DIGEST_DIFFERS, removed env part d, ev)
                     else (case up_rename env of
                             Inl e \<Rightarrow> (Inl e, d, ev)
                           | Inr _ \<Rightarrow> (Inr path, run_op (RenameFile part path) d, ev))))))"

definition download :: "update_env \<Rightarrow> solon_release \<Rightarrow> disk \<Rightarrow> (string + string) \<times> disk \<times> update_progress list" where
  "download env r d =
     (case check_release r of
        Inl e \<Rightarrow> (Inl e, d, [])
      | Inr (file_name, installer_url, sums_url) \<Rightarrow>
     (case up_client env of Inl e \<Rightarrow> (Inl e, d, []) | Inr _ \<Rightarrow>
     (case expected_hash env sums_url file_name of Inl e \<Rightarrow> (Inl e, d, []) | Inr expected \<Rightarrow>
     (case updates_dir env of
        Inl e \<Rightarrow> (Inl e, d, [])
      | Inr dir \<Rightarrow>
          let path = join_path dir file_name; part = join_path dir (file_name @ ''.part'')
          in (case d path of
                None \<Rightarrow> fetch_installer env installer_url expected path part d
              | Some found \<Rightarrow>
                  (case hash_file env found of
                     Inl e \<Rightarrow> (Inl e, d, [Verifying])
                   | Inr h \<Rightarrow>
                       if h = expected then (Inr path, d, [Verifying])
                       else (case fetch_installer env installer_url expected path part (removed env path d) of
                               (res, d', ev) \<Rightarrow> (res, d', Verifying # ev))))))))"

section \<open>The launch\<close>

text \<open>A path as \<open>Path\<close> compares it: the drive, the separators it begins with, its names.\<close>

definition path_parts :: "string \<Rightarrow> char option \<times> nat \<times> string list" where
  "path_parts p =
     (let rest = (if has_drive p then drop 2 p else p)
      in (if has_drive p then Some (ascii_lower (p ! 0)) else None,
          min (if has_drive p then 1 else 2) (length (takeWhile is_sep rest)),
          filter (\<lambda>n. n \<noteq> [] \<and> n \<noteq> ''.'') (split_seps rest)))"

definition parent_parts :: "string \<Rightarrow> (char option \<times> nat \<times> string list) option" where
  "parent_parts p = (case path_parts p of (v, r, ns) \<Rightarrow> if ns = [] then None else Some (v, r, butlast ns))"

text \<open>The result, and what was handed to \<open>ShellExecuteW\<close>.\<close>

definition launch_elevated :: "update_env \<Rightarrow> string \<Rightarrow> string \<Rightarrow> (string + unit) \<times> (string \<times> string) option" where
  "launch_elevated env path args =
     ((if up_shell env > 32 then Inr ()
       else if up_shell env = 5 then Inl ''Windows did not allow the installation (request refused)''
       else Inl (''installer launch refused (code '' @ (if up_shell env < 0 then ''-'' else []) @ dec_of_nat (nat \<bar>up_shell env\<bar>) @ '')'')),
      Some (path, args))"

definition install :: "update_env \<Rightarrow> string \<Rightarrow> disk \<Rightarrow> (string + unit) \<times> (string \<times> string) option" where
  "install env path d =
     (case updates_dir env of
        Inl e \<Rightarrow> (Inl e, None)
      | Inr dir \<Rightarrow>
          if parent_parts path \<noteq> Some (path_parts dir) \<or> d path = None
            then (Inl ''installer not found: download it again'', None)
          else launch_elevated env path ''/S /UPDATE /R'')"

definition cleanup :: "update_env \<Rightarrow> disk \<Rightarrow> disk" where
  "cleanup env d =
     (case updates_dir env of
        Inl _ \<Rightarrow> d
      | Inr dir \<Rightarrow>
          (case up_entries env of
             None \<Rightarrow> d
           | Some names \<Rightarrow> fold (\<lambda>n d. if d (join_path dir n) \<noteq> None then removed env (join_path dir n) d else d) names d))"

definition APPMODEL_ERROR_NO_PACKAGE :: nat where "APPMODEL_ERROR_NO_PACKAGE = 15700"

definition packaged :: "nat \<Rightarrow> bool" where
  "packaged err \<longleftrightarrow> err \<noteq> APPMODEL_ERROR_NO_PACKAGE"

section \<open>Lemmas\<close>

lemma newer_at_iff:
  "newer_at a b js \<longleftrightarrow> (\<exists>n < length js. part_at b (js ! n) < part_at a (js ! n) \<and> (\<forall>m < n. part_at a (js ! m) = part_at b (js ! m)))"
proof (induction js)
  case (Cons i js)
  show ?case
  proof (cases "part_at a i = part_at b i")
    case True
    with Cons.IH show ?thesis by (simp add: Ex_less_Suc2 All_less_Suc2)
  next
    case False
    then show ?thesis by (auto simp: Ex_less_Suc2 All_less_Suc2)
  qed
qed simp

lemma part_at_beyond: "length a \<le> i \<Longrightarrow> part_at a i = 0"
  by (simp add: part_at_def)

text \<open>The first number that differs decides.\<close>

lemma newer_at_upt:
  "newer_at a b [0..<n] \<longleftrightarrow> (\<exists>i < n. part_at b i < part_at a i \<and> (\<forall>j < i. part_at a j = part_at b j))"
proof -
  have "(\<forall>m < i. part_at a ([0..<n] ! m) = part_at b ([0..<n] ! m)) \<longleftrightarrow> (\<forall>j < i. part_at a j = part_at b j)" if "i < n" for i
    using that by simp
  then show ?thesis unfolding newer_at_iff by auto
qed

lemma is_newer_iff:
  "is_newer x y \<longleftrightarrow>
     (\<exists>i. part_at (version_parts y) i < part_at (version_parts x) i
        \<and> (\<forall>j < i. part_at (version_parts x) j = part_at (version_parts y) j))"
proof -
  let ?a = "version_parts x" and ?b = "version_parts y"
  let ?n = "max (length ?a) (length ?b)"
  have "i < ?n" if "part_at ?b i < part_at ?a i" for i
    using that by (auto simp: part_at_def less_max_iff_disj split: if_splits)
  then show ?thesis
    unfolding is_newer_def Let_def newer_at_upt by blast
qed

lemma take_pieces_ok:
  "take_pieces env len i ps saved = (Inr h, s, ev) \<Longrightarrow> h = s \<and> (\<exists>cs. ps = map Inr cs \<and> s = saved @ concat cs)"
proof (induction env len i ps saved arbitrary: h s ev rule: take_pieces.induct)
  case (3 env len i c ps saved)
  then obtain ev' where "take_pieces env len (Suc i) ps (saved @ c) = (Inr h, s, ev')"
    by (auto split: sum.splits prod.splits)
  moreover from 3 obtain u where "up_write env i = Inr u" by (auto split: sum.splits)
  ultimately have "h = s \<and> (\<exists>cs. ps = map Inr cs \<and> s = (saved @ c) @ concat cs)" using "3.IH" by blast
  then show ?case by (metis append.assoc concat.simps(2) list.simps(9))
qed auto

lemma take_pieces_all:
  "\<forall>j. up_write env j = Inr () \<Longrightarrow> \<exists>ev. take_pieces env len i (map Inr cs) saved = (Inr (saved @ concat cs), saved @ concat cs, ev)"
proof (induction cs arbitrary: i saved)
  case (Cons c cs)
  then obtain ev where "take_pieces env len (Suc i) (map Inr cs) (saved @ c) = (Inr ((saved @ c) @ concat cs), (saved @ c) @ concat cs, ev)"
    by blast
  with Cons.prems show ?case by simp
qed simp

lemma join_path_Cons:
  "f \<noteq> [] \<Longrightarrow> \<not> is_sep (hd f) \<Longrightarrow> \<not> has_drive f \<Longrightarrow>
     join_path d f = d @ (if d = [] \<or> is_sep (last d) then [] else [CHR 0x5C]) @ f"
  by (cases f) (simp_all add: join_path_def)

lemma part_differs [simp]: "join_path dir (installer_name v) \<noteq> join_path dir (installer_name v @ ''.part'')"
proof -
  have "\<not> has_drive (installer_name v @ x)" "\<not> is_sep (hd (installer_name v @ x))" for x
    by (simp_all add: installer_name_def has_drive_def is_sep_def)
  from this [of "[]"] this [of "''.part''"] show ?thesis
    by (simp add: join_path_Cons installer_name_def)
qed

lemma fetch_ok:
  assumes "fetch_installer env u h path part d = (Inr p, d', ev)"
  shows "p = path \<and> (\<exists>len cs. up_get env u = Inr (len, map Inr cs) \<and> hex_of (up_digest env (concat cs)) = h
           \<and> d' = d(part := None, path \<mapsto> concat cs))"
proof -
  from assms obtain len ps where g: "up_get env u = Inr (len, ps)"
    by (auto simp: fetch_installer_def split: sum.splits)
  obtain r s es where t: "take_pieces env len 0 ps [] = (r, s, es)" by (metis prod_cases3)
  with assms g obtain x where x: "r = Inr x" "hex_of (up_digest env x) = h" "p = path"
      "d' = run_op (RenameFile part path) (d(part \<mapsto> s))"
    by (auto simp: fetch_installer_def Let_def split: sum.splits if_splits)
  from t x(1) obtain cs where "ps = map Inr cs" "s = concat cs" "x = s" by (auto dest: take_pieces_ok)
  with g x show ?thesis by simp
qed

lemma fetch_error:
  "fetch_installer env u h path part d = (Inl e, d', ev) \<Longrightarrow> d' = d(part := d' part)"
  by (auto simp: fetch_installer_def removed_def Let_def split: sum.splits if_splits prod.splits)

text \<open>A file of a directory has that directory as its parent.\<close>

lemma split_seps_append: "\<not> list_ex is_sep f \<Longrightarrow> split_seps (p @ CHR 0x5C # f) = split_seps p @ [f]"
proof -
  assume f: "\<not> list_ex is_sep f"
  have sn: "split_on c (x @ c # y) = split_on c x @ split_on c y" for c x y
    by (induction x) (auto split: list.splits)
  from f have m: "map (\<lambda>c. if is_sep c then CHR 0x5C else c) f = f" by (induction f) auto
  from f have "CHR 0x5C \<notin> set f" by (induction f) (auto simp: is_sep_def)
  with m show ?thesis by (simp add: split_seps_def sn split_on_no_mem is_sep_def [of "CHR 0x5C"])
qed

lemma takeWhile_append_stop: "\<exists>x \<in> set a. \<not> P x \<Longrightarrow> takeWhile P (a @ b) = takeWhile P a"
  by (induction a) auto

lemma parent_of_child:
  assumes "\<exists>c \<in> set (drop 2 p). \<not> is_sep c" "f \<noteq> []" "f \<noteq> ''.''" "\<not> list_ex is_sep f"
  shows "parent_parts (p @ CHR 0x5C # f) = Some (path_parts p)"
proof -
  from assms(1) have len: "length p > 2" by (cases "length p > 2") auto
  then have drv: "has_drive (p @ y) = has_drive p" and dp: "drop 2 (p @ y) = drop 2 p @ y" and h: "(p @ y) ! 0 = p ! 0" for y
    by (auto simp: has_drive_def nth_append)
  have "\<exists>c \<in> set p. \<not> is_sep c" using assms(1) by (meson in_set_dropD)
  with assms show ?thesis
    unfolding parent_parts_def path_parts_def Let_def drv dp h
    by (simp add: split_seps_append takeWhile_append_stop)
qed

lemma updates_dir_shape:
  assumes "updates_dir env = Inr dir"
  shows "\<exists>p. dir = p @ ''Solon'' @ CHR 0x5C # ''updates''"
proof -
  have j: "join_path d (CHR ''S'' # x) = d @ (if d = [] \<or> is_sep (last d) then [] else [CHR 0x5C]) @ CHR ''S'' # x"
    if "x \<noteq> []" "hd x \<noteq> CHR '':''" for d x
    using that by (intro join_path_Cons) (auto simp: is_sep_def has_drive_def hd_conv_nth)
  have k: "join_path d ''updates'' = d @ (if d = [] \<or> is_sep (last d) then [] else [CHR 0x5C]) @ ''updates''" for d
    by (intro join_path_Cons) (auto simp: is_sep_def has_drive_def)
  from assms obtain base where "dir = join_path (join_path base ''Solon'') ''updates''"
    by (auto simp: updates_dir_def Let_def split: option.splits sum.splits)
  then show ?thesis by (auto simp: j k is_sep_def)
qed

lemma version_no_sep:
  assumes "list_all version_char v"
  shows "\<not> list_ex is_sep (installer_name v)"
proof -
  have "\<not> list_ex is_sep v"
    using assms by (induction v) (auto simp: version_char_def is_sep_def solon_defs)
  then show ?thesis by (simp add: installer_name_def is_sep_def)
qed

lemma installer_path:
  assumes "updates_dir env = Inr dir" "list_all version_char v"
  shows "join_path dir (installer_name v) = dir @ CHR 0x5C # installer_name v
       \<and> parent_parts (join_path dir (installer_name v)) = Some (path_parts dir)"
proof -
  from updates_dir_shape [OF assms(1)] obtain p where d: "dir = p @ ''Solon'' @ CHR 0x5C # ''updates''" by blast
  have j: "join_path dir (installer_name v) = dir @ CHR 0x5C # installer_name v"
    by (subst join_path_Cons) (simp_all add: installer_name_def has_drive_def is_sep_def d)
  have "CHR ''s'' \<in> set (drop 2 dir)" by (cases p; cases "tl p") (simp_all add: d)
  then have "parent_parts (dir @ CHR 0x5C # installer_name v) = Some (path_parts dir)"
    using version_no_sep [OF assms(2)]
    by (intro parent_of_child bexI [of _ "CHR ''s''"]) (auto simp: is_sep_def installer_name_def)
  with j show ?thesis by simp
qed

lemma check_release_ok:
  "check_release r = Inr (f, u, s) \<Longrightarrow> f = installer_name (rel_version r) \<and> rel_installer r = Some u \<and> rel_sums r = Some s
     \<and> prefix RELEASE_DOWNLOADS u \<and> prefix RELEASE_DOWNLOADS s \<and> list_all version_char (rel_version r)"
  by (auto simp: check_release_def check_url_def Let_def split: option.splits sum.splits if_splits)

lemma expected_hash_ok:
  "expected_hash env s f = Inr h \<Longrightarrow> \<exists>t. up_text env s = Inr t \<and> listed_hash f (str_lines t) = Some h"
  by (auto simp: expected_hash_def split: sum.splits option.splits)

text \<open>Every run of a download gets to one of these ends.\<close>

lemma download_ends:
  assumes "download env r d = (res, d', ev)"
  obtains (refused) e where "res = Inl e" "d' = d"
  | (kept) f u s h dir c where "check_release r = Inr (f, u, s)" "expected_hash env s f = Inr h" "updates_dir env = Inr dir"
      "res = Inr (join_path dir f)" "d' = d" "d (join_path dir f) = Some c" "hex_of (up_digest env c) = h"
  | (fetched) f u s h dir d0 ev' where "check_release r = Inr (f, u, s)" "expected_hash env s f = Inr h" "updates_dir env = Inr dir"
      "fetch_installer env u h (join_path dir f) (join_path dir (f @ ''.part'')) d0 = (res, d', ev')"
      "d0 = d \<or> d0 = removed env (join_path dir f) d"
proof -
  show ?thesis
    using assms refused kept fetched
    unfolding download_def hash_file_def Let_def
    by (auto split: sum.splits prod.splits option.splits if_splits) metis+
qed

lemma sums_line:
  assumes "\<forall>c \<in> set (h @ n). graphic c" "h \<noteq> []" "n \<noteq> []"
  shows "split_whitespace (h @ ''  '' @ n) = [h, n]"
proof -
  have "split_ws [] (h @ CHR '' '' # [] @ CHR '' '' # n) = split_ws [] h @ split_ws [] [] @ split_ws [] n"
    by (subst split_ws_parted, simp, subst split_ws_parted, simp_all)
  moreover have "split_ws [] h = [h]" "split_ws [] n = [n]" "split_ws [] [] = []"
    using assms by (simp_all add: split_ws_word)
  ultimately show ?thesis by (simp add: split_whitespace_def)
qed

section \<open>Properties\<close>


definition sample_sums :: string where
  "sample_sums = replicate 64 (CHR ''a'') @ ''  '' @ installer_name ''0.2.0''"

definition sample_update :: update_env where
  "sample_update = \<lparr>up_local = Some ''C:'', up_made_dirs = Inr (), up_client = Inr (), up_json = (\<lambda>u. Inl []), up_text = (\<lambda>u. Inr sample_sums),
     up_get = (\<lambda>u. Inr (Some 2, [Inr ''M'', Inr ''Z''])), up_digest = (\<lambda>b. replicate 32 (CHR 0xAA)), up_read = Inr (), up_create = Inr (),
     up_write = (\<lambda>i. Inr ()), up_flush = Inr (), up_remove = (\<lambda>p. True), up_rename = Inr (), up_elapsed = (\<lambda>i. False),
     up_entries = Some [], up_shell = 42\<rparr>"

definition sample_release :: solon_release where
  "sample_release = \<lparr>rel_version = ''0.2.0'', rel_page = [], rel_installer = Some (RELEASE_DOWNLOADS @ ''v0.2.0/'' @ installer_name ''0.2.0''),
     rel_sums = Some (RELEASE_DOWNLOADS @ ''v0.2.0/SHA256SUMS.txt''), rel_notes = []\<rparr>"

lemma sample_hash: "expected_hash sample_update s (installer_name ''0.2.0'') = Inr (replicate 64 (CHR ''a''))"
proof -
  have w: "split_whitespace sample_sums = [replicate 64 (CHR ''a''), installer_name ''0.2.0'']"
    unfolding sample_sums_def by (rule sums_line) (auto simp: graphic_def installer_name_def)
  have "LF \<notin> set sample_sums" by (simp add: sample_sums_def installer_name_def LF_def)
  moreover have "last sample_sums \<noteq> CR" "sample_sums \<noteq> []" by (simp_all add: sample_sums_def installer_name_def CR_def)
  ultimately have "str_lines sample_sums = [sample_sums]"
    by (simp add: str_lines_def split_on_no_mem strip_cr_def)
  then show ?thesis
    by (simp add: expected_hash_def sample_update_def w trim_start_matches_def installer_name_def to_ascii_lowercase_def ascii_lower_def)
qed

lemma sample_checked:
  "check_release sample_release = Inr (installer_name ''0.2.0'', RELEASE_DOWNLOADS @ ''v0.2.0/'' @ installer_name ''0.2.0'', RELEASE_DOWNLOADS @ ''v0.2.0/SHA256SUMS.txt'')"
proof -
  have "suffix (CHR ''/'' # installer_name ''0.2.0'') (RELEASE_DOWNLOADS @ ''v0.2.0/'' @ installer_name ''0.2.0'')"
    by (rule suffixI [of _ "RELEASE_DOWNLOADS @ ''v0.2.0''"]) simp
  then show ?thesis
    by (simp add: check_release_def sample_release_def check_url_def Let_def version_char_def solon_defs)
qed

lemma sample_digest: "hex_of (replicate 32 (CHR 0xAA)) = replicate 64 (CHR ''a'')"
proof -
  have b: "byte_hex (CHR 0xAA) = ''aa''" by (simp add: byte_hex_def char_of_def bit_0)
  have "concat (map byte_hex (replicate n (CHR 0xAA))) = replicate (2 * n) (CHR ''a'')" for n
    by (induction n) (simp_all only: replicate_Suc list.map b, simp_all)
  from this [of 32] show ?thesis by (simp add: hex_of_def)
qed

lemma sample_dir: "updates_dir sample_update = Inr (''C:'' @ CHR 0x5C # ''Solon'' @ CHR 0x5C # ''updates'')"
  by (simp add: updates_dir_def sample_update_def join_path_def has_drive_def is_sep_def)

definition sample_path :: string where
  "sample_path = join_path (''C:'' @ CHR 0x5C # ''Solon'' @ CHR 0x5C # ''updates'') (installer_name ''0.2.0'')"

lemma sample_download:
  "\<exists>d' ev. download sample_update sample_release (\<lambda>_. None) = (Inr sample_path, d', ev) \<and> d' sample_path = Some ''MZ''"
proof -
  have "hex_of (up_digest sample_update b) = replicate 64 (CHR ''a'')" for b
    using sample_digest by (simp add: sample_update_def)
  moreover have "up_client sample_update = Inr ()" by (simp add: sample_update_def)
  ultimately show ?thesis
    unfolding download_def sample_checked sample_path_def
    by (simp add: sample_hash sample_dir fetch_installer_def Let_def) (simp add: sample_update_def)
qed


text \<open>
  A download that meets no error ends well: with the listed digest, the pieces of the body are the content of the
  installer, the partial file is gone, and the last reports are the full size and the check.
\<close>

theorem download_completes:
  assumes "check_release r = Inr (f, u, s)" "up_client env = Inr ()" "expected_hash env s f = Inr h" "updates_dir env = Inr dir"
    and "d (join_path dir f) = None" "up_get env u = Inr (len, map Inr cs)" "hex_of (up_digest env (concat cs)) = h"
    and "up_create env = Inr ()" "\<forall>i. up_write env i = Inr ()" "up_flush env = Inr ()" "up_rename env = Inr ()"
  shows "\<exists>ev. download env r d
     = (Inr (join_path dir f), d(join_path dir (f @ ''.part'') := None, join_path dir f \<mapsto> concat cs),
        ev @ [Downloading (length (concat cs)) (Some (length (concat cs))), Verifying])"
proof -
  obtain ev where "take_pieces env len 0 (map Inr cs) [] = (Inr (concat cs), concat cs, ev)"
    using take_pieces_all [OF assms(9), of len 0 cs "[]"] by auto
  with assms show ?thesis by (simp add: download_def fetch_installer_def Let_def)
qed

text \<open>
  Being newer is a strict order on versions, total up to trailing zeros: no version is newer than itself, the relation is transitive
  and asymmetric, and of two versions one is newer exactly when their numbers, filled up with zeros, differ.
\<close>

theorem newer_is_strict_order:
  "\<not> is_newer x x \<and> (is_newer x y \<and> is_newer y z \<longrightarrow> is_newer x z) \<and> \<not> (is_newer x y \<and> is_newer y x)
     \<and> (is_newer x y \<or> is_newer y x \<longleftrightarrow> part_at (version_parts x) \<noteq> part_at (version_parts y))"
proof -
  let ?p = "\<lambda>v. part_at (version_parts v)"
  have trans: "is_newer x z" if "is_newer x y" "is_newer y z" for x y z
  proof -
    from that obtain i j where "?p y i < ?p x i" "\<forall>k < i. ?p x k = ?p y k" "?p z j < ?p y j" "\<forall>k < j. ?p y k = ?p z k"
      by (auto simp: is_newer_iff)
    then have "?p z (min i j) < ?p x (min i j)" "\<forall>k < min i j. ?p x k = ?p z k"
      by (cases i j rule: linorder_cases; fastforce simp: min_def)+
    then show ?thesis unfolding is_newer_iff by blast
  qed
  have irrefl: "\<not> is_newer v v" for v by (simp add: is_newer_iff)
  have "is_newer x y \<or> is_newer y x" if "?p x i \<noteq> ?p y i" for i
  proof -
    from that obtain m where "?p x m \<noteq> ?p y m" "\<forall>k < m. ?p x k = ?p y k"
      using exists_least_iff [of "\<lambda>i. ?p x i \<noteq> ?p y i"] by auto
    then show ?thesis unfolding is_newer_iff by (metis linorder_neqE_nat)
  qed
  moreover have "?p x \<noteq> ?p y" if "is_newer x y \<or> is_newer y x" using that by (auto simp: is_newer_iff)
  ultimately show ?thesis using irrefl trans [of x y z] trans [of x y x] by blast
qed

text \<open>
  A version before a release counts as newer than the release when its suffix has a dot, although a suffix is said
  to count as zero; and a number of more than 64 bits counts as zero.
\<close>

lemma prerelease_newer: "is_newer ''0.2.0-rc.1'' ''0.2.0''"
  by (simp add: is_newer_def version_parts_def version_number_def trim_start_matches_def parse_u64_def parse_uint_def digit_value_def
      is_ascii_digit_def Let_def part_at_def upt_rec)

lemma huge_number_ignored: "is_newer ''0.1.0'' ''0.18446744073709551616.0''"
  by (simp add: is_newer_def version_parts_def version_number_def trim_start_matches_def parse_u64_def parse_uint_def digit_value_def
      is_ascii_digit_def Let_def part_at_def upt_rec)

text \<open>The launch does not look at the content again: any file in the directory of updates is started with elevation.\<close>

lemma install_checks_place_only:
  "install sample_update sample_path ((\<lambda>_. None)(sample_path \<mapsto> c)) = launch_elevated sample_update sample_path ''/S /UPDATE /R''"
proof -
  have "list_all version_char ''0.2.0''" by (simp add: version_char_def solon_defs)
  from installer_path [OF sample_dir this]
  have "parent_parts sample_path = Some (path_parts (''C:'' @ CHR 0x5C # ''Solon'' @ CHR 0x5C # ''updates''))"
    unfolding sample_path_def by (elim conjE)
  then show ?thesis unfolding install_def sample_dir by simp
qed

end
