(* ===== verification/Client_Control.thy ===== *)
theory Client_Control
  imports Engine_Parts Docker_Shim
begin

text \<open>
  What the application and the command line share (\<open>crates/solon-client\<close>): the client of the control pipe (\<open>control.rs\<close>), Compose
  projects in a folder (\<open>compose.rs\<close>), containers (\<open>containers.rs\<close>) and the copy of the volumes of a project (\<open>volumes.rs\<close>).
  The reader of JSON, the lines of the pipe and the machine that runs commands are parameters.
\<close>

section \<open>The control pipe\<close>

definition ERROR_PIPE_BUSY :: int where "ERROR_PIPE_BUSY = 231"

text \<open>
  Attempts to open the pipe: each gives the pipe or an error number and text, with whether the five seconds are over.
\<close>

datatype open_try = PipeOpen | OpenError "int option" string bool

fun open_pipe :: "open_try list \<Rightarrow> (string + unit) option" where
  "open_pipe [] = None"
| "open_pipe (PipeOpen # ts) = Some (Inr ())"
| "open_pipe (OpenError n e late # ts) =
     (if n = Some ERROR_PIPE_BUSY \<and> \<not> late then open_pipe ts else Some (Inl (''Solon service not reachable ('' @ CONTROL_PIPE @ ''): '' @ e)))"

definition reply_value :: "response \<Rightarrow> string + json" where
  "reply_value r =
     (if rs_ok r then Inr (case rs_result r of Some v \<Rightarrow> v | None \<Rightarrow> JNull)
      else Inl (case rs_error r of Some e \<Rightarrow> e | None \<Rightarrow> ''service error''))"

text \<open>One call: the opening, the write, the line read within the time, or nothing.\<close>

definition call_within ::
  "(string \<Rightarrow> string + response) \<Rightarrow> string + unit \<Rightarrow> string + unit \<Rightarrow> (string + string) option \<Rightarrow> string + json" where
  "call_within from_str opened written answer =
     (case opened of Inl e \<Rightarrow> Inl e | Inr _ \<Rightarrow>
     (case written of Inl e \<Rightarrow> Inl e | Inr _ \<Rightarrow>
     (case answer of
        None \<Rightarrow> Inl ''timed out waiting for the Solon service''
      | Some (Inl e) \<Rightarrow> Inl e
      | Some (Inr line) \<Rightarrow>
          (case from_str (trim line) of
             Inl e \<Rightarrow> Inl (''unreadable answer from the service: '' @ e)
           | Inr r \<Rightarrow> reply_value r))))"

text \<open>The integers of JSON and the result of a command.\<close>

definition as_i64 :: "json \<Rightarrow> int option" where
  "as_i64 j =
     (case j of
        JNumber t \<Rightarrow>
          (let neg = prefix ''-'' t; ds = (if neg then tl t else t)
           in if ds = [] then None
              else (case digits_value 10 0 ds of
                      None \<Rightarrow> None
                    | Some n \<Rightarrow> let i = (if neg then - int n else int n) in if (neg \<longrightarrow> n \<noteq> 0) \<and> - (2 ^ 63) \<le> i \<and> i < 2 ^ 63 then Some i else None))
      | _ \<Rightarrow> None)"

definition reply_text :: "string \<Rightarrow> json \<Rightarrow> string" where
  "reply_text k v = (case obj_get k v of Some (JString s) \<Rightarrow> s | _ \<Rightarrow> [])"

definition exec_reply :: "json \<Rightarrow> int \<times> string \<times> string" where
  "exec_reply v =
     (sint (word_of_int (case Option.bind (obj_get ''code'' v) as_i64 of Some c \<Rightarrow> c | None \<Rightarrow> - 1) :: 32 word),
      reply_text ''stdout'' v, reply_text ''stderr'' v)"

section \<open>Subscriptions\<close>

text \<open>What a wait for a line gives; a wait that is idle for too long ends a subscription with a limit.\<close>

datatype line_wait = GotLine string | GotEnd | GotError string | WentIdle

text \<open>
  The loop of \<open>stream\<close>: what it returns, if it does, and the state of the caller after the events it was given.
\<close>

fun control_stream ::
  "(string \<Rightarrow> json option) \<Rightarrow> bool \<Rightarrow> (json \<Rightarrow> 's \<Rightarrow> 's \<times> bool) \<Rightarrow> line_wait list \<Rightarrow> 's \<Rightarrow> (string + unit) option \<times> 's" where
  "control_stream from_str limited on_event [] s = (None, s)"
| "control_stream from_str limited on_event (GotError e # ws) s = (Some (Inl e), s)"
| "control_stream from_str limited on_event (WentIdle # ws) s =
     (if limited then (Some (Inr ()), s) else control_stream from_str limited on_event ws s)"
| "control_stream from_str limited on_event (GotEnd # ws) s = (Some (Inl ''connection closed by the service''), s)"
| "control_stream from_str limited on_event (GotLine l # ws) s =
     (case from_str (trim l) of
        None \<Rightarrow> control_stream from_str limited on_event ws s
      | Some v \<Rightarrow>
          if obj_get ''id'' v \<noteq> None then
            (if obj_get ''ok'' v = Some (JBool False)
             then (Some (Inl (case obj_get ''error'' v of Some (JString e) \<Rightarrow> e | _ \<Rightarrow> ''subscription refused'')), s)
             else control_stream from_str limited on_event ws s)
          else (case on_event v s of (s', on) \<Rightarrow> if on then control_stream from_str limited on_event ws s' else (Some (Inr ()), s')))"

text \<open>The line of an event of the service: \<open>serde\<close> puts the fields beside the tag \<open>event\<close>.\<close>

definition container_event_json :: "string \<Rightarrow> string \<Rightarrow> string \<Rightarrow> json" where
  "container_event_json action i name =
     JObject [(''event'', JString ''container''), (''action'', JString action), (''id'', JString i), (''name'', JString name)]"

definition client_quote :: "string \<Rightarrow> string" where
  "client_quote s = [CHR 0x27] @ concat (map (\<lambda>c. if c = CHR 0x27 then [CHR 0x27, CHR 0x5C, CHR 0x27, CHR 0x27] else [c]) s) @ [CHR 0x27]"

section \<open>Compose projects\<close>

definition COMPOSE_FILES :: "string list" where
  "COMPOSE_FILES = [''compose.yaml'', ''compose.yml'', ''docker-compose.yaml'', ''docker-compose.yml'']"

record compose_project =
  cp_dir :: string
  cp_file :: string
  cp_name :: string

definition name_char :: "char \<Rightarrow> bool" where
  "name_char c \<longleftrightarrow> is_ascii_alphanumeric c \<or> c = CHR ''-'' \<or> c = CHR ''_''"

text \<open>
  \<open>to_lowercase\<close> followed by the filter.  Two characters outside ASCII have a letter of it in their lower case: the
  Kelvin sign and the capital I with a dot.
\<close>

function lower_kept :: "string \<Rightarrow> string" where
  "lower_kept s =
     (case s of
        [] \<Rightarrow> []
      | c # cs \<Rightarrow>
          if prefix [CHR 0xE2, CHR 0x84, CHR 0xAA] s then CHR ''k'' # lower_kept (drop 3 s)
          else if prefix [CHR 0xC4, CHR 0xB0] s then CHR ''i'' # lower_kept (drop 2 s)
          else (if name_char (ascii_lower c) then [ascii_lower c] else []) @ lower_kept cs)"
  by pat_completeness auto
termination
  by (relation "measure length") auto

declare lower_kept.simps [simp del]

definition path_file_name :: "string \<Rightarrow> string option" where
  "path_file_name p = (case rev (path_names p) of [] \<Rightarrow> None | n # _ \<Rightarrow> if n = ''..'' then None else Some n)"

definition default_name :: "string \<Rightarrow> string" where
  "default_name dir = (case path_file_name dir of Some n \<Rightarrow> lower_kept n | None \<Rightarrow> [])"

definition detect :: "(string \<Rightarrow> bool) \<Rightarrow> disk \<Rightarrow> string \<Rightarrow> string + compose_project option" where
  "detect is_dir d dir =
     (if \<not> is_dir dir then Inl (''folder not found: '' @ dir)
      else Inr (map_option (\<lambda>f. \<lparr>cp_dir = dir, cp_file = f, cp_name = default_name dir\<rparr>)
                  (find (\<lambda>f. d (join_path dir f) \<noteq> None) COMPOSE_FILES)))"

definition name_value :: "string \<Rightarrow> string option" where
  "name_value line =
     (if prefix ''name:'' line
      then let v = trim_matches (CHR 0x27) (trim_matches (CHR 0x22) (trim (drop 5 line))) in if v = [] then None else Some v
      else None)"

definition compose_name :: "string \<Rightarrow> string \<Rightarrow> string" where
  "compose_name dir compose_text =
     (case List.map_filter name_value (str_lines compose_text) of v # _ \<Rightarrow> v | [] \<Rightarrow> default_name dir)"

section \<open>Containers\<close>

record container =
  ct_id :: string
  ct_name :: string
  ct_project :: "string option"
  ct_service :: "string option"
  ct_state :: string
  ct_status :: string
  ct_ports :: string

definition ct_running :: "container \<Rightarrow> bool" where
  "ct_running c \<longleftrightarrow> ct_state c = ''running''"

definition ct_domains :: "container \<Rightarrow> string list" where
  "ct_domains c =
     (case (ct_project c, ct_service c) of (Some p, Some s) \<Rightarrow> [s @ ''.'' @ p @ ''.solon.local''] | _ \<Rightarrow> [])
     @ [ct_name c @ ''.solon.local'']"

fun splitn :: "nat \<Rightarrow> char \<Rightarrow> string \<Rightarrow> string list" where
  "splitn 0 c s = []"
| "splitn (Suc 0) c s = [s]"
| "splitn (Suc (Suc n)) c s = (case split_once c s of None \<Rightarrow> [s] | Some (a, b) \<Rightarrow> a # splitn (Suc n) c b)"

definition some_text :: "string \<Rightarrow> string option" where
  "some_text s = (if s = [] then None else Some s)"

definition parse_container :: "string \<Rightarrow> container option" where
  "parse_container l =
     (case splitn 7 (CHR ''|'') l of
        [i, n, p, s, t, u, q] \<Rightarrow>
          Some \<lparr>ct_id = i, ct_name = n, ct_project = some_text p, ct_service = some_text s, ct_state = t, ct_status = u, ct_ports = q\<rparr>
      | _ \<Rightarrow> None)"

definition parse_containers :: "string \<Rightarrow> container list" where
  "parse_containers out = List.map_filter parse_container (str_lines out)"

text \<open>The machine runs a command within some seconds: a failure of the call, or exit code, output and errors.\<close>

type_synonym 'm runner = "string \<Rightarrow> nat \<Rightarrow> 'm \<Rightarrow> (string + int \<times> string \<times> string) \<times> 'm"

definition PS_COMMAND :: string where
  "PS_COMMAND = ''docker ps -a --no-trunc --format '' @ [CHR 0x27] @ ''{{.ID}}|{{.Names}}|{{.Label '' @ [CHR 0x22] @ ''com.docker.compose.project''
     @ [CHR 0x22] @ ''}}|{{.Label '' @ [CHR 0x22] @ ''com.docker.compose.service'' @ [CHR 0x22] @ ''}}|{{.State}}|{{.Status}}|{{.Ports}}'' @ [CHR 0x27]"

definition list_containers :: "'m runner \<Rightarrow> 'm \<Rightarrow> (string + container list) \<times> 'm" where
  "list_containers run m =
     (case run PS_COMMAND 30 m of
        (Inl e, m) \<Rightarrow> (Inl e, m)
      | (Inr (rc, out, err), m) \<Rightarrow>
          (if rc \<noteq> 0 then Inl (''docker ps: '' @ trim err) else Inr (parse_containers out), m))"

definition known_action :: "string \<Rightarrow> bool" where
  "known_action a \<longleftrightarrow> a \<in> set [''start'', ''stop'', ''restart'']"

definition act_command :: "string \<Rightarrow> string \<Rightarrow> string" where
  "act_command action i = ''docker '' @ action @ '' '' @ client_quote i"

definition project_act_command :: "string \<Rightarrow> string \<Rightarrow> string" where
  "project_act_command action p = ''docker compose -p '' @ client_quote p @ '' '' @ action"

definition act :: "'m runner \<Rightarrow> string \<Rightarrow> string \<Rightarrow> 'm \<Rightarrow> (string + unit) \<times> 'm" where
  "act run action i m =
     (if \<not> known_action action then (Inl (''unknown action: '' @ action), m)
      else (case run (act_command action i) 120 m of
              (Inl e, m) \<Rightarrow> (Inl e, m)
            | (Inr (rc, out, err), m) \<Rightarrow> (if rc \<noteq> 0 then Inl (''docker '' @ action @ '': '' @ trim err) else Inr (), m)))"

definition project_act :: "'m runner \<Rightarrow> string \<Rightarrow> string \<Rightarrow> 'm \<Rightarrow> (string + unit) \<times> 'm" where
  "project_act run action p m =
     (if \<not> known_action action then (Inl (''unknown action: '' @ action), m)
      else (case run (project_act_command action p) 300 m of
              (Inl e, m) \<Rightarrow> (Inl e, m)
            | (Inr (rc, out, err), m) \<Rightarrow> (if rc \<noteq> 0 then Inl (''docker compose '' @ action @ '': '' @ trim err) else Inr (), m)))"

section \<open>Volumes of a project\<close>

definition volumes_command :: "string \<Rightarrow> string" where
  "volumes_command p =
     ''docker volume ls --filter label=com.docker.compose.project='' @ client_quote p @ '' --format '' @ [CHR 0x27] @ ''{{.Name}}'' @ [CHR 0x27]"

definition listed_names :: "string \<Rightarrow> string list" where
  "listed_names out = filter (\<lambda>l. l \<noteq> []) (map trim (str_lines out))"

definition volume_suffix :: "string \<Rightarrow> string \<Rightarrow> string" where
  "volume_suffix p v = (if prefix (p @ ''_'') v then drop (length (p @ ''_'')) v else v)"

definition VERSION_COMMAND :: string where "VERSION_COMMAND = ''docker compose version --short''"

definition clone_line :: "string \<Rightarrow> string \<Rightarrow> string \<Rightarrow> string \<Rightarrow> string" where
  "clone_line from to ver name =
     (let suffix = volume_suffix from name; d = client_quote (to @ ''_'' @ suffix); n = client_quote name
      in ''docker volume inspect '' @ d @ '' >/dev/null 2>&1 || (docker volume create --label com.docker.compose.project='' @ client_quote to
         @ '' --label com.docker.compose.volume='' @ client_quote suffix @ '' --label com.docker.compose.version='' @ client_quote ver @ '' '' @ d
         @ '' >/dev/null && cp -a /var/lib/docker/volumes/'' @ n @ ''/_data/. /var/lib/docker/volumes/'' @ d @ ''/_data/ && echo cloned '' @ d @ '')''
         @ [LF])"

definition clone_project :: "'m runner \<Rightarrow> string \<Rightarrow> string \<Rightarrow> 'm \<Rightarrow> (string + nat) \<times> 'm" where
  "clone_project run from to m =
     (case run (volumes_command from) 30 m of
        (Inl e, m) \<Rightarrow> (Inl e, m)
      | (Inr (_, out, _), m) \<Rightarrow>
     (case run VERSION_COMMAND 30 m of
        (v, m) \<Rightarrow>
          let ver = (case v of Inr (_, t, _) \<Rightarrow> if trim t = [] then ''2.0.0'' else trim t | Inl _ \<Rightarrow> ''2.0.0'');
              script = concat (map (clone_line from to ver) (listed_names out))
          in if script = [] then (Inr 0, m)
             else (case run script 1800 m of
                     (Inl e, m) \<Rightarrow> (Inl e, m)
                   | (Inr (rc, out, err), m) \<Rightarrow>
                       (if rc \<noteq> 0 then Inl (''volume clone: '' @ trim err)
                        else Inr (length (filter (prefix ''cloned '') (str_lines out))), m))))"

section \<open>Lemmas\<close>

lemma client_quote_eq: "client_quote = shell_quote"
  by (rule ext) (simp add: client_quote_def shell_quote_def)

lemma sh_words_plain:
  "w \<noteq> [] \<Longrightarrow> list_all shell_plain w \<Longrightarrow> sh_words (Some x) (w @ t) = sh_words (Some (x @ w)) t"
proof (induction w arbitrary: x)
  case (Cons c w)
  then have "c \<noteq> CHR '' ''" "c \<noteq> CHR 0x27" "c \<noteq> CHR 0x5C" by (auto simp: shell_plain_def solon_defs)
  with Cons show ?case by (cases w) simp_all
qed simp

lemma sh_words_next:
  assumes "w \<noteq> []" "list_all shell_plain w"
  shows "sh_words None (w @ CHR '' '' # t) = map_option (Cons w) (sh_words None t)" "sh_words None w = Some [w]"
proof -
  from assms obtain c v where w: "w = c # v" "shell_plain c" "list_all shell_plain v" by (cases w) auto
  then have c: "c \<noteq> CHR '' ''" "c \<noteq> CHR 0x27" "c \<noteq> CHR 0x5C" by (auto simp: shell_plain_def solon_defs)
  have "sh_words None (w @ t') = sh_words (Some w) t'" for t'
    using w c sh_words_plain [of v "[c]" t'] by (cases v) simp_all
  from this [of "CHR '' '' # t"] this [of "[]"]
  show "sh_words None (w @ CHR '' '' # t) = map_option (Cons w) (sh_words None t)" "sh_words None w = Some [w]" by simp_all
qed

lemma known_action_plain: "known_action a \<Longrightarrow> a \<noteq> [] \<and> list_all shell_plain a"
  by (auto simp: known_action_def shell_plain_def solon_defs)

lemma splitn_join:
  "(\<forall>f \<in> set (butlast fs). c \<notin> set f) \<Longrightarrow> fs \<noteq> [] \<Longrightarrow> splitn (length fs) c (join_with [c] fs) = fs"
proof (induction fs)
  case (Cons f fs)
  show ?case
  proof (cases fs)
    case (Cons g gs)
    then have "c \<notin> set f" using Cons.prems by simp
    then have "split_once c (f @ c # join_with [c] fs) = Some (f, join_with [c] fs)" by (rule split_once_append)
    with Cons Cons.IH Cons.prems show ?thesis by (simp add: join_with_Cons)
  qed simp
qed simp

text \<open>The line \<open>docker ps\<close> prints for a container.\<close>

definition ps_line :: "container \<Rightarrow> string" where
  "ps_line c = join_with ''|'' [ct_id c, ct_name c, case_option [] id (ct_project c), case_option [] id (ct_service c),
     ct_state c, ct_status c, ct_ports c]"

definition ps_container :: "container \<Rightarrow> bool" where
  "ps_container c \<longleftrightarrow> (\<forall>f \<in> set [ct_id c, ct_name c, case_option [] id (ct_project c), case_option [] id (ct_service c), ct_state c, ct_status c].
       CHR ''|'' \<notin> set f)
     \<and> ct_project c \<noteq> Some [] \<and> ct_service c \<noteq> Some [] \<and> LF \<notin> set (ps_line c) \<and> CR \<notin> set (ct_ports c)"

lemma parse_ps_line: "ps_container c \<Longrightarrow> parse_container (ps_line c) = Some c"
proof -
  assume c: "ps_container c"
  let ?fs = "[ct_id c, ct_name c, case_option [] id (ct_project c), case_option [] id (ct_service c), ct_state c, ct_status c, ct_ports c]"
  have "splitn (length ?fs) (CHR ''|'') (join_with ''|'' ?fs) = ?fs"
    using c by (intro splitn_join) (auto simp: ps_container_def)
  moreover have "length ?fs = 7" by simp
  ultimately have "splitn 7 (CHR ''|'') (ps_line c) = ?fs" unfolding ps_line_def by metis
  moreover have "some_text (case_option [] id x) = x" if "x \<noteq> Some []" for x
    using that by (cases x) (auto simp: some_text_def)
  ultimately show ?thesis using c by (simp add: parse_container_def ps_container_def)
qed

lemma str_lines_concat:
  "\<forall>l \<in> set ls. LF \<notin> set l \<and> strip_cr l = l \<Longrightarrow> str_lines (concat (map (\<lambda>l. l @ [LF]) ls)) = ls"
proof -
  assume "\<forall>l \<in> set ls. LF \<notin> set l \<and> strip_cr l = l"
  then have "split_on LF (concat (map (\<lambda>l. l @ [LF]) ls)) = ls @ [[]] \<and> map strip_cr ls = ls"
    by (induction ls) (auto simp: split_on_append)
  then show ?thesis by (simp add: str_lines_def)
qed

lemma ps_line_no_cr: "ps_container c \<Longrightarrow> strip_cr (ps_line c) = ps_line c"
proof -
  assume "ps_container c"
  then have "last (ps_line c) \<noteq> CR"
    by (cases "ct_ports c") (auto simp: ps_container_def ps_line_def CR_def, metis last_in_set)
  then show ?thesis by (simp add: strip_cr_def)
qed

section \<open>Properties\<close>

text \<open>
  The containers the machine lists are the ones shown: what \<open>docker ps\<close> prints in the asked form is read back as the same
  containers, in order, for every list of ports, empty labels included.
\<close>

theorem containers_read_back:
  assumes "list_all ps_container cs" "run PS_COMMAND 30 m = (Inr (0, concat (map (\<lambda>c. ps_line c @ [LF]) cs), err), m')"
  shows "list_containers run m = (Inr cs, m')"
proof -
  have "str_lines (concat (map (\<lambda>l. l @ [LF]) (map ps_line cs))) = map ps_line cs"
    using assms(1) by (intro str_lines_concat) (auto simp: list_all_iff ps_container_def ps_line_no_cr)
  moreover have "List.map_filter parse_container (map ps_line cs) = cs"
    using assms(1) by (induction cs) (simp_all add: parse_ps_line)
  ultimately show ?thesis using assms(2) by (simp add: list_containers_def parse_containers_def comp_def)
qed

text \<open>Actions run the one command they mean, whatever characters a name has; any other action runs nothing.\<close>

theorem actions_run_one_command:
  "known_action a \<Longrightarrow> sh_words None (act_command a i) = Some [''docker'', a, i]
     \<and> sh_words None (project_act_command a i) = Some [''docker'', ''compose'', ''-p'', i, a]"
proof -
  assume a: "known_action a"
  note n = sh_words_next [OF _ known_action_plain [OF a, THEN conjunct2]] sh_words_next
  have p: "list_all shell_plain ''docker''" "list_all shell_plain ''compose''" "list_all shell_plain ''-p''"
    by (simp_all add: shell_plain_def solon_defs)
  have q: "sh_words None (shell_quote i @ CHR '' '' # t) = map_option (Cons i) (sh_words None t)" "sh_words None (shell_quote i) = Some [i]" for t
    using sh_words_quoted [of i "CHR '' '' # t"] sh_words_quoted [of i "[]"] by simp_all
  have d: "sh_words None (''docker'' @ CHR '' '' # t) = map_option (Cons ''docker'') (sh_words None t)"
    "sh_words None (''compose'' @ CHR '' '' # t) = map_option (Cons ''compose'') (sh_words None t)"
    "sh_words None (''-p'' @ CHR '' '' # t) = map_option (Cons ''-p'') (sh_words None t)" for t
    using p by (intro sh_words_next; simp)+
  have "a \<noteq> []" using known_action_plain [OF a] by simp
  then show ?thesis
    using d [of "a @ CHR '' '' # shell_quote i"] d(1) [of "''compose'' @ CHR '' '' # ''-p'' @ CHR '' '' # shell_quote i @ CHR '' '' # a"]
      d(2) [of "''-p'' @ CHR '' '' # shell_quote i @ CHR '' '' # a"] d(3) [of "shell_quote i @ CHR '' '' # a"] n(1) [of "shell_quote i"] n(2) q
    by (simp add: act_command_def project_act_command_def client_quote_eq)
qed

lemma stream_events:
  assumes "\<forall>l v. (l, v) \<in> set es \<longrightarrow> from_str (trim l) = Some v \<and> obj_get ''id'' v = None"
    and "\<forall>v s. snd (on_event v s)"
  shows "control_stream from_str limited on_event (map (GotLine \<circ> fst) es @ ws) s
       = control_stream from_str limited on_event ws (fold (\<lambda>(l, v) s. fst (on_event v s)) es s)"
  using assms
proof (induction es arbitrary: s)
  case (Cons e es)
  obtain l v where e: "e = (l, v)" by (cases e)
  obtain s' where "on_event v s = (s', True)" using Cons.prems(2) by (metis prod.collapse)
  with e Cons show ?case by simp
qed simp

text \<open>
  Events reach the caller of a subscription in order, each once, behind the answer that accepts it and between lines that cannot be
  read, until the service hangs up, which is an error.
\<close>

theorem events_reach_the_caller:
  assumes "\<forall>l v. (l, v) \<in> set es \<longrightarrow> from_str (trim l) = Some v \<and> obj_get ''id'' v = None" "\<forall>v s. snd (on_event v s)"
    and "from_str (trim ok) = Some answer" "obj_get ''id'' answer \<noteq> None" "obj_get ''ok'' answer = Some (JBool True)"
    and "from_str (trim junk) = None"
  shows "control_stream from_str limited on_event (GotLine ok # GotLine junk # map (GotLine \<circ> fst) es @ [GotEnd]) s
       = (Some (Inl ''connection closed by the service''), fold (\<lambda>(l, v) s. fst (on_event v s)) es s)"
  using stream_events [OF assms(1,2), of limited "[GotEnd]" s] assms(3-6) by auto

text \<open>
  The events of containers carry the identifier of the container in the field that marks an answer: the caller is never
  given one, whatever it does.
\<close>

theorem container_events_dropped:
  "from_str (trim l) = Some (container_event_json action i name) \<Longrightarrow>
     control_stream from_str limited on_event (GotLine l # ws) s = control_stream from_str limited on_event ws s"
  by (simp add: container_event_json_def)

text \<open>A detected project has the first file in the order of preference that the folder holds, and none is detected only without any.\<close>

theorem compose_file_detected:
  "detect is_dir d dir = Inr (Some p) \<Longrightarrow>
     \<exists>k < length COMPOSE_FILES. cp_file p = COMPOSE_FILES ! k \<and> d (join_path dir (COMPOSE_FILES ! k)) \<noteq> None
       \<and> (\<forall>j < k. d (join_path dir (COMPOSE_FILES ! j)) = None)"
  unfolding detect_def by (auto simp: find_Some_iff split: if_splits)

text \<open>The default name of a project has only lower-case letters, digits, hyphens and underscores.\<close>

theorem default_name_well_formed: "list_all (\<lambda>c. name_char c \<and> ascii_lower c = c) (default_name dir)"
proof -
  have "list_all (\<lambda>c. name_char c \<and> ascii_lower c = c) (lower_kept s)" for s
  proof (induction s rule: lower_kept.induct)
    case (1 s)
    show ?case
    proof (cases s)
      case Nil
      then show ?thesis by (simp add: lower_kept.simps)
    next
      case (Cons c cs)
      have "name_char (CHR ''k'') \<and> ascii_lower (CHR ''k'') = CHR ''k''" "name_char (CHR ''i'') \<and> ascii_lower (CHR ''i'') = CHR ''i''"
        by (simp_all add: name_char_def solon_defs)
      with 1 Cons show ?thesis by (subst lower_kept.simps) auto
    qed
  qed
  then show ?thesis by (simp add: default_name_def split: option.split)
qed

text \<open>Two volumes of a project can have one suffix: a copy then has one destination for both, and only the first is copied.\<close>

lemma volume_suffixes_collide: "volume_suffix p (p @ ''_'' @ s) = s \<and> (\<not> prefix (p @ ''_'') s \<longrightarrow> volume_suffix p s = s)"
  by (simp add: volume_suffix_def)

end
