(* ===== verification/Client_Backup.thy ===== *)
theory Client_Backup
  imports Client_Control
begin

text \<open>
  Backup and restoration of a Compose project (\<open>crates/solon-client/src/backup.rs\<close>).  The \<open>zip\<close> crate, the JSON of the
  manifest, the outcome of file operations and the machine that runs commands are parameters; the machine shares the files of Windows, so a
  command changes the disk as well as its own state.
\<close>

section \<open>Data\<close>

definition MANIFEST :: string where "MANIFEST = ''solon-backup.json''"
definition VOLUMES_DIR :: string where "VOLUMES_DIR = ''volumes''"

record volume_entry =
  ve_name :: string
  ve_suffix :: string
  ve_file :: string

record backup_manifest =
  bm_format :: nat
  bm_project :: string
  bm_compose_file :: string
  bm_created :: nat
  bm_version :: string
  bm_volumes :: "volume_entry list"

record backup_report =
  br_path :: string
  br_volumes :: nat
  br_bytes :: nat

record restore_report =
  rr_dir :: string
  rr_project :: string
  rr_volumes :: nat

type_synonym entries = "(string \<times> bytes) list"

text \<open>
  Answers of Windows and of the libraries: creating and writing files and folders, the time, the temporary folder and its share,
  writing an entry of an archive and closing it (or what is left when it is not closed), reading an archive and its entries.
\<close>

record backup_env =
  bk_is_dir :: "string \<Rightarrow> bool"
  bk_make_dirs :: "string \<Rightarrow> string + unit"
  bk_create :: "string \<Rightarrow> string + unit"
  bk_missing :: string
  bk_clear :: "string \<Rightarrow> string + unit"
  bk_temp_dir :: string
  bk_pid :: nat
  bk_share :: "string \<Rightarrow> string + string"
  bk_now :: nat
  bk_start :: "string \<Rightarrow> string + unit"
  bk_finish :: "string + unit"
  bk_unfinished :: bytes
  bk_zip :: "entries \<Rightarrow> bytes"
  bk_unzip :: "bytes \<Rightarrow> string + entries"
  bk_index :: "string \<Rightarrow> string + unit"
  bk_entry :: "string \<Rightarrow> string + unit"
  bk_to_string :: "backup_manifest \<Rightarrow> string"
  bk_from_str :: "string \<Rightarrow> string + backup_manifest"

type_synonym 'm world = "disk \<times> 'm"

section \<open>The temporary folder\<close>

definition inside :: "string \<Rightarrow> string \<Rightarrow> bool" where
  "inside dir p \<longleftrightarrow> prefix (dir @ [CHR 0x5C]) p"

definition remove_dir_all :: "string \<Rightarrow> disk \<Rightarrow> disk" where
  "remove_dir_all dir d = (\<lambda>p. if inside dir p then None else d p)"

definition shared_temp :: "backup_env \<Rightarrow> string \<Rightarrow> disk \<Rightarrow> (string + string \<times> string) \<times> disk" where
  "shared_temp env pre d =
     (let dir = join_path (bk_temp_dir env) (pre @ ''-'' @ dec_of_nat (bk_pid env))
      in (case bk_clear env dir of
            Inl e \<Rightarrow> (Inl e, d)
          | Inr _ \<Rightarrow>
              let d = remove_dir_all dir d
              in (case bk_make_dirs env dir of
                    Inl e \<Rightarrow> (Inl e, d)
                  | Inr _ \<Rightarrow> (case bk_share env dir of Inl e \<Rightarrow> (Inl e, d) | Inr guest \<Rightarrow> (Inr (dir, guest), d)))))"

section \<open>Backup\<close>

definition project_volumes :: "'w runner \<Rightarrow> string \<Rightarrow> 'w \<Rightarrow> (string + string list) \<times> 'w" where
  "project_volumes run p w =
     (case run (volumes_command p) 30 w of
        (Inl e, w) \<Rightarrow> (Inl e, w)
      | (Inr (rc, out, err), w) \<Rightarrow>
          (if rc \<noteq> 0 then Inl (''docker volume ls: '' @ trim err) else Inr (listed_names out), w))"

definition archive_command :: "string \<Rightarrow> string \<Rightarrow> string \<Rightarrow> string" where
  "archive_command v guest_tmp sfx =
     (let n = client_quote v
      in ''test -d /var/lib/docker/volumes/'' @ n @ ''/_data && tar czf '' @ client_quote guest_tmp @ ''/'' @ client_quote sfx
         @ ''.tgz -C /var/lib/docker/volumes/'' @ n @ ''/_data .'')"

definition volume_entry_of :: "string \<Rightarrow> string \<Rightarrow> volume_entry" where
  "volume_entry_of p v =
     (let sfx = volume_suffix p v
      in \<lparr>ve_name = v, ve_suffix = sfx, ve_file = VOLUMES_DIR @ ''/'' @ sfx @ ''.tgz''\<rparr>)"

fun archive_volumes :: "'w runner \<Rightarrow> string \<Rightarrow> string \<Rightarrow> string list \<Rightarrow> 'w \<Rightarrow> (string + volume_entry list) \<times> 'w" where
  "archive_volumes run guest_tmp p [] w = (Inr [], w)"
| "archive_volumes run guest_tmp p (v # vs) w =
     (case run (archive_command v guest_tmp (volume_suffix p v)) 3600 w of
        (Inl e, w) \<Rightarrow> (Inl e, w)
      | (Inr (rc, out, err), w) \<Rightarrow>
          if rc \<noteq> 0 then (Inl (''archiving volume '' @ v @ '': '' @ trim err), w)
          else (case archive_volumes run guest_tmp p vs w of
                  (Inl e, w) \<Rightarrow> (Inl e, w)
                | (Inr es, w) \<Rightarrow> (Inr (volume_entry_of p v # es), w)))"

definition EXTRAS :: "string list" where
  "EXTRAS = [''.env'', ''compose.override.yaml'', ''compose.override.yml'', ''docker-compose.override.yml'']"

definition project_files :: "disk \<Rightarrow> string \<Rightarrow> string \<Rightarrow> string list" where
  "project_files d dir compose_file =
     fold (\<lambda>x fs. if d (join_path dir x) \<noteq> None \<and> x \<notin> set fs then fs @ [x] else fs) EXTRAS [compose_file]"

fun zip_files :: "backup_env \<Rightarrow> disk \<Rightarrow> (string \<times> string \<times> string) list \<Rightarrow> string + entries" where
  "zip_files env d [] = Inr []"
| "zip_files env d ((name, path, shown) # fs) =
     (case d path of
        None \<Rightarrow> Inl (shown @ '' : '' @ bk_missing env)
      | Some bytes \<Rightarrow>
          (case bk_start env name of
             Inl e \<Rightarrow> Inl e
           | Inr _ \<Rightarrow> (case zip_files env d fs of Inl e \<Rightarrow> Inl e | Inr es \<Rightarrow> Inr ((name, bytes) # es))))"

definition sources :: "string \<Rightarrow> string \<Rightarrow> string list \<Rightarrow> volume_entry list \<Rightarrow> (string \<times> string \<times> string) list" where
  "sources dir tmp fs vs =
     map (\<lambda>f. (''project/'' @ f, join_path dir f, f)) fs
     @ map (\<lambda>v. let src = join_path tmp (ve_suffix v @ ''.tgz'') in (ve_file v, src, src)) vs"

definition write_zip :: "backup_env \<Rightarrow> string \<Rightarrow> string \<Rightarrow> string \<Rightarrow> backup_manifest \<Rightarrow> disk \<Rightarrow> (string + backup_report) \<times> disk" where
  "write_zip env dir tmp dest m d =
     (case bk_create env dest of
        Inl e \<Rightarrow> (Inl (dest @ '' : '' @ e), d)
      | Inr _ \<Rightarrow>
     (case bk_start env MANIFEST of
        Inl e \<Rightarrow> (Inl e, d(dest \<mapsto> bk_unfinished env))
      | Inr _ \<Rightarrow>
     (case zip_files env d (sources dir tmp (project_files d dir (bm_compose_file m)) (bm_volumes m)) of
        Inl e \<Rightarrow> (Inl e, d(dest \<mapsto> bk_unfinished env))
      | Inr es \<Rightarrow>
     (case bk_finish env of
        Inl e \<Rightarrow> (Inl e, d(dest \<mapsto> bk_unfinished env))
      | Inr _ \<Rightarrow>
          let bytes = bk_zip env ((MANIFEST, bk_to_string env m) # es)
          in (Inr \<lparr>br_path = dest, br_volumes = length (bm_volumes m), br_bytes = length bytes\<rparr>, d(dest \<mapsto> bytes))))))"

definition backup ::
  "backup_env \<Rightarrow> 'm world runner \<Rightarrow> string \<Rightarrow> string \<Rightarrow> string \<Rightarrow> string \<Rightarrow> bool \<Rightarrow> 'm world \<Rightarrow> (string + backup_report) \<times> 'm world" where
  "backup env run dir p dest solon_version overwrite w =
     (if \<not> overwrite \<and> (fst w dest \<noteq> None \<or> bk_is_dir env dest)
      then (Inl (dest @ '' already exists: choose another name or pass --force''), w)
      else (case detect (bk_is_dir env) (fst w) dir of
              Inl e \<Rightarrow> (Inl e, w)
            | Inr None \<Rightarrow> (Inl (''no Compose file in '' @ dir), w)
            | Inr (Some detected) \<Rightarrow>
           (case project_volumes run p w of
              (Inl e, w) \<Rightarrow> (Inl e, w)
            | (Inr volumes, w) \<Rightarrow>
           (case shared_temp env ''solon-backup'' (fst w) of
              (Inl e, d) \<Rightarrow> (Inl e, d, snd w)
            | (Inr (tmp, guest_tmp), d) \<Rightarrow>
                let (res, w) =
                  (case archive_volumes run guest_tmp p volumes (d, snd w) of
                     (Inl e, w) \<Rightarrow> (Inl e, w)
                   | (Inr es, w) \<Rightarrow>
                       (case write_zip env dir tmp dest
                               \<lparr>bm_format = 1, bm_project = p, bm_compose_file = cp_file detected, bm_created = bk_now env,
                                bm_version = solon_version, bm_volumes = es\<rparr> (fst w) of
                          (res, d) \<Rightarrow> (res, d, snd w)))
                in (res, remove_dir_all tmp (fst w), snd w)))))"

section \<open>Restoration\<close>

definition NOT_A_BACKUP :: string where
  "NOT_A_BACKUP = ''this file is not a Solon project backup (no solon-backup.json)''"

definition read_manifest :: "backup_env \<Rightarrow> entries \<Rightarrow> string + backup_manifest" where
  "read_manifest env es =
     (case map_of es MANIFEST of
        None \<Rightarrow> Inl NOT_A_BACKUP
      | Some t \<Rightarrow> (case bk_entry env MANIFEST of Inl e \<Rightarrow> Inl e | Inr _ \<Rightarrow> bk_from_str env t))"

definition open_archive :: "backup_env \<Rightarrow> string \<Rightarrow> disk \<Rightarrow> string + entries \<times> backup_manifest" where
  "open_archive env zip_path d =
     (case d zip_path of
        None \<Rightarrow> Inl (zip_path @ '' : '' @ bk_missing env)
      | Some bytes \<Rightarrow>
          (case bk_unzip env bytes of
             Inl e \<Rightarrow> Inl e
           | Inr es \<Rightarrow> (case read_manifest env es of Inl e \<Rightarrow> Inl e | Inr m \<Rightarrow> Inr (es, m))))"

text \<open>The preview of an archive.\<close>

definition backup_info :: "backup_env \<Rightarrow> string \<Rightarrow> disk \<Rightarrow> string + json" where
  "backup_info env zip_path d =
     (case open_archive env zip_path d of
        Inl e \<Rightarrow> Inl e
      | Inr (es, m) \<Rightarrow>
          Inr (JObject [(''project'', JString (bm_project m)), (''compose_file'', JString (bm_compose_file m)),
            (''created_unix_ms'', JNumber (dec_of_nat (bm_created m))), (''solon_version'', JString (bm_version m)),
            (''volumes'', JArray (map (JString \<circ> ve_suffix) (bm_volumes m)))]))"

definition project_entry :: "string \<Rightarrow> string option" where
  "project_entry name =
     (if prefix ''project/'' name
      then let rel = drop 8 name in if contains_sub ''..'' rel \<or> CHR ''/'' \<in> set rel then None else Some rel
      else None)"

fun restore_files :: "backup_env \<Rightarrow> string \<Rightarrow> string \<Rightarrow> entries \<Rightarrow> string \<Rightarrow> disk \<Rightarrow> (string + string) \<times> disk" where
  "restore_files env target compose_file [] compose_text d = (Inr compose_text, d)"
| "restore_files env target compose_file ((name, bytes) # es) compose_text d =
     (case bk_index env name of Inl e \<Rightarrow> (Inl e, d) | Inr _ \<Rightarrow>
     (case project_entry name of
        None \<Rightarrow> restore_files env target compose_file es compose_text d
      | Some rel \<Rightarrow>
          (case bk_entry env name of
             Inl e \<Rightarrow> (Inl e, d)
           | Inr _ \<Rightarrow>
               (case bk_create env (join_path target rel) of
                  Inl e \<Rightarrow> (Inl (rel @ '' : '' @ e), d)
                | Inr _ \<Rightarrow>
                    restore_files env target compose_file es
                      (if rel = compose_file then from_utf8_lossy bytes else compose_text) (d(join_path target rel \<mapsto> bytes))))))"

fun extract_volumes :: "backup_env \<Rightarrow> string \<Rightarrow> entries \<Rightarrow> volume_entry list \<Rightarrow> disk \<Rightarrow> (string + unit) \<times> disk" where
  "extract_volumes env tmp es [] d = (Inr (), d)"
| "extract_volumes env tmp es (v # vs) d =
     (case map_of es (ve_file v) of
        None \<Rightarrow> (Inl (ve_file v @ '' missing from the backup''), d)
      | Some bytes \<Rightarrow>
          let local = join_path tmp (ve_suffix v @ ''.tgz'')
          in (case bk_create env local of
                Inl e \<Rightarrow> (Inl e, d)
              | Inr _ \<Rightarrow>
                  (case bk_entry env (ve_file v) of
                     Inl e \<Rightarrow> (Inl e, d(local \<mapsto> []))
                   | Inr _ \<Rightarrow> extract_volumes env tmp es vs (d(local \<mapsto> bytes)))))"

definition restore_command :: "string \<Rightarrow> string \<Rightarrow> string \<Rightarrow> string \<Rightarrow> string" where
  "restore_command p sfx ver guest_tmp =
     (let n = client_quote (p @ ''_'' @ sfx); s = client_quote sfx
      in ''docker volume inspect '' @ n @ '' >/dev/null 2>&1 && echo EXISTS || (docker volume create --label com.docker.compose.project='' @ client_quote p
         @ '' --label com.docker.compose.volume='' @ s @ '' --label com.docker.compose.version='' @ client_quote (if ver = [] then ''2.0.0'' else ver)
         @ '' '' @ n @ '' >/dev/null && tar xzf '' @ client_quote guest_tmp @ ''/'' @ s @ ''.tgz -C /var/lib/docker/volumes/'' @ n @ ''/_data)'')"

fun restore_volumes :: "'w runner \<Rightarrow> string \<Rightarrow> string \<Rightarrow> string \<Rightarrow> volume_entry list \<Rightarrow> nat \<Rightarrow> 'w \<Rightarrow> (string + nat) \<times> 'w" where
  "restore_volumes run p ver guest_tmp [] k w = (Inr k, w)"
| "restore_volumes run p ver guest_tmp (v # vs) k w =
     (case run (restore_command p (ve_suffix v) ver guest_tmp) 3600 w of
        (Inl e, w) \<Rightarrow> (Inl e, w)
      | (Inr (rc, out, err), w) \<Rightarrow>
          if contains_sub ''EXISTS'' out
            then (Inl (''volume '' @ p @ ''_'' @ ve_suffix v @ '' already exists: remove it first or restore into a folder with another name''), w)
          else if rc \<noteq> 0 then (Inl (''restore of volume '' @ p @ ''_'' @ ve_suffix v @ '': '' @ trim err), w)
          else restore_volumes run p ver guest_tmp vs (Suc k) w)"

definition run_volumes :: "'w runner \<Rightarrow> string \<Rightarrow> string \<Rightarrow> volume_entry list \<Rightarrow> 'w \<Rightarrow> (string + nat) \<times> 'w" where
  "run_volumes run p guest_tmp vs w =
     (case run VERSION_COMMAND 30 w of
        (Inl e, w) \<Rightarrow> (Inl e, w)
      | (Inr (_, ver, _), w) \<Rightarrow> restore_volumes run p (trim ver) guest_tmp vs 0 w)"

definition restore :: "backup_env \<Rightarrow> 'm world runner \<Rightarrow> string \<Rightarrow> string \<Rightarrow> 'm world \<Rightarrow> (string + restore_report) \<times> 'm world" where
  "restore env run zip_path target w =
     (case bk_make_dirs env target of
        Inl e \<Rightarrow> (Inl (target @ '' : '' @ e), w)
      | Inr _ \<Rightarrow>
     (case find (\<lambda>f. fst w (join_path target f) \<noteq> None) COMPOSE_FILES of
        Some f \<Rightarrow> (Inl (target @ '' already contains '' @ f @ '': choose an empty folder''), w)
      | None \<Rightarrow>
     (case open_archive env zip_path (fst w) of
        Inl e \<Rightarrow> (Inl e, w)
      | Inr (es, m) \<Rightarrow>
     (case restore_files env target (bm_compose_file m) es [] (fst w) of
        (Inl e, d) \<Rightarrow> (Inl e, d, snd w)
      | (Inr compose_text, d) \<Rightarrow>
          let p = compose_name target compose_text
          in if bm_volumes m = [] then (Inr \<lparr>rr_dir = target, rr_project = p, rr_volumes = 0\<rparr>, d, snd w)
             else (case shared_temp env ''solon-restore'' d of
                     (Inl e, d) \<Rightarrow> (Inl e, d, snd w)
                   | (Inr (tmp, guest_tmp), d) \<Rightarrow>
                       (case extract_volumes env tmp es (bm_volumes m) d of
                          (Inl e, d) \<Rightarrow> (Inl e, remove_dir_all tmp d, snd w)
                        | (Inr _, d) \<Rightarrow>
                            (case run_volumes run p guest_tmp (bm_volumes m) (d, snd w) of
                               (res, w) \<Rightarrow>
                                 ((case res of Inl e \<Rightarrow> Inl e | Inr k \<Rightarrow> Inr \<lparr>rr_dir = target, rr_project = p, rr_volumes = k\<rparr>),
                                  remove_dir_all tmp (fst w), snd w))))))))"

section \<open>Lemmas\<close>

text \<open>Names that a folder holds as they are, and file operations that succeed.\<close>

definition plain_name :: "string \<Rightarrow> bool" where
  "plain_name n \<longleftrightarrow> n \<noteq> [] \<and> \<not> list_ex is_sep n \<and> CHR '':'' \<notin> set n"

definition flawless :: "backup_env \<Rightarrow> bool" where
  "flawless env \<longleftrightarrow> (\<forall>p. bk_create env p = Inr ()) \<and> (\<forall>n. bk_index env n = Inr ()) \<and> (\<forall>n. bk_entry env n = Inr ())"

lemma join_plain:
  assumes "plain_name n"
  shows "join_path d n = d @ (if d = [] \<or> is_sep (last d) then [] else [CHR 0x5C]) @ n"
proof -
  from assms obtain c cs where n: "n = c # cs" "\<not> is_sep c" by (cases n) (auto simp: plain_name_def)
  have "\<not> has_drive n" using n(1) assms by (cases cs) (auto simp: has_drive_def plain_name_def)
  with n show ?thesis by (simp add: join_path_def)
qed

lemma join_plain_inject: "plain_name a \<Longrightarrow> plain_name b \<Longrightarrow> join_path d a = join_path d b \<longleftrightarrow> a = b"
  by (simp add: join_plain)

lemma zip_files_ok:
  "zip_files env d fs = Inr es \<Longrightarrow> es = map (\<lambda>(n, p, _). (n, the (d p))) fs \<and> (\<forall>(n, p, x) \<in> set fs. d p \<noteq> None)"
  by (induction env d fs arbitrary: es rule: zip_files.induct) (auto split: option.splits sum.splits)

definition project_part :: "entries \<Rightarrow> (string \<times> bytes) list" where
  "project_part es = List.map_filter (\<lambda>(n, b). map_option (\<lambda>r. (r, b)) (project_entry n)) es"

lemma restore_files_part:
  "flawless env \<Longrightarrow> restore_files env target cf es t d
     = (Inr (fold (\<lambda>(r, b) t. if r = cf then from_utf8_lossy b else t) (project_part es) t),
        fold (\<lambda>(r, b) d. d(join_path target r \<mapsto> b)) (project_part es) d)"
proof (induction es arbitrary: t d)
  case (Cons e es)
  obtain n b where e: "e = (n, b)" by (cases e)
  with Cons show ?case
    by (cases "project_entry n") (simp_all add: flawless_def project_part_def List.map_filter_simps del: fun_upd_apply)
qed (simp add: project_part_def List.map_filter_simps)

text \<open>Files written one after the other at different places are all there, and the other places are as before.\<close>

lemma fold_update_notin: "p \<notin> k ` set xs \<Longrightarrow> fold (\<lambda>x d. d(k x \<mapsto> v x)) xs d p = d p"
  by (induction xs arbitrary: d) auto

lemma fold_update_in: "distinct (map k xs) \<Longrightarrow> x \<in> set xs \<Longrightarrow> fold (\<lambda>x d. d(k x \<mapsto> v x)) xs d (k x) = Some (v x)"
  by (induction xs arbitrary: d) (auto simp: fold_update_notin)

lemma extract_all:
  assumes "flawless env" "\<forall>v \<in> set vs. map_of es (ve_file v) \<noteq> None"
  shows "extract_volumes env tmp es vs d
     = (Inr (), fold (\<lambda>v d. d(join_path tmp (ve_suffix v @ ''.tgz'') \<mapsto> the (map_of es (ve_file v)))) vs d)"
  using assms by (induction vs arbitrary: d) (auto simp: flawless_def Let_def)

lemma project_files_shape:
  "distinct (project_files d dir cf) \<and> set (project_files d dir cf) \<subseteq> insert cf (set EXTRAS) \<and> cf \<in> set (project_files d dir cf)"
proof -
  have "distinct (fold (\<lambda>x fs. if P x \<and> x \<notin> set fs then fs @ [x] else fs) xs fs)
      \<and> set (fold (\<lambda>x fs. if P x \<and> x \<notin> set fs then fs @ [x] else fs) xs fs) \<subseteq> set fs \<union> set xs
      \<and> set fs \<subseteq> set (fold (\<lambda>x fs. if P x \<and> x \<notin> set fs then fs @ [x] else fs) xs fs)"
    if "distinct fs" for P and xs fs :: "string list"
    using that
  proof (induction xs arbitrary: fs)
    case (Cons x xs)
    from Cons.IH [of "if P x \<and> x \<notin> set fs then fs @ [x] else fs"] Cons.prems show ?case by (auto split: if_splits)
  qed simp
  from this [of "[cf]" "\<lambda>x. d (join_path dir x) \<noteq> None" EXTRAS] show ?thesis unfolding project_files_def by simp
qed

lemma known_file_plain:
  assumes "f \<in> set (COMPOSE_FILES @ EXTRAS)"
  shows "plain_name f" "project_entry (''project/'' @ f) = Some f"
  using assms by (auto simp: COMPOSE_FILES_def EXTRAS_def plain_name_def is_sep_def project_entry_def contains_sub_def Let_def)

text \<open>The entries of a written archive.\<close>

definition archive_entries :: "backup_env \<Rightarrow> string \<Rightarrow> string \<Rightarrow> backup_manifest \<Rightarrow> disk \<Rightarrow> entries" where
  "archive_entries env dir tmp m d =
     (MANIFEST, bk_to_string env m)
     # map (\<lambda>f. (''project/'' @ f, the (d (join_path dir f)))) (project_files d dir (bm_compose_file m))
     @ map (\<lambda>v. (ve_file v, the (d (join_path tmp (ve_suffix v @ ''.tgz''))))) (bm_volumes m)"

lemma write_zip_ok:
  assumes "write_zip env dir tmp dest m d = (Inr rep, d')"
  shows "d' = d(dest \<mapsto> bk_zip env (archive_entries env dir tmp m d))
     \<and> (\<forall>f \<in> set (project_files d dir (bm_compose_file m)). d (join_path dir f) \<noteq> None)
     \<and> (\<forall>v \<in> set (bm_volumes m). d (join_path tmp (ve_suffix v @ ''.tgz'')) \<noteq> None)"
proof -
  from assms obtain es where es: "zip_files env d (sources dir tmp (project_files d dir (bm_compose_file m)) (bm_volumes m)) = Inr es"
      and d': "d' = d(dest \<mapsto> bk_zip env ((MANIFEST, bk_to_string env m) # es))"
    by (auto simp: write_zip_def Let_def split: sum.splits)
  have n: "d p \<noteq> None" if "(a, p, x) \<in> set (sources dir tmp (project_files d dir (bm_compose_file m)) (bm_volumes m))" for a p x
    using zip_files_ok [OF es] that by blast
  have "d' = d(dest \<mapsto> bk_zip env (archive_entries env dir tmp m d))"
    using zip_files_ok [OF es] d' by (simp add: sources_def archive_entries_def Let_def comp_def split_def)
  moreover have "d (join_path dir f) \<noteq> None" if "f \<in> set (project_files d dir (bm_compose_file m))" for f
    using that by (intro n [of "''project/'' @ f" _ f]) (simp add: sources_def)
  moreover have "d (join_path tmp (ve_suffix v @ ''.tgz'')) \<noteq> None" if "v \<in> set (bm_volumes m)" for v
    using that by (intro n [of "ve_file v" _ "join_path tmp (ve_suffix v @ ''.tgz'')"]) (auto simp: sources_def Let_def)
  ultimately show ?thesis by blast
qed

lemma volume_file_not_project: "project_entry (VOLUMES_DIR @ x) = None" "VOLUMES_DIR @ x \<noteq> ''project/'' @ y"
  by (simp_all add: project_entry_def VOLUMES_DIR_def)

lemma project_part_archive:
  assumes "bm_compose_file m \<in> set COMPOSE_FILES" "bm_volumes m = map (volume_entry_of p) vs"
  shows "project_part (archive_entries env dir tmp m d)
     = map (\<lambda>f. (f, the (d (join_path dir f)))) (project_files d dir (bm_compose_file m))"
proof -
  have app: "project_part (xs @ ys) = project_part xs @ project_part ys" for xs ys
    by (simp add: project_part_def List.map_filter_def)
  have files: "project_part (map (\<lambda>f. (''project/'' @ f, g f)) fs) = map (\<lambda>f. (f, g f)) fs"
    if "set fs \<subseteq> set (COMPOSE_FILES @ EXTRAS)" for fs and g :: "string \<Rightarrow> bytes"
    using that by (induction fs) (auto simp: project_part_def List.map_filter_simps known_file_plain(2) simp del: append_Cons append_Nil set_append)
  have vols: "project_part (map (\<lambda>v. (ve_file v, g v)) (map (volume_entry_of p) vs)) = []" for g :: "volume_entry \<Rightarrow> bytes"
    by (induction vs) (simp_all add: project_part_def List.map_filter_simps volume_entry_of_def Let_def volume_file_not_project)
  have m: "project_part ((MANIFEST, t) # xs) = project_part xs" for t xs
    by (simp add: project_part_def List.map_filter_simps MANIFEST_def project_entry_def)
  have "set (project_files d dir (bm_compose_file m)) \<subseteq> set (COMPOSE_FILES @ EXTRAS)"
    using project_files_shape [of d dir "bm_compose_file m"] assms(1) by auto
  then show ?thesis
    unfolding archive_entries_def assms(2) m app vols by (simp only: files append_Nil2)
qed

lemma archive_distinct:
  assumes "bm_volumes m = map (volume_entry_of p) vs" "distinct (map (volume_suffix p) vs)"
  shows "distinct (map fst (archive_entries env dir tmp m d))"
proof -
  have v: "distinct (map (ve_file \<circ> volume_entry_of p) vs)"
    using assms(2) by (simp add: distinct_map inj_on_def volume_entry_of_def Let_def comp_def)
  have f: "distinct (map (\<lambda>x. ''project/'' @ x) (project_files d dir (bm_compose_file m)))"
    using project_files_shape by (simp add: distinct_map inj_on_def)
  from v f show ?thesis
    by (auto simp: archive_entries_def assms(1) comp_def volume_entry_of_def Let_def MANIFEST_def VOLUMES_DIR_def)
qed

lemma suffix_file_plain: "plain_name x \<Longrightarrow> plain_name (x @ ''.tgz'')"
  by (simp add: plain_name_def is_sep_def)

section \<open>Properties\<close>

text \<open>
  C40. What is backed up is restored: when the archive of a project is written, it can be opened anywhere, its manifest is the one
  written, the restoration puts the Compose file and the other saved files of the project into the chosen folder with the bytes they
  had and nothing else there, the text the project's name is read from is the one of the Compose file, and the archive of every
  volume is put into the temporary folder with the bytes the machine had made.
\<close>

theorem backup_restored:
  assumes "flawless env" "write_zip env dir tmp dest m d = (Inr rep, d1)"
    and "bm_compose_file m \<in> set COMPOSE_FILES" "bm_volumes m = map (volume_entry_of p) vs"
    and "distinct (map (volume_suffix p) vs)" "list_all (\<lambda>v. plain_name (volume_suffix p v)) vs"
    and "d2 zf = d1 dest"
    and "\<forall>es. es = archive_entries env dir tmp m d \<and> distinct (map fst es) \<longrightarrow> bk_unzip env (bk_zip env es) = Inr es"
    and "bk_from_str env (bk_to_string env m) = Inr m"
  shows "\<exists>es d3 d4. open_archive env zf d2 = Inr (es, m)
     \<and> restore_files env target (bm_compose_file m) es [] d2 = (Inr (from_utf8_lossy (the (d (join_path dir (bm_compose_file m))))), d3)
     \<and> (\<forall>f \<in> set (project_files d dir (bm_compose_file m)). d3 (join_path target f) = d (join_path dir f))
     \<and> (\<forall>q. q \<notin> join_path target ` set (project_files d dir (bm_compose_file m)) \<longrightarrow> d3 q = d2 q)
     \<and> extract_volumes env tmp' es (bm_volumes m) d3 = (Inr (), d4)
     \<and> (\<forall>v \<in> set (bm_volumes m). d4 (join_path tmp' (ve_suffix v @ ''.tgz'')) = d (join_path tmp (ve_suffix v @ ''.tgz'')))"
proof -
  let ?cf = "bm_compose_file m"
  let ?fs = "project_files d dir ?cf" and ?es = "archive_entries env dir tmp m d"
  note z = write_zip_ok [OF assms(2)]
  note ds = archive_distinct [OF assms(4,5), of env dir tmp d]
  have "read_manifest env ?es = Inr m"
    using assms(1,9) by (simp add: read_manifest_def archive_entries_def flawless_def)
  moreover have "d2 zf = Some (bk_zip env ?es)" "bk_unzip env (bk_zip env ?es) = Inr ?es"
    using assms(7,8) z ds by auto
  ultimately have o: "open_archive env zf d2 = Inr (?es, m)" by (simp add: open_archive_def)
  define d3 where "d3 = fold (\<lambda>f d'. d'(join_path target f \<mapsto> the (d (join_path dir f)))) ?fs d2"
  have known: "f \<in> set (COMPOSE_FILES @ EXTRAS)" if "f \<in> set ?fs" for f
    using that project_files_shape [of d dir ?cf] assms(3) by auto
  then have inj: "distinct (map (join_path target) ?fs)"
    using project_files_shape [of d dir ?cf] known_file_plain(1) by (auto simp: distinct_map inj_on_def join_plain_inject)
  have "fold (\<lambda>f t. if f = cf then from_utf8_lossy (g f) else t) fs t = (if cf \<in> set fs then from_utf8_lossy (g cf) else t)"
    for fs cf t and g :: "string \<Rightarrow> bytes" by (induction fs arbitrary: t) auto
  then have r: "restore_files env target ?cf ?es [] d2 = (Inr (from_utf8_lossy (the (d (join_path dir ?cf)))), d3)"
    using project_files_shape [of d dir ?cf]
    by (simp add: restore_files_part [OF assms(1)] project_part_archive [OF assms(3,4)] fold_map comp_def d3_def)
  have f3: "d3 (join_path target f) = d (join_path dir f)" if "f \<in> set ?fs" for f
    using z that fold_update_in [OF inj that, of "\<lambda>f. the (d (join_path dir f))" d2] by (auto simp: d3_def)
  have u3: "d3 q = d2 q" if "q \<notin> join_path target ` set ?fs" for q
    using that fold_update_notin [of q "join_path target" ?fs "\<lambda>f. the (d (join_path dir f))" d2] by (simp add: d3_def)
  have mo: "map_of ?es (ve_file v) = Some (the (d (join_path tmp (ve_suffix v @ ''.tgz''))))" if "v \<in> set (bm_volumes m)" for v
    using that by (intro map_of_is_SomeI [OF ds]) (auto simp: archive_entries_def)
  let ?k = "\<lambda>v. join_path tmp' (ve_suffix v @ ''.tgz'')"
  have "distinct (map ?k (bm_volumes m))"
    using assms(5,6) suffix_file_plain
    by (auto simp: assms(4) distinct_map inj_on_def list_all_iff volume_entry_of_def Let_def comp_def join_plain_inject)
  note v4 = fold_update_in [OF this, of _ "\<lambda>v. the (map_of ?es (ve_file v))" d3]
  show ?thesis
    using o r f3 u3 extract_all [OF assms(1), of "bm_volumes m" ?es tmp' d3] mo v4 z
    by (intro exI [of _ ?es] exI [of _ d3] exI conjI) auto
qed

definition sample_backup :: "entries \<Rightarrow> backup_manifest \<Rightarrow> backup_env" where
  "sample_backup es m = \<lparr>bk_is_dir = (\<lambda>p. True), bk_make_dirs = (\<lambda>p. Inr ()), bk_create = (\<lambda>p. Inr ()), bk_missing = [], bk_clear = (\<lambda>p. Inr ()), bk_temp_dir = ''T:'',
     bk_pid = 7, bk_share = (\<lambda>p. Inr ''/t''), bk_now = 0, bk_start = (\<lambda>n. Inr ()), bk_finish = Inr (), bk_unfinished = [], bk_zip = (\<lambda>es. ''PK''),
     bk_unzip = (\<lambda>b. Inr es), bk_index = (\<lambda>n. Inr ()), bk_entry = (\<lambda>n. Inr ()), bk_to_string = (\<lambda>m. ''{}''), bk_from_str = (\<lambda>t. Inr m)\<rparr>"

definition sample_manifest :: backup_manifest where
  "sample_manifest = \<lparr>bm_format = 1, bm_project = ''p'', bm_compose_file = ''compose.yaml'', bm_created = 0, bm_version = [],
     bm_volumes = [volume_entry_of ''p'' ''p_db'']\<rparr>"

definition sample_disk :: disk where
  "sample_disk = [''C:/p/compose.yaml'' \<mapsto> ''name: p'', ''T:/db.tgz'' \<mapsto> ''tar'']"

theorem backup_restored_witness:
  "\<exists>es d3 d4. restore_files (sample_backup es sample_manifest) ''E:/'' ''compose.yaml'' es [] [''z'' \<mapsto> ''PK''] = (Inr (from_utf8_lossy ''name: p''), d3)
     \<and> d3 ''E:/compose.yaml'' = Some ''name: p'' \<and> extract_volumes (sample_backup es sample_manifest) ''U:/'' es (bm_volumes sample_manifest) d3 = (Inr (), d4)
     \<and> d4 ''U:/db.tgz'' = Some ''tar''"
proof -
  let ?es = "archive_entries (sample_backup [] sample_manifest) ''C:/p/'' ''T:/'' sample_manifest sample_disk"
  let ?env = "sample_backup ?es sample_manifest"
  have e: "archive_entries ?env ''C:/p/'' ''T:/'' sample_manifest sample_disk = ?es"
    by (simp add: archive_entries_def sample_backup_def)
  have j: "join_path x n = x @ n" if "plain_name n" "is_sep (last x)" for x n
    using that by (simp add: join_plain)
  have n: "plain_name ''compose.yaml''" "plain_name ''db.tgz''" "plain_name ''db''" "\<forall>x \<in> set EXTRAS. plain_name x"
    by (simp_all add: plain_name_def is_sep_def EXTRAS_def)
  have l: "is_sep (last ''C:/p/'')" "is_sep (last ''T:/'')" "is_sep (last ''E:/'')" "is_sep (last ''U:/'')" by (simp_all add: is_sep_def)
  have fl: "flawless ?env" by (simp add: flawless_def sample_backup_def)
  have fs: "project_files sample_disk ''C:/p/'' ''compose.yaml'' = [''compose.yaml'']"
    using n(4) by (simp add: project_files_def EXTRAS_def j is_sep_def sample_disk_def)
  have cf: "bm_compose_file sample_manifest = ''compose.yaml''" "bm_compose_file sample_manifest \<in> set COMPOSE_FILES"
    by (simp_all add: sample_manifest_def COMPOSE_FILES_def)
  have sx: "volume_suffix ''p'' ''p_db'' = ''db''" by (simp add: volume_suffix_def)
  have vs: "bm_volumes sample_manifest = map (volume_entry_of ''p'') [''p_db'']" by (simp add: sample_manifest_def)
  have ve: "ve_suffix (volume_entry_of ''p'' ''p_db'') = ''db''" by (simp add: volume_entry_of_def Let_def sx)
  have jn: "join_path ''C:/p/'' ''compose.yaml'' = ''C:/p/compose.yaml''" "join_path ''T:/'' ''db.tgz'' = ''T:/db.tgz''"
    "join_path ''E:/'' ''compose.yaml'' = ''E:/compose.yaml''" "join_path ''U:/'' ''db.tgz'' = ''U:/db.tgz''"
    using n l by (simp_all add: j)
  have sd: "sample_disk ''C:/p/compose.yaml'' = Some ''name: p''" "sample_disk ''T:/db.tgz'' = Some ''tar''" by (simp_all add: sample_disk_def)
  have st: "bk_start ?env x = Inr ()" "bk_create ?env x = Inr ()" "bk_finish ?env = Inr ()" for x by (simp_all add: sample_backup_def)
  have "\<exists>es. zip_files ?env sample_disk (sources ''C:/p/'' ''T:/'' [''compose.yaml''] (bm_volumes sample_manifest)) = Inr es"
    by (simp add: sources_def vs ve Let_def jn sd st)
  then obtain rep d1 where w: "write_zip ?env ''C:/p/'' ''T:/'' ''z'' sample_manifest sample_disk = (Inr rep, d1)"
    by (auto simp: write_zip_def cf(1) fs Let_def st)
  have z: "[''z'' \<mapsto> ''PK''] ''z'' = d1 ''z''" using write_zip_ok [OF w] by (simp add: sample_backup_def)
  note t = backup_restored [of ?env "''C:/p/''" "''T:/''" "''z''" sample_manifest sample_disk rep d1 "''p''" "[''p_db'']" "[''z'' \<mapsto> ''PK'']" "''z''"
      "''E:/''" "''U:/''", OF fl w cf(2) vs]
  have u: "\<forall>es. es = archive_entries ?env ''C:/p/'' ''T:/'' sample_manifest sample_disk \<and> distinct (map fst es) \<longrightarrow> bk_unzip ?env (bk_zip ?env es) = Inr es"
    unfolding e by (simp add: sample_backup_def)
  have m: "bk_from_str ?env (bk_to_string ?env sample_manifest) = Inr sample_manifest" by (simp add: sample_backup_def)
  from t [OF _ _ z u m] n(3) obtain es d3 d4 where
    "open_archive ?env ''z'' [''z'' \<mapsto> ''PK''] = Inr (es, sample_manifest)"
    "restore_files ?env ''E:/'' ''compose.yaml'' es [] [''z'' \<mapsto> ''PK''] = (Inr (from_utf8_lossy ''name: p''), d3)"
    "d3 ''E:/compose.yaml'' = Some ''name: p''" "extract_volumes ?env ''U:/'' es (bm_volumes sample_manifest) d3 = (Inr (), d4)"
    "d4 ''U:/db.tgz'' = Some ''tar''"
    by (auto simp: sx cf(1) fs jn sd vs ve)
  moreover from this(1) have "es = ?es"
    by (auto simp: open_archive_def sample_backup_def split: sum.splits)
  ultimately show ?thesis by blast
qed

text \<open>
  Whatever happens on the way, the files of a restoration are put directly into the chosen folder, provided the names in
  the archive have no backslash and no colon.
\<close>

theorem restored_files_stay_in_folder:
  assumes "restore_files env target cf es t d = (r, d')" "\<forall>n rel. n \<in> fst ` set es \<and> project_entry n = Some rel \<longrightarrow> plain_name rel" "d' q \<noteq> d q"
  shows "\<exists>rel. plain_name rel \<and> q = join_path target rel"
  using assms
proof (induction env target cf es t d rule: restore_files.induct)
  case (2 env target cf n b es t d)
  show ?case
  proof (cases "project_entry n")
    case None
    with 2 show ?thesis by (auto split: sum.splits)
  next
    case (Some rel)
    then have pl: "plain_name rel" using "2.prems"(2) by auto
    show ?thesis
    proof (cases "q = join_path target rel")
      case False
      with Some 2 show ?thesis by (auto simp del: fun_upd_apply simp: fun_upd_other split: sum.splits)
    qed (use pl in blast)
  qed
qed auto

text \<open>
  A name with a drive is neither refused nor kept in the folder: it is written where it says.
\<close>

lemma restored_file_escapes:
  assumes "flawless env"
  shows "snd (restore_files env target cf [(''project/C:'' @ CHR 0x5C # ''x.dll'', b)] t d) (''C:'' @ CHR 0x5C # ''x.dll'') = Some b"
proof -
  have "project_entry (''project/C:'' @ CHR 0x5C # ''x.dll'') = Some (''C:'' @ CHR 0x5C # ''x.dll'')"
    by (simp add: project_entry_def contains_sub_def Let_def)
  moreover have "join_path target (''C:'' @ CHR 0x5C # ''x.dll'') = ''C:'' @ CHR 0x5C # ''x.dll''"
    by (simp add: join_path_def has_drive_def is_ascii_alphabetic_def)
  ultimately show ?thesis using assms by (simp add: flawless_def)
qed

text \<open>
  The files are put into the folder before the volumes are tried: when a volume is refused, trying again in the same folder is
  refused because of the Compose file of the first attempt, although the message asks to remove the volume and try again.
\<close>

lemma failed_restore_blocks_retry:
  assumes "flawless env" "cf \<in> set COMPOSE_FILES" "(''project/'' @ cf, b) \<in> set es"
    and "restore_files env target cf es t d = (r, d')" "bk_make_dirs env target = Inr ()"
  shows "\<exists>f. restore env run z target (d', x) = (Inl (target @ '' already contains '' @ f @ '': choose an empty folder''), d', x)"
proof -
  have "(cf, b) \<in> set (project_part es)"
    using assms(2,3) known_file_plain(2) [of cf] by (force simp: project_part_def List.map_filter_def)
  then have "join_path target cf \<in> (\<lambda>(r, b). join_path target r) ` set (project_part es)" by force
  moreover have "p \<in> (\<lambda>(r, b). join_path target r) ` set xs \<Longrightarrow> fold (\<lambda>(r, b) d. d(join_path target r \<mapsto> b)) xs e p \<noteq> None" for p xs e
    by (induction xs rule: rev_induct) force+
  moreover have "d' = fold (\<lambda>(r, b) d. d(join_path target r \<mapsto> b)) (project_part es) d"
    using assms(4) restore_files_part [OF assms(1), of target cf es t d] by (simp del: fun_upd_apply)
  ultimately have "d' (join_path target cf) \<noteq> None" by blast
  then have "find (\<lambda>f. d' (join_path target f) \<noteq> None) COMPOSE_FILES \<noteq> None"
    using assms(2) by (auto simp: find_None_iff)
  then show ?thesis using assms(5) by (auto simp: restore_def)
qed

end
