(* ===== verification/Spec2Isabelle.thy ===== *)
theory Spec2Isabelle
  imports Mask Docker_Relay Sleeper Port_Relays Image_Check Settings_Store Fs_Exchange Domain_Relay Trace_Hub Engine_Laws Agent_Laws Agent_Client
    Agent_Trace Control_Pipe Docker_Shim Vm_Hcs Docker_Pipe Agent_Streams Client_Update Client_Backup
begin

text \<open>
  Verification of Solon, a Docker engine for Windows that runs containers in a small Linux machine.

  The program.  A Windows service (\<open>crates/solon-service\<close>) starts the machine and talks to the agent
  in it (\<open>crates/solon-agent\<close>) over numbered channels; both share the messages and the masking of
  \<open>crates/solon-core\<close>.  The service relays the Docker API, published ports and local domains, puts idle
  containers to sleep, serves the files of shared Windows drives, keeps settings, and checks the image of the
  machine before it boots.  The agent mounts those drives as a FUSE file system.

  The theories, by component of the source.

  \<^item> \<open>Solon_Prelude\<close>: bytes and texts as the Rust library treats them (searching, splitting, trimming,
    numbers, UTF-8), shared by all; \<open>Transitions\<close>: the contract of a state machine with an invariant,
    interpreted by the sleeper, the file system of the machine and others; \<open>Json_Values\<close>: JSON trees;
    \<open>Byte_Streams\<close>: a connection as arrivals that may be cut anywhere or fail, and what is written.
  \<^item> \<open>Mask\<close> (\<open>solon-core/src/mask.rs\<close>): the masking of secrets, addresses and numbers in headers, URLs,
    forms, JSON and text, with its index loops.
  \<^item> \<open>Protocol\<close> (\<open>protocol.rs\<close>), \<open>Service_Types\<close> (\<open>error.rs\<close>, \<open>vm.rs\<close>, \<open>ipc.rs\<close>): the messages and data.
  \<^item> \<open>Docker_Proxy\<close>, \<open>Host_Paths\<close>, \<open>Create_Body\<close>, \<open>Docker_Relay\<close> (\<open>docker_proxy.rs\<close>, \<open>guest_path_for\<close> of
    \<open>ipc.rs\<close>): the relay of the Docker API with the rewriting of container creations.
  \<^item> \<open>Sleeper\<close> (\<open>sleep.rs\<close>) and \<open>Port_Relays\<close> (\<open>ports.rs\<close>): state machines over interleaved tasks.
  \<^item> \<open>Sha256\<close>, \<open>Windows_Paths\<close>, \<open>Image_Check\<close> (\<open>paths.rs\<close>): the check of the machine's image.
  \<^item> \<open>Settings_Store\<close> (\<open>settings.rs\<close>): settings and state on a disk that may lose power.
  \<^item> \<open>Fs_Protocol\<close> (\<open>fs.rs\<close>), \<open>File_Server\<close> (\<open>fileserver.rs\<close>), \<open>Solon_Fs\<close> and \<open>Fs_Exchange\<close>
    (\<open>solonfs.rs\<close>): the shared files from the FUSE operation to the Windows file and back.
  \<^item> \<open>Local_Domains\<close>, \<open>Domain_Proxy\<close>, \<open>Domain_Relay\<close> (\<open>domains.rs\<close>): names, the hosts file, the HTTP proxy.
  \<^item> \<open>Trace_Hub\<close> (\<open>trace.rs\<close> of the service): the history of observed exchanges.
  \<^item> \<open>Guest_Network\<close> (\<open>network.rs\<close>), \<open>Engine_Parts\<close>, \<open>Engine\<close> and \<open>Engine_Laws\<close> (\<open>engine.rs\<close>): the network of the
    machine, and the engine that provisions, supervises and stops it.
  \<^item> \<open>Agent_System\<close> and \<open>Agent_Laws\<close> (\<open>system.rs\<close> of the agent): data disk, boot mounts, supervision, reaping.
  \<^item> \<open>Agent_Events\<close> (\<open>events.rs\<close>, \<open>rpc.rs\<close>): what the connected services are told, the event stream of dockerd, the
    control port; \<open>Dns_Relay\<close> (\<open>dns.rs\<close>): the relay of DNS questions and its table of names.
  \<^item> \<open>Agent_Client\<close> (\<open>agent_client.rs\<close>): the service's calls, alone and with the agent's side; \<open>Control_Pipe\<close>
    (\<open>ipc.rs\<close> of the service): the commands of the application; \<open>Project_Scan\<close> (\<open>scan.rs\<close>): the search for projects.
  \<^item> \<open>Agent_Trace\<close> (\<open>trace.rs\<close> of the agent, \<open>solon-trace-common\<close>): the facts of the probes and their names;
    \<open>Docker_Shim\<close> (\<open>solon-docker-shim\<close>): the stand-in for the \<open>docker\<close> command.
  \<^item> \<open>Vm_Hcs\<close> (\<open>solon-vm-hcs\<close>): the document that asks Windows for the machine, error codes, orphans;
    \<open>Docker_Pipe\<close> (\<open>docker_pipe.rs\<close>): the pipe of the Docker API in message mode.
  \<^item> \<open>Agent_Streams\<close> (\<open>execstream.rs\<close>, \<open>ports.rs\<close>, \<open>forward.rs\<close>, \<open>net.rs\<close> of the agent): streamed commands, relayed
    connections and the network inside the machine.
  \<^item> \<open>Client_Update\<close> (\<open>update.rs\<close> of \<open>solon-client\<close>): the update of Solon, with the check of the installer;
    \<open>Client_Control\<close> (\<open>control.rs\<close>, \<open>compose.rs\<close>, \<open>containers.rs\<close>, \<open>volumes.rs\<close>) and \<open>Client_Backup\<close> (\<open>backup.rs\<close>): what the
    application and the command line share, and the archive of a project with its restoration.

  How code becomes definitions.  A struct is a record, an enum a datatype, a result a sum with the error on
  the left; an \<open>async\<close> method that can be interrupted is cut into the steps of an inductive relation, the
  others are functions of their state.  Loops are functions with a termination proof, on a measure of the
  bytes or elements left, so none needs fuel.  What is outside the source is a parameter: the Windows file
  system (\<open>host_fs\<close>), \<open>serde_json\<close> (codecs with a round-trip law), the exchange with the other side.

  What the properties show.  Masking leaves no address and no secret value readable; relays pass every byte on
  unchanged, for every cut into reads, except the rewriting they are meant to do, which meets its
  specification; the state machines keep their invariants over all interleavings; frames and files survive the
  way between machine and host; images, settings and the hosts file are only accepted or written
  whole.  Some theorems state where the code departs from its documentation: those are the findings
  of the manifest.

  Bounds.  Machine integers are words where they wrap (SHA-256, times) and naturals with their limit
  written out elsewhere.

  Not modelled.  The calls of Windows (the Host Compute System, HNS, services, pipes, routes, certificates) and of Linux (mounts,
  network, eBPF programs), TLS, the accept loops and timeouts of the servers, the desktop
  application and the command line's printing.
\<close>

end
